(* ===== verification/Prelude.thy ===== *)
theory Prelude
  imports Main "HOL-Library.Sublist"
begin

text \<open>
  Shared vocabulary of the development: the collections of rewrite rules the component
  theories fill, the byte and buffer types, the fragments of the C++ standard library that
  several components use (\<open>std::tolower\<close>, \<open>std::string::find\<close>, \<open>std::to_string\<close>, the
  \<open>%zx\<close> conversion of \<open>snprintf\<close>, \<open>memcpy\<close> into a fixed buffer), and the generic lemmas
  on lists that carry the component proofs.
\<close>

named_theorems op_defs
  \<open>unfolding rules of the non-recursive operations of the model\<close>

named_theorems wire_simps
  \<open>rewrite rules for the wire formats (digits, chunk framing, header lines)\<close>

section \<open>Bytes and buffers\<close>

text \<open>A \<open>std::string\<close> or a \<open>char\<close> range is a list of bytes; sizes (\<open>std::size_t\<close>) are
  natural numbers, as no size of the program exceeds the address space.\<close>

type_synonym byte_list = "char list"

text \<open>Copying \<open>out\<close> to the front of a fixed-size buffer (\<open>memcpy(buf, out, n)\<close>).\<close>

definition overwrite :: "byte_list \<Rightarrow> byte_list \<Rightarrow> byte_list" where
  "overwrite buf out = out @ drop (length out) buf"

section \<open>Standard library fragments\<close>

text \<open>\<open>std::tolower\<close> in the "C" locale (the program never calls \<open>setlocale\<close>); bytes above
  127 are left alone.\<close>

definition tolower :: "char \<Rightarrow> char" where
  "tolower c =
     (let n = (of_char c :: nat) in if 65 \<le> n \<and> n \<le> 90 then char_of (n + 32) else c)"

text \<open>\<open>std::string::find\<close>: the first position where \<open>needle\<close> occurs, \<open>None\<close> for \<open>npos\<close>.\<close>

fun string_find :: "string \<Rightarrow> string \<Rightarrow> nat option" where
  "string_find [] needle = (if needle = [] then Some 0 else None)"
| "string_find (c # cs) needle =
     (if prefix needle (c # cs) then Some 0 else map_option Suc (string_find cs needle))"

text \<open>Positional numerals: \<open>std::to_string\<close> (base 10) and \<open>%zx\<close> (base 16, lower case).\<close>

definition digit_char :: "nat \<Rightarrow> char" where
  "digit_char d = (if d < 10 then char_of (48 + d) else char_of (87 + d))"

fun numeral_string :: "nat \<Rightarrow> nat \<Rightarrow> string" where
  "numeral_string b n =
     (if b \<le> 1 \<or> n < b then [digit_char n]
      else numeral_string b (n div b) @ [digit_char (n mod b)])"

declare numeral_string.simps [simp del]

definition to_string :: "nat \<Rightarrow> string" where
  "to_string n = numeral_string 10 n"

definition hex_string :: "nat \<Rightarrow> string" where
  "hex_string n = numeral_string 16 n"

text \<open>The value of a digit, and of a digit string, for the reference decoders.\<close>

definition digit_value :: "char \<Rightarrow> nat option" where
  "digit_value c =
     (let n = (of_char c :: nat) in
      if 48 \<le> n \<and> n \<le> 57 then Some (n - 48)
      else if 97 \<le> n \<and> n \<le> 102 then Some (n - 87) else None)"

fun numeral_value :: "nat \<Rightarrow> nat \<Rightarrow> string \<Rightarrow> nat option" where
  "numeral_value b acc [] = Some acc"
| "numeral_value b acc (c # cs) =
     (case digit_value c of
        None \<Rightarrow> None
      | Some d \<Rightarrow> if d < b then numeral_value b (acc * b + d) cs else None)"

abbreviation CR :: char where "CR \<equiv> CHR 0x0D"
abbreviation LF :: char where "LF \<equiv> CHR 0x0A"
abbreviation crlf :: string where "crlf \<equiv> [CR, LF]"

section \<open>Lemmas\<close>

lemma overwrite_take [simp]: "take (length out) (overwrite buf out) = out"
  by (simp add: overwrite_def)

lemma length_overwrite:
  "length out \<le> length buf \<Longrightarrow> length (overwrite buf out) = length buf"
  by (simp add: overwrite_def)

lemma string_find_sublist: "string_find hay needle \<noteq> None \<longleftrightarrow> sublist needle hay"
proof (induction hay needle rule: string_find.induct)
  case (1 needle)
  then show ?case by simp
next
  case (2 c cs needle)
  then show ?case by (auto simp: sublist_Cons_right)
qed

lemma of_char_digit_char:
  "d < 16 \<Longrightarrow> (of_char (digit_char d) :: nat) = (if d < 10 then 48 + d else 87 + d)"
  by (auto simp: digit_char_def)

lemma digit_value_digit_char [wire_simps]: "d < 16 \<Longrightarrow> digit_value (digit_char d) = Some d"
  by (simp add: digit_value_def of_char_digit_char Let_def)

lemma numeral_value_append:
  "numeral_value b acc (xs @ ys) =
     (case numeral_value b acc xs of None \<Rightarrow> None | Some v \<Rightarrow> numeral_value b v ys)"
  by (induction b acc xs rule: numeral_value.induct) (auto split: option.split)

lemma numeral_value_string:
  assumes "2 \<le> b" "b \<le> 16"
  shows "numeral_value b 0 (numeral_string b n) = Some n"
  using assms
proof (induction b n rule: numeral_string.induct)
  case (1 b n)
  show ?case
  proof (cases "n < b")
    case True
    with 1 show ?thesis
      by (simp add: numeral_string.simps[of b n] digit_value_digit_char)
  next
    case False
    with 1 have "numeral_value b 0 (numeral_string b (n div b)) = Some (n div b)"
      by simp
    moreover have "n mod b < b" using 1 by simp
    moreover have "digit_value (digit_char (n mod b)) = Some (n mod b)"
      using 1 \<open>n mod b < b\<close> by (intro digit_value_digit_char) linarith
    ultimately show ?thesis using False 1
      by (simp add: numeral_string.simps[of b n] numeral_value_append)
  qed
qed

lemma hex_string_value [wire_simps]: "numeral_value 16 0 (hex_string n) = Some n"
  by (simp add: hex_string_def numeral_value_string)

lemma to_string_value [wire_simps]: "numeral_value 10 0 (to_string n) = Some n"
  by (simp add: to_string_def numeral_value_string)

lemma numeral_string_digits:
  assumes "2 \<le> b" "b \<le> 16" "c \<in> set (numeral_string b n)"
  shows "digit_value c \<noteq> None"
  using assms
proof (induction b n rule: numeral_string.induct)
  case (1 b n)
  show ?case
  proof (cases "n < b")
    case True
    with 1 show ?thesis
      by (auto simp: numeral_string.simps[of b n] digit_value_digit_char)
  next
    case False
    have "n mod b < 16"
      using "1.prems" mod_less_divisor[of b n] by linarith
    with False 1 show ?thesis
      by (auto simp: numeral_string.simps[of b n] digit_value_digit_char)
  qed
qed

lemma CR_no_digit [simp]: "digit_value CR = None" "digit_value CHR '' '' = None"
  by (simp_all add: digit_value_def)

lemma hex_string_no_CR [simp]: "CR \<notin> set (hex_string n)"
  using numeral_string_digits[of 16 CR n] by (auto simp: hex_string_def)

lemma to_string_no_CR [simp]: "CR \<notin> set (to_string n)"
  using numeral_string_digits[of 10 CR n] by (auto simp: to_string_def)

lemma to_string_no_space [simp]: "CHR '' '' \<notin> set (to_string n)"
  using numeral_string_digits[of 10 "CHR '' ''" n] by (auto simp: to_string_def)

end
