(* ===== verification/Http_Types.thy ===== *)
theory Http_Types
  imports Prelude
begin

text \<open>
  The value types of \<open>src/net/http/types.hpp\<close> (headers and message heads) with the header
  operations \<open>set_header\<close> and \<open>has_header\<close>, and the shared serializer helpers of
  \<open>src/net/http/native/detail.hpp\<close> (\<open>iequals\<close>, \<open>icontains\<close>, \<open>has_chunked_encoding\<close>,
  \<open>append_chunk\<close>). The lemmas show that a written header is the only one of its name and
  leaves the others in place, and that a chunk-framed body decodes to the bytes that were
  provided.
\<close>

section \<open>Message heads\<close>

record Header =
  hdr_name :: string
  hdr_value :: string

record RequestHead =
  req_method :: string
  req_target :: string
  req_version :: nat
  req_headers :: "Header list"

record ResponseHead =
  resp_status :: nat
  resp_reason :: string
  resp_version :: nat
  resp_headers :: "Header list"

text \<open>The default member initialisers: \<open>RequestHead{}\<close> and \<open>ResponseHead{}\<close>.\<close>

definition RequestHead_init :: RequestHead where
  "RequestHead_init =
     \<lparr>req_method = [], req_target = [], req_version = 11, req_headers = []\<rparr>"

definition ResponseHead_init :: ResponseHead where
  "ResponseHead_init =
     \<lparr>resp_status = 0, resp_reason = [], resp_version = 11, resp_headers = []\<rparr>"

section \<open>Header operations\<close>

definition header_name_iequals :: "string \<Rightarrow> string \<Rightarrow> bool" where
  "header_name_iequals a b \<longleftrightarrow>
     length a = length b \<and> list_all2 (\<lambda>x y. tolower x = tolower y) a b"

definition set_header :: "Header list \<Rightarrow> string \<Rightarrow> string \<Rightarrow> Header list" where
  "set_header headers n v =
     filter (\<lambda>h. \<not> header_name_iequals (hdr_name h) n) headers @
     [\<lparr>hdr_name = n, hdr_value = v\<rparr>]"

definition has_header :: "Header list \<Rightarrow> string \<Rightarrow> bool" where
  "has_header headers n \<longleftrightarrow> list_ex (\<lambda>h. header_name_iequals (hdr_name h) n) headers"

text \<open>The helpers of \<open>net::http::native::detail\<close>.\<close>

definition iequals :: "string \<Rightarrow> string \<Rightarrow> bool" where
  "iequals a b \<longleftrightarrow>
     length a = length b \<and> list_all2 (\<lambda>x y. tolower x = tolower y) a b"

definition icontains :: "string \<Rightarrow> string \<Rightarrow> bool" where
  "icontains haystack needle \<longleftrightarrow> string_find (map tolower haystack) needle \<noteq> None"

fun has_chunked_encoding :: "Header list \<Rightarrow> bool" where
  "has_chunked_encoding [] = False"
| "has_chunked_encoding (h # hs) =
     (if iequals (hdr_name h) ''Transfer-Encoding'' \<and> icontains (hdr_value h) ''chunked''
      then True else has_chunked_encoding hs)"

text \<open>One body piece in chunked framing, appended to \<open>out\<close>; the terminating frame follows
  when it is the last one.\<close>

definition append_chunk :: "byte_list \<Rightarrow> byte_list \<Rightarrow> bool \<Rightarrow> byte_list" where
  "append_chunk out chunk is_last =
     (let out1 = (if length chunk > 0
                  then out @ (hex_string (length chunk) @ crlf) @ chunk @ crlf
                  else out)
      in if is_last then out1 @ ''0'' @ crlf @ crlf else out1)"

section \<open>Reference decoders\<close>

text \<open>The part of a byte string before the first CR LF, and the part after it.\<close>

fun split_crlf :: "byte_list \<Rightarrow> (byte_list \<times> byte_list) option" where
  "split_crlf [] = None"
| "split_crlf (c # cs) =
     (if c = CR \<and> cs \<noteq> [] \<and> hd cs = LF then Some ([], tl cs)
      else map_option (\<lambda>(l, r). (c # l, r)) (split_crlf cs))"

lemma split_crlf_shorter: "split_crlf s = Some (l, r) \<Longrightarrow> length r < length s"
  by (induction s arbitrary: l) (auto split: if_splits)

text \<open>The chunked transfer coding of RFC 7230 section 4.1, without extensions and trailers:
  the decoded body and the bytes that follow the last chunk.\<close>

function dechunk :: "byte_list \<Rightarrow> (byte_list \<times> byte_list) option" where
  "dechunk s =
     (case split_crlf s of
        None \<Rightarrow> None
      | Some (l, r) \<Rightarrow>
          (case (if l = [] then None else numeral_value 16 0 l) of
             None \<Rightarrow> None
           | Some n \<Rightarrow>
               if n = 0 then (if prefix crlf r then Some ([], drop 2 r) else None)
               else if length r < n + 2 \<or> take 2 (drop n r) \<noteq> crlf then None
               else map_option (\<lambda>(b, rest). (take n r @ b, rest)) (dechunk (drop (n + 2) r))))"
  by pat_completeness auto
termination
  by (relation "measure length") (auto dest!: split_crlf_shorter split: if_splits)

declare dechunk.simps [simp del]

section \<open>Lemmas on headers\<close>

lemma header_name_iequals_map:
  "header_name_iequals a b \<longleftrightarrow> map tolower a = map tolower b"
  unfolding header_name_iequals_def
  by (auto simp: list_all2_eq list_all2_map1 list_all2_map2 dest: list_all2_lengthD)

lemma iequals_eq: "iequals = header_name_iequals"
  by (intro ext) (simp add: iequals_def header_name_iequals_def)

lemma header_name_iequals_refl [simp]: "header_name_iequals a a"
  by (simp add: header_name_iequals_map)

lemma header_name_iequals_sym: "header_name_iequals a b = header_name_iequals b a"
  by (auto simp: header_name_iequals_map)

lemma header_name_iequals_trans:
  "header_name_iequals a b \<Longrightarrow> header_name_iequals a c = header_name_iequals b c"
  by (simp add: header_name_iequals_map)

lemma has_chunked_encoding_ex:
  "has_chunked_encoding hs \<longleftrightarrow>
     (\<exists>h \<in> set hs. iequals (hdr_name h) ''Transfer-Encoding'' \<and>
        icontains (hdr_value h) ''chunked'')"
  by (induction hs) auto

lemma has_header_ex:
  "has_header hs n \<longleftrightarrow> (\<exists>h \<in> set hs. header_name_iequals (hdr_name h) n)"
  by (simp add: has_header_def list_ex_iff)

lemma set_header_same:
  "filter (\<lambda>h. header_name_iequals (hdr_name h) n) (set_header hs n v) =
     [\<lparr>hdr_name = n, hdr_value = v\<rparr>]"
  by (simp add: set_header_def filter_filter)

lemma set_header_other:
  assumes "\<not> header_name_iequals m n"
  shows "filter (\<lambda>h. header_name_iequals (hdr_name h) m) (set_header hs n v) =
     filter (\<lambda>h. header_name_iequals (hdr_name h) m) hs"
proof -
  have "filter (\<lambda>h. header_name_iequals (hdr_name h) m \<and>
                    \<not> header_name_iequals (hdr_name h) n) hs =
        filter (\<lambda>h. header_name_iequals (hdr_name h) m) hs"
    using assms by (intro filter_cong) (auto simp: header_name_iequals_map)
  then show ?thesis
    using assms header_name_iequals_sym[of m n]
    by (simp add: set_header_def filter_filter conj_commute)
qed

lemma has_header_set_header:
  "has_header (set_header hs n v) m \<longleftrightarrow> header_name_iequals n m \<or> has_header hs m"
proof (cases "header_name_iequals n m")
  case True
  then show ?thesis by (auto simp: has_header_ex set_header_def)
next
  case False
  then show ?thesis
    by (auto simp: has_header_ex set_header_def header_name_iequals_map)
qed

lemma header_name_iequals_apart:
  "header_name_iequals a m \<Longrightarrow> \<not> header_name_iequals n m \<Longrightarrow> \<not> header_name_iequals a n"
  by (auto simp: header_name_iequals_map)

lemma has_chunked_encoding_set_header:
  assumes "\<not> iequals n ''Transfer-Encoding''"
  shows "has_chunked_encoding (set_header hs n v) = has_chunked_encoding hs"
  using assms
  by (auto simp: has_chunked_encoding_ex set_header_def iequals_eq
      dest: header_name_iequals_apart)

section \<open>Lemmas on chunked framing\<close>

lemma split_crlf_append [wire_simps]:
  "CR \<notin> set l \<Longrightarrow> split_crlf (l @ CR # LF # r) = Some (l, r)"
  by (induction l) auto

lemma append_chunk_append: "append_chunk out c l = out @ append_chunk [] c l"
  by (simp add: append_chunk_def Let_def)

lemma hex_string_nonempty [simp]: "hex_string n \<noteq> []"
  by (simp add: hex_string_def numeral_string.simps[of 16 n])

lemma dechunk_last: "dechunk (''0'' @ crlf @ crlf @ rest) = Some ([], rest)"
  by (simp add: dechunk.simps digit_value_def)

lemma dechunk_frame:
  assumes "c \<noteq> []"
  shows "dechunk (append_chunk [] c False @ rest) =
     map_option (\<lambda>(b, r). (c @ b, r)) (dechunk rest)"
  using assms
  by (subst dechunk.simps) (simp add: append_chunk_def Let_def wire_simps)

lemma dechunk_frame_any:
  "dechunk (append_chunk [] c False @ rest) =
     map_option (\<lambda>(b, r). (c @ b, r)) (dechunk rest)"
proof (cases "c = []")
  case True
  then show ?thesis
    by (cases "dechunk rest") (auto simp: append_chunk_def Let_def)
qed (simp add: dechunk_frame)

lemma append_chunk_last:
  "append_chunk [] c True = append_chunk [] c False @ ''0'' @ crlf @ crlf"
  by (simp add: append_chunk_def Let_def)

lemma dechunk_frames:
  "dechunk (concat (map (\<lambda>c. append_chunk [] c False) cs) @ append_chunk [] c True @ rest) =
     Some (concat cs @ c, rest)"
proof (induction cs)
  case Nil
  then show ?case
    using dechunk_last[of rest] by (simp add: append_chunk_last dechunk_frame_any)
next
  case (Cons d cs)
  then show ?case by (simp add: dechunk_frame_any)
qed

end
