(* ===== verification/Serializer.thy ===== *)
theory Serializer
  imports Http_Types "HOL-Library.Monad_Syntax"
begin

text \<open>
  The serializers of \<open>src/net/http/native/\<close>: \<open>RequestSerializer\<close> and \<open>ResponseSerializer\<close>,
  two-stage machines (head, then body) whose output the session pulls into its write buffer.
  The locale \<open>serializer_contract\<close> is the contract of \<open>IRequestSerializer\<close> and
  \<open>IResponseSerializer\<close> (\<open>src/net/http/serializer.hpp\<close>), interpreted on both classes: whatever
  the order of \<open>provide_body\<close> and \<open>pull\<close> and whatever the buffer sizes, the bytes pulled so far
  are a prefix of the head followed by the framed body, and they are all of it once \<open>done()\<close>
  holds. Reference parsers for the head give the round trip.
\<close>

section \<open>Serializer state\<close>

datatype Stage = kHead | kBody | kDone

text \<open>The members of both classes (they are declared alike).\<close>

record serializer =
  head_bytes :: byte_list
  head_sent :: nat
  chunked :: bool
  pending_bytes :: byte_list
  pending_sent :: nat
  is_last_provided :: bool
  stage :: Stage

definition serializer_init :: serializer where
  "serializer_init =
     \<lparr>head_bytes = [], head_sent = 0, chunked = False, pending_bytes = [], pending_sent = 0,
      is_last_provided = False, stage = kHead\<rparr>"

text \<open>The factories (\<open>factory.cpp\<close>).\<close>

definition create_request_serializer :: serializer where
  [simp]: "create_request_serializer = serializer_init"

definition create_response_serializer :: serializer where
  [simp]: "create_response_serializer = serializer_init"

section \<open>Operations\<close>

fun header_lines :: "Header list \<Rightarrow> byte_list" where
  "header_lines [] = []"
| "header_lines (h # hs) = hdr_name h @ '': '' @ hdr_value h @ crlf @ header_lines hs"

definition request_head_bytes :: "RequestHead \<Rightarrow> byte_list" where
  "request_head_bytes h =
     req_method h @ '' '' @ req_target h @ '' '' @
     (if req_version h = 10 then ''HTTP/1.0'' else ''HTTP/1.1'') @ crlf @
     header_lines (req_headers h) @ crlf"

definition response_head_bytes :: "ResponseHead \<Rightarrow> byte_list" where
  "response_head_bytes h =
     (if resp_version h = 10 then ''HTTP/1.0 '' else ''HTTP/1.1 '') @
     to_string (resp_status h) @ '' '' @ resp_reason h @ crlf @
     header_lines (resp_headers h) @ crlf"

definition RequestSerializer_start :: "RequestHead \<Rightarrow> serializer \<Rightarrow> serializer" where
  "RequestSerializer_start head s =
     s\<lparr>head_bytes := request_head_bytes head,
       chunked := has_chunked_encoding (req_headers head),
       head_sent := 0, pending_bytes := [], pending_sent := 0,
       is_last_provided := False, stage := kHead\<rparr>"

definition ResponseSerializer_start :: "ResponseHead \<Rightarrow> serializer \<Rightarrow> serializer" where
  "ResponseSerializer_start head s =
     s\<lparr>head_bytes := response_head_bytes head,
       chunked := has_chunked_encoding (resp_headers head),
       head_sent := 0, pending_bytes := [], pending_sent := 0,
       is_last_provided := False, stage := kHead\<rparr>"

definition RequestSerializer_provide_body :: "byte_list \<Rightarrow> bool \<Rightarrow> serializer \<Rightarrow> serializer" where
  "RequestSerializer_provide_body chunk is_last s =
     (let s1 = s\<lparr>pending_bytes :=
                   (if chunked s then append_chunk (pending_bytes s) chunk is_last
                    else pending_bytes s @ chunk)\<rparr>
      in if is_last then s1\<lparr>is_last_provided := True\<rparr> else s1)"

definition ResponseSerializer_provide_body :: "byte_list \<Rightarrow> bool \<Rightarrow> serializer \<Rightarrow> serializer" where
  "ResponseSerializer_provide_body chunk is_last s =
     (let s1 = s\<lparr>pending_bytes :=
                   (if chunked s then append_chunk (pending_bytes s) chunk is_last
                    else pending_bytes s @ chunk)\<rparr>
      in if is_last then s1\<lparr>is_last_provided := True\<rparr> else s1)"

text \<open>\<open>pull(out)\<close> with \<open>out.size = cap\<close>: the bytes it copies to the front of \<open>out\<close> (their
  number is its return value) and the new state. The head block may fill the buffer and
  return early; otherwise the body block runs, also in the call that finished the head.\<close>

definition pull_head :: "nat \<Rightarrow> serializer \<Rightarrow> byte_list \<times> serializer" where
  "pull_head cap s =
     (if stage s = kHead then
        let n = min cap (length (head_bytes s) - head_sent s);
            s1 = s\<lparr>head_sent := head_sent s + n\<rparr>;
            s2 = (if head_sent s1 = length (head_bytes s1) then s1\<lparr>stage := kBody\<rparr> else s1)
        in (take n (drop (head_sent s) (head_bytes s)), s2)
      else ([], s))"

definition pull_body :: "nat \<Rightarrow> serializer \<Rightarrow> byte_list \<times> serializer" where
  "pull_body room s =
     (if stage s = kBody then
        let n = min room (length (pending_bytes s) - pending_sent s);
            s1 = s\<lparr>pending_sent := pending_sent s + n\<rparr>;
            s2 = (if pending_sent s1 = length (pending_bytes s1) then
                    let s3 = s1\<lparr>pending_bytes := [], pending_sent := 0\<rparr>
                    in if is_last_provided s3 then s3\<lparr>stage := kDone\<rparr> else s3
                  else s1)
        in (take n (drop (pending_sent s) (pending_bytes s)), s2)
      else ([], s))"

definition RequestSerializer_pull :: "nat \<Rightarrow> serializer \<Rightarrow> byte_list \<times> serializer" where
  "RequestSerializer_pull cap s =
     (let (out1, s1) = pull_head cap s in
      if stage s = kHead \<and> length out1 = cap then (out1, s1)
      else let (out2, s2) = pull_body (cap - length out1) s1 in (out1 @ out2, s2))"

definition ResponseSerializer_pull :: "nat \<Rightarrow> serializer \<Rightarrow> byte_list \<times> serializer" where
  "ResponseSerializer_pull cap s =
     (let (out1, s1) = pull_head cap s in
      if stage s = kHead \<and> length out1 = cap then (out1, s1)
      else let (out2, s2) = pull_body (cap - length out1) s1 in (out1 @ out2, s2))"

definition RequestSerializer_done :: "serializer \<Rightarrow> bool" where
  "RequestSerializer_done s \<longleftrightarrow> stage s = kDone"

definition ResponseSerializer_done :: "serializer \<Rightarrow> bool" where
  "ResponseSerializer_done s \<longleftrightarrow> stage s = kDone"

section \<open>Reference parsers for message heads\<close>

text \<open>The part of a string before the first occurrence of a character, and the part after.\<close>

fun split_on :: "char \<Rightarrow> byte_list \<Rightarrow> (byte_list \<times> byte_list) option" where
  "split_on d [] = None"
| "split_on d (c # cs) =
     (if c = d then Some ([], cs) else map_option (\<lambda>(l, r). (c # l, r)) (split_on d cs))"

text \<open>Header lines up to the empty line.\<close>

function parse_header_lines :: "byte_list \<Rightarrow> (Header list \<times> byte_list) option" where
  "parse_header_lines s =
     (case split_crlf s of
        None \<Rightarrow> None
      | Some (l, r) \<Rightarrow>
          if l = [] then Some ([], r)
          else (case split_on CHR '':'' l of
                  None \<Rightarrow> None
                | Some (n, v) \<Rightarrow>
                    if v = [] \<or> hd v \<noteq> CHR '' '' then None
                    else map_option (\<lambda>(hs, rest). (\<lparr>hdr_name = n, hdr_value = tl v\<rparr> # hs, rest))
                           (parse_header_lines r)))"
  by pat_completeness auto
termination
  by (relation "measure length") (auto dest: split_crlf_shorter)

declare parse_header_lines.simps [simp del]

definition parse_version :: "byte_list \<Rightarrow> nat option" where
  "parse_version v =
     (if v = ''HTTP/1.0'' then Some 10 else if v = ''HTTP/1.1'' then Some 11 else None)"

definition parse_request_head :: "byte_list \<Rightarrow> (RequestHead \<times> byte_list) option" where
  "parse_request_head s = do {
     (l, r) \<leftarrow> split_crlf s;
     (m, l2) \<leftarrow> split_on CHR '' '' l;
     (t, v) \<leftarrow> split_on CHR '' '' l2;
     ver \<leftarrow> parse_version v;
     (hs, rest) \<leftarrow> parse_header_lines r;
     Some (\<lparr>req_method = m, req_target = t, req_version = ver, req_headers = hs\<rparr>, rest)
   }"


text \<open>Heads whose fields cannot break the line structure: what an HTTP parser delivers.\<close>

definition wf_header :: "Header \<Rightarrow> bool" where
  "wf_header h \<longleftrightarrow> hdr_name h \<noteq> [] \<and> CHR '':'' \<notin> set (hdr_name h) \<and>
     CR \<notin> set (hdr_name h) \<and> CR \<notin> set (hdr_value h)"

definition wf_request_head :: "RequestHead \<Rightarrow> bool" where
  "wf_request_head h \<longleftrightarrow>
     CHR '' '' \<notin> set (req_method h) \<and> CR \<notin> set (req_method h) \<and>
     CHR '' '' \<notin> set (req_target h) \<and> CR \<notin> set (req_target h) \<and>
     (req_version h = 10 \<or> req_version h = 11) \<and> list_all wf_header (req_headers h)"


section \<open>The contract of the serializer interface\<close>

text \<open>What one \<open>provide_body\<close> call adds to the wire.\<close>

definition frame :: "bool \<Rightarrow> byte_list \<Rightarrow> bool \<Rightarrow> byte_list" where
  "frame ch c is_last = (if ch then append_chunk [] c is_last else c)"

text \<open>A client's calls between \<open>start\<close> and \<open>done\<close>, and the bytes they produce.\<close>

datatype ser_op = Provide byte_list bool | Pull nat

fun run_ser ::
  "(byte_list \<Rightarrow> bool \<Rightarrow> 's \<Rightarrow> 's) \<Rightarrow> (nat \<Rightarrow> 's \<Rightarrow> byte_list \<times> 's) \<Rightarrow> ser_op list \<Rightarrow> 's
     \<Rightarrow> byte_list \<times> 's" where
  "run_ser pv pl [] s = ([], s)"
| "run_ser pv pl (Provide c l # ops) s = run_ser pv pl ops (pv c l s)"
| "run_ser pv pl (Pull cap # ops) s =
     (let (out, s1) = pl cap s; (outs, s2) = run_ser pv pl ops s1 in (out @ outs, s2))"

text \<open>No body piece after the one marked last.\<close>

fun one_last :: "ser_op list \<Rightarrow> bool" where
  "one_last [] = True"
| "one_last (Provide c l # ops) =
     (if l then list_all (\<lambda>x. case x of Provide _ _ \<Rightarrow> False | Pull _ \<Rightarrow> True) ops
      else one_last ops)"
| "one_last (Pull _ # ops) = one_last ops"

fun body_wire :: "bool \<Rightarrow> ser_op list \<Rightarrow> byte_list" where
  "body_wire ch [] = []"
| "body_wire ch (Provide c l # ops) = frame ch c l @ body_wire ch ops"
| "body_wire ch (Pull _ # ops) = body_wire ch ops"

fun provided :: "ser_op list \<Rightarrow> byte_list" where
  "provided [] = []"
| "provided (Provide c l # ops) = c @ provided ops"
| "provided (Pull _ # ops) = provided ops"

fun gives_last :: "ser_op list \<Rightarrow> bool" where
  "gives_last [] = False"
| "gives_last (Provide c l # ops) = (l \<or> gives_last ops)"
| "gives_last (Pull _ # ops) = gives_last ops"

lemma list_all_no_provide:
  "list_all (\<lambda>x. case x of Provide _ _ \<Rightarrow> False | Pull _ \<Rightarrow> True) ops \<Longrightarrow> one_last ops"
  by (induction ops rule: one_last.induct) auto

locale serializer_contract =
  fixes start :: "'h \<Rightarrow> 's \<Rightarrow> 's"
    and provide_body :: "byte_list \<Rightarrow> bool \<Rightarrow> 's \<Rightarrow> 's"
    and pull :: "nat \<Rightarrow> 's \<Rightarrow> byte_list \<times> 's"
    and finished :: "'s \<Rightarrow> bool"
    and head_wire :: "'h \<Rightarrow> byte_list"
    and head_chunked :: "'h \<Rightarrow> bool"
    and unsent :: "'s \<Rightarrow> byte_list"
    and last_given :: "'s \<Rightarrow> bool"
    and framing :: "'s \<Rightarrow> bool"
    and invar :: "'s \<Rightarrow> bool"
  assumes start_invar: "invar (start h s)"
    and start_unsent: "unsent (start h s) = head_wire h"
    and start_last: "\<not> last_given (start h s)"
    and start_framing: "framing (start h s) = head_chunked h"
    and provide_invar: "invar s \<Longrightarrow> \<not> last_given s \<Longrightarrow> invar (provide_body c l s)"
    and provide_unsent:
      "invar s \<Longrightarrow> \<not> last_given s \<Longrightarrow>
         unsent (provide_body c l s) = unsent s @ frame (framing s) c l"
    and provide_last: "last_given (provide_body c l s) = (last_given s \<or> l)"
    and provide_framing: "framing (provide_body c l s) = framing s"
    and pull_invar: "invar s \<Longrightarrow> invar (snd (pull cap s))"
    and pull_out: "invar s \<Longrightarrow> fst (pull cap s) = take cap (unsent s)"
    and pull_unsent: "invar s \<Longrightarrow> unsent (snd (pull cap s)) = drop cap (unsent s)"
    and pull_last: "last_given (snd (pull cap s)) = last_given s"
    and pull_framing: "framing (snd (pull cap s)) = framing s"
    and finished_unsent: "invar s \<Longrightarrow> finished s \<Longrightarrow> unsent s = [] \<and> last_given s"
    and pull_empty_finished:
      "invar s \<Longrightarrow> unsent s = [] \<Longrightarrow> last_given s \<Longrightarrow> finished (snd (pull cap s))"
begin

lemma pull_needs_body:
  assumes "invar s" "0 < cap" "fst (pull cap s) = []"
  shows "unsent s = [] \<and> (finished (snd (pull cap s)) \<longleftrightarrow> last_given s)"
proof -
  from assms have "unsent s = []" by (simp add: pull_out)
  with assms show ?thesis
    by (metis finished_unsent pull_empty_finished pull_invar pull_last)
qed

lemma run_prefix:
  assumes "invar s" "one_last ops"
    and "last_given s \<Longrightarrow> list_all (\<lambda>x. case x of Provide _ _ \<Rightarrow> False | Pull _ \<Rightarrow> True) ops"
  shows "fst (run_ser provide_body pull ops s) @ unsent (snd (run_ser provide_body pull ops s)) =
           unsent s @ body_wire (framing s) ops \<and>
         invar (snd (run_ser provide_body pull ops s)) \<and>
         last_given (snd (run_ser provide_body pull ops s)) = (last_given s \<or> gives_last ops)"
  using assms
proof (induction ops arbitrary: s)
  case Nil
  then show ?case by simp
next
  case (Cons x ops)
  show ?case
  proof (cases x)
    case (Provide c l)
    with Cons.prems have nl: "\<not> last_given s" by auto
    have "one_last ops"
      using Cons.prems(2) by (auto simp: Provide list_all_no_provide split: if_splits)
    with Cons.prems nl Provide Cons.IH[of "provide_body c l s"] show ?thesis
      by (simp add: provide_invar provide_unsent provide_last provide_framing split: if_splits)
  next
    case (Pull cap)
    obtain out s1 where p: "pull cap s = (out, s1)" by (cases "pull cap s")
    obtain outs s2 where r: "run_ser provide_body pull ops s1 = (outs, s2)"
      by (cases "run_ser provide_body pull ops s1")
    from p Cons.prems(1) have facts: "out = take cap (unsent s)" "unsent s1 = drop cap (unsent s)"
      "invar s1" "last_given s1 = last_given s" "framing s1 = framing s"
      using pull_out[of s cap] pull_unsent[of s cap] pull_invar[of s cap]
        pull_last[of cap s] pull_framing[of cap s] by auto
    then have "outs @ unsent s2 = unsent s1 @ body_wire (framing s1) ops \<and> invar s2 \<and>
        last_given s2 = (last_given s1 \<or> gives_last ops)"
      using Cons.IH[of s1] Cons.prems r Pull by auto
    then show ?thesis using p r facts Pull by simp
  qed
qed

theorem output_is_prefix:
  assumes "one_last ops"
  shows "fst (run_ser provide_body pull ops (start h s0)) @
           unsent (snd (run_ser provide_body pull ops (start h s0))) =
         head_wire h @ body_wire (head_chunked h) ops"
  using run_prefix[OF start_invar assms, of h s0] start_last
  by (auto simp: start_unsent start_framing)

theorem output_complete:
  assumes "one_last ops"
    and "finished (snd (run_ser provide_body pull ops (start h s0)))"
  shows "fst (run_ser provide_body pull ops (start h s0)) =
           head_wire h @ body_wire (head_chunked h) ops \<and> gives_last ops"
proof -
  let ?r = "run_ser provide_body pull ops (start h s0)"
  have r: "fst ?r @ unsent (snd ?r) = head_wire h @ body_wire (head_chunked h) ops"
    "invar (snd ?r)" "last_given (snd ?r) = gives_last ops"
    using run_prefix[OF start_invar assms(1), of h s0] start_last
    by (auto simp: start_unsent start_framing)
  with finished_unsent[OF r(2) assms(2)] show ?thesis by simp
qed

text \<open>Enough pulls finish a message whose last piece has been provided.\<close>

lemma pulls_finish:
  assumes "invar s" "last_given s" "length (unsent s) \<le> cap * n"
  shows "\<exists>m \<le> n. finished (snd (run_ser provide_body pull (replicate (Suc m) (Pull cap)) s))"
  using assms
proof (induction n arbitrary: s)
  case 0
  then show ?case by (simp add: split_beta pull_empty_finished)
next
  case (Suc n)
  obtain out s1 where p: "pull cap s = (out, s1)" by (cases "pull cap s")
  have s1: "invar s1" "last_given s1" "unsent s1 = drop cap (unsent s)"
    using p Suc.prems pull_invar[of s cap] pull_last[of cap s] pull_unsent[of s cap] by auto
  then have "length (unsent s1) \<le> cap * n" using Suc.prems by simp
  from Suc.IH[OF s1(1,2) this] obtain m where
    "m \<le> n" "finished (snd (run_ser provide_body pull (replicate (Suc m) (Pull cap)) s1))"
    by auto
  with p show ?case by (intro exI[of _ "Suc m"]) (simp add: split_beta)
qed

end

section \<open>Both serializers implement the contract\<close>

text \<open>Abstraction: the bytes not pulled yet; representation invariant of the members.\<close>

definition ser_unsent :: "serializer \<Rightarrow> byte_list" where
  "ser_unsent s =
     (if stage s = kHead then drop (head_sent s) (head_bytes s) else []) @
     drop (pending_sent s) (pending_bytes s)"

definition ser_invar :: "serializer \<Rightarrow> bool" where
  "ser_invar s \<longleftrightarrow>
     (stage s = kHead \<longrightarrow> head_sent s < length (head_bytes s)) \<and>
     pending_sent s \<le> length (pending_bytes s) \<and>
     (stage s = kDone \<longrightarrow> is_last_provided s \<and> pending_bytes s = [])"

lemma ResponseSerializer_provide_body_eq:
  "ResponseSerializer_provide_body = RequestSerializer_provide_body"
  by (intro ext) (simp add: ResponseSerializer_provide_body_def RequestSerializer_provide_body_def)

lemma ResponseSerializer_pull_eq: "ResponseSerializer_pull = RequestSerializer_pull"
  by (intro ext) (simp add: ResponseSerializer_pull_def RequestSerializer_pull_def)

lemma ResponseSerializer_done_eq: "ResponseSerializer_done = RequestSerializer_done"
  by (intro ext) (simp add: ResponseSerializer_done_def RequestSerializer_done_def)

lemmas serializer_eqs =
  ResponseSerializer_provide_body_eq ResponseSerializer_pull_eq ResponseSerializer_done_eq

lemma head_bytes_nonempty [simp]: "request_head_bytes h \<noteq> []" "response_head_bytes r \<noteq> []"
  by (simp_all add: request_head_bytes_def response_head_bytes_def)

lemma pull_head_spec:
  assumes "ser_invar s" "stage s = kHead"
  shows "fst (pull_head cap s) = take cap (drop (head_sent s) (head_bytes s)) \<and>
     ser_invar (snd (pull_head cap s)) \<and>
     ser_unsent (snd (pull_head cap s)) =
       drop cap (drop (head_sent s) (head_bytes s)) @ drop (pending_sent s) (pending_bytes s) \<and>
     stage (snd (pull_head cap s)) =
       (if length (head_bytes s) - head_sent s \<le> cap then kBody else kHead)"
  using assms
  by (auto simp: pull_head_def ser_invar_def ser_unsent_def Let_def min_def add.commute)

lemma pull_body_spec:
  assumes "ser_invar s" "stage s \<noteq> kHead"
  shows "fst (pull_body room s) = take room (ser_unsent s) \<and>
     ser_invar (snd (pull_body room s)) \<and>
     ser_unsent (snd (pull_body room s)) = drop room (ser_unsent s) \<and>
     (ser_unsent s = [] \<and> is_last_provided s \<longrightarrow> stage (snd (pull_body room s)) = kDone)"
  using assms
  by (cases "stage s")
    (auto simp: pull_body_def ser_invar_def ser_unsent_def Let_def min_def add.commute)

lemma pull_frame [simp]:
  "is_last_provided (snd (pull_head cap s)) = is_last_provided s"
  "is_last_provided (snd (pull_body cap s)) = is_last_provided s"
  "chunked (snd (pull_head cap s)) = chunked s"
  "chunked (snd (pull_body cap s)) = chunked s"
  "pending_sent (snd (pull_head cap s)) = pending_sent s"
  "pending_bytes (snd (pull_head cap s)) = pending_bytes s"
  by (simp_all add: pull_head_def pull_body_def Let_def)

lemma pull_spec:
  assumes "ser_invar s"
  shows "fst (RequestSerializer_pull cap s) = take cap (ser_unsent s) \<and>
     ser_invar (snd (RequestSerializer_pull cap s)) \<and>
     ser_unsent (snd (RequestSerializer_pull cap s)) = drop cap (ser_unsent s) \<and>
     (ser_unsent s = [] \<and> is_last_provided s \<longrightarrow>
        stage (snd (RequestSerializer_pull cap s)) = kDone)"
proof (cases "stage s = kHead")
  case True
  let ?h = "drop (head_sent s) (head_bytes s)"
  let ?p = "drop (pending_sent s) (pending_bytes s)"
  obtain o1 s1 where h: "pull_head cap s = (o1, s1)" by (cases "pull_head cap s")
  have ne: "?h \<noteq> []" using assms True by (simp add: ser_invar_def)
  have us: "ser_unsent s = ?h @ ?p" using True by (simp add: ser_unsent_def)
  have spec: "o1 = take cap ?h" "ser_invar s1" "ser_unsent s1 = drop cap ?h @ ?p"
    "stage s1 = (if length (head_bytes s) - head_sent s \<le> cap then kBody else kHead)"
    using pull_head_spec[OF assms True, of cap] h by auto
  show ?thesis
  proof (cases "length o1 = cap")
    case full: True
    then have "cap \<le> length ?h" by (simp add: spec)
    with full True h spec ne us show ?thesis
      by (simp add: RequestSerializer_pull_def)
  next
    case False
    then have lt: "length ?h < cap" by (simp add: spec min_def split: if_splits)
    obtain o2 s2 where b: "pull_body (cap - length o1) s1 = (o2, s2)"
      by (cases "pull_body (cap - length o1) s1")
    have "stage s1 \<noteq> kHead" using spec lt by auto
    then have "o2 = take (cap - length ?h) ?p" "ser_invar s2" "ser_unsent s2 = drop (cap - length ?h) ?p"
      using pull_body_spec[OF spec(2), of "cap - length o1"] b lt spec by auto
    moreover have "RequestSerializer_pull cap s = (?h @ o2, s2)"
      using False True h b lt by (simp add: RequestSerializer_pull_def spec)
    ultimately show ?thesis using us lt ne by simp
  qed
next
  case False
  then have "pull_head cap s = ([], s)" by (simp add: pull_head_def)
  with False pull_body_spec[OF assms False, of cap] show ?thesis
    by (simp add: RequestSerializer_pull_def split_beta)
qed

lemma pull_keeps [simp]:
  "is_last_provided (snd (RequestSerializer_pull cap s)) = is_last_provided s"
  "chunked (snd (RequestSerializer_pull cap s)) = chunked s"
  by (simp_all add: RequestSerializer_pull_def split_beta Let_def)

lemma provide_spec:
  "is_last_provided (RequestSerializer_provide_body c l s) = (is_last_provided s \<or> l)"
  "chunked (RequestSerializer_provide_body c l s) = chunked s"
  "stage (RequestSerializer_provide_body c l s) = stage s"
  by (auto simp: RequestSerializer_provide_body_def Let_def)

lemma provide_unsent_invar:
  assumes "ser_invar s" "\<not> is_last_provided s"
  shows "ser_unsent (RequestSerializer_provide_body c l s) =
           ser_unsent s @ frame (chunked s) c l \<and>
         ser_invar (RequestSerializer_provide_body c l s)"
  using assms
  by (auto simp: RequestSerializer_provide_body_def ser_unsent_def ser_invar_def frame_def Let_def
      append_chunk_append[of "pending_bytes s"])

lemma done_unsent:
  "ser_invar s \<Longrightarrow> RequestSerializer_done s \<Longrightarrow> ser_unsent s = [] \<and> is_last_provided s"
  by (auto simp: ser_invar_def ser_unsent_def RequestSerializer_done_def)

lemma RequestSerializer_start_spec:
  "ser_invar (RequestSerializer_start h s)"
  "ser_unsent (RequestSerializer_start h s) = request_head_bytes h"
  "\<not> is_last_provided (RequestSerializer_start h s)"
  "chunked (RequestSerializer_start h s) = has_chunked_encoding (req_headers h)"
  by (simp_all add: RequestSerializer_start_def ser_invar_def ser_unsent_def)

lemma ResponseSerializer_start_spec:
  "ser_invar (ResponseSerializer_start h s)"
  "ser_unsent (ResponseSerializer_start h s) = response_head_bytes h"
  "\<not> is_last_provided (ResponseSerializer_start h s)"
  "chunked (ResponseSerializer_start h s) = has_chunked_encoding (resp_headers h)"
  by (simp_all add: ResponseSerializer_start_def ser_invar_def ser_unsent_def)

lemma pull_finishes:
  "ser_invar s \<Longrightarrow> ser_unsent s = [] \<Longrightarrow> is_last_provided s \<Longrightarrow>
     RequestSerializer_done (snd (RequestSerializer_pull cap s))"
  using pull_spec[of s cap] by (simp add: RequestSerializer_done_def)

interpretation req_ser: serializer_contract
  RequestSerializer_start RequestSerializer_provide_body RequestSerializer_pull
  RequestSerializer_done request_head_bytes "\<lambda>h. has_chunked_encoding (req_headers h)"
  ser_unsent is_last_provided chunked ser_invar
  by unfold_locales
    (simp_all add: RequestSerializer_start_spec provide_spec provide_unsent_invar pull_spec
      done_unsent pull_finishes)

interpretation resp_ser: serializer_contract
  ResponseSerializer_start ResponseSerializer_provide_body ResponseSerializer_pull
  ResponseSerializer_done response_head_bytes "\<lambda>h. has_chunked_encoding (resp_headers h)"
  ser_unsent is_last_provided chunked ser_invar
  by unfold_locales
    (simp_all add: serializer_eqs ResponseSerializer_start_spec provide_spec
      provide_unsent_invar pull_spec done_unsent pull_finishes)

section \<open>Round trip of the message head\<close>

lemma split_on_append [wire_simps]: "d \<notin> set l \<Longrightarrow> split_on d (l @ d # r) = Some (l, r)"
  by (induction l) auto

lemma Header_eta [simp]: "\<lparr>hdr_name = hdr_name h, hdr_value = hdr_value h\<rparr> = (h :: Header)"
  by simp

lemma parse_header_lines_step:
  assumes "wf_header h"
  shows "parse_header_lines (hdr_name h @ '': '' @ hdr_value h @ crlf @ rest) =
     map_option (\<lambda>(hs, r). (h # hs, r)) (parse_header_lines rest)"
proof -
  have "split_crlf ((hdr_name h @ '': '' @ hdr_value h) @ CR # LF # rest) =
      Some (hdr_name h @ '': '' @ hdr_value h, rest)"
    using assms by (intro split_crlf_append) (auto simp: wf_header_def)
  moreover have "split_on CHR '':'' (hdr_name h @ CHR '':'' # CHR '' '' # hdr_value h) =
      Some (hdr_name h, CHR '' '' # hdr_value h)"
    using assms by (intro split_on_append) (simp add: wf_header_def)
  ultimately show ?thesis
    by (subst parse_header_lines.simps) simp
qed

lemma parse_header_lines_roundtrip [wire_simps]:
  "list_all wf_header hs \<Longrightarrow> parse_header_lines (header_lines hs @ CR # LF # rest) = Some (hs, rest)"
proof (induction hs)
  case Nil
  then show ?case by (simp add: parse_header_lines.simps)
next
  case (Cons h hs)
  then show ?case using parse_header_lines_step[of h "header_lines hs @ CR # LF # rest"] by simp
qed

lemma parse_request_head_bytes:
  assumes "wf_request_head h"
  shows "parse_request_head (request_head_bytes h @ rest) = Some (h, rest)"
proof -
  let ?v = "if req_version h = 10 then ''HTTP/1.0'' else ''HTTP/1.1''"
  have "CR \<notin> set (req_method h @ '' '' @ req_target h @ '' '' @ ?v)"
    using assms by (auto simp: wf_request_head_def)
  from split_crlf_append[OF this]
  have "split_crlf (request_head_bytes h @ rest) =
      Some (req_method h @ '' '' @ req_target h @ '' '' @ ?v,
            header_lines (req_headers h) @ crlf @ rest)"
    by (simp add: request_head_bytes_def)
  then show ?thesis
    using assms
    by (cases h) (auto simp: parse_request_head_def wf_request_head_def parse_version_def wire_simps)
qed


section \<open>Properties\<close>

lemma no_provide_wire:
  assumes "list_all (\<lambda>x. case x of Provide _ _ \<Rightarrow> False | Pull _ \<Rightarrow> True) ops"
  shows "body_wire ch ops = []" "provided ops = []"
  using assms by (induction ops rule: one_last.induct) auto

lemma dechunk_body_wire:
  "one_last ops \<Longrightarrow> gives_last ops \<Longrightarrow> dechunk (body_wire True ops @ rest) = Some (provided ops, rest)"
proof (induction ops rule: one_last.induct)
  case (2 c l ops)
  show ?case
  proof (cases l)
    case True
    with 2 dechunk_frames[of "[]" c rest] show ?thesis
      by (simp add: frame_def no_provide_wire)
  next
    case False
    with 2 show ?thesis by (simp add: frame_def dechunk_frame_any)
  qed
qed auto

lemma plain_body_wire: "body_wire False ops = provided ops"
  by (induction ops rule: provided.induct) (auto simp: frame_def)

text \<open>C21. Whatever the order of \<open>provide_body\<close> and \<open>pull\<close> calls and whatever the buffer sizes,
  the bytes a request serializer has handed out, followed by what it still holds, are the
  serialized head followed by the framed body pieces; once \<open>done()\<close> is true, the bytes handed
  out are exactly the whole message and its last piece was provided.\<close>

theorem request_wire_exact:
  assumes "one_last ops"
  shows "prefix (fst (run_ser RequestSerializer_provide_body RequestSerializer_pull ops
                   (RequestSerializer_start h s0)))
           (request_head_bytes h @ body_wire (has_chunked_encoding (req_headers h)) ops) \<and>
         (RequestSerializer_done
            (snd (run_ser RequestSerializer_provide_body RequestSerializer_pull ops
                   (RequestSerializer_start h s0))) \<longrightarrow>
          fst (run_ser RequestSerializer_provide_body RequestSerializer_pull ops
                 (RequestSerializer_start h s0)) =
            request_head_bytes h @ body_wire (has_chunked_encoding (req_headers h)) ops \<and>
          gives_last ops)"
  using req_ser.output_is_prefix[OF assms, of h s0] req_ser.output_complete[OF assms, of h s0]
  by (metis prefixI)

theorem request_wire_exact_witness:
  "one_last [Provide ''ab'' False, Pull 5, Provide ''c'' True, Pull 100] \<and>
   RequestSerializer_done
     (snd (run_ser RequestSerializer_provide_body RequestSerializer_pull
        [Provide ''ab'' False, Pull 5, Provide ''c'' True, Pull 100]
        (RequestSerializer_start (RequestHead_init\<lparr>req_method := ''GET'', req_target := ''/''\<rparr>)
           serializer_init))) \<and>
   fst (run_ser RequestSerializer_provide_body RequestSerializer_pull
        [Provide ''ab'' False, Pull 5, Provide ''c'' True, Pull 100]
        (RequestSerializer_start (RequestHead_init\<lparr>req_method := ''GET'', req_target := ''/''\<rparr>)
           serializer_init)) = ''GET / HTTP/1.1'' @ crlf @ crlf @ ''abc''"
proof -
  let ?ops = "[Provide ''ab'' False, Pull 5, Provide ''c'' True, Pull 100]"
  let ?h = "RequestHead_init\<lparr>req_method := ''GET'', req_target := ''/''\<rparr>"
  have one: "one_last ?ops" by simp
  have dn: "RequestSerializer_done (snd (run_ser RequestSerializer_provide_body
      RequestSerializer_pull ?ops (RequestSerializer_start ?h serializer_init)))"
    by code_simp
  have wire: "request_head_bytes ?h @ body_wire (has_chunked_encoding (req_headers ?h)) ?ops =
      ''GET / HTTP/1.1'' @ crlf @ crlf @ ''abc''"
    by code_simp
  from request_wire_exact[OF one, of ?h serializer_init] one dn wire show ?thesis by simp
qed

text \<open>C22. A chunked request that the serializer has finished reads back: a reference parser
  recovers the head, and the chunked decoder recovers exactly the concatenation of the body
  pieces, with nothing left over.\<close>

theorem chunked_request_roundtrip:
  assumes "one_last ops" "wf_request_head h" "has_chunked_encoding (req_headers h)"
    and "RequestSerializer_done
       (snd (run_ser RequestSerializer_provide_body RequestSerializer_pull ops
          (RequestSerializer_start h s0)))"
  shows "\<exists>wire. parse_request_head
            (fst (run_ser RequestSerializer_provide_body RequestSerializer_pull ops
               (RequestSerializer_start h s0))) = Some (h, wire) \<and>
          dechunk wire = Some (provided ops, [])"
  using req_ser.output_complete[OF assms(1,4)] parse_request_head_bytes[OF assms(2)]
    dechunk_body_wire[OF assms(1), of "[]"] assms(3) by auto

definition sample_chunked_head :: RequestHead where
  "sample_chunked_head = \<lparr>req_method = ''PUT'', req_target = ''/x'', req_version = 11,
     req_headers = [\<lparr>hdr_name = ''transfer-encoding'', hdr_value = ''Chunked''\<rparr>]\<rparr>"

theorem chunked_request_roundtrip_witness:
  "\<exists>wire. parse_request_head
      (fst (run_ser RequestSerializer_provide_body RequestSerializer_pull
         [Provide ''ab'' False, Pull 7, Provide ''c'' True, Pull 100]
         (RequestSerializer_start sample_chunked_head serializer_init))) =
        Some (sample_chunked_head, wire) \<and>
    dechunk wire = Some (''abc'', [])"
proof -
  let ?ops = "[Provide ''ab'' False, Pull 7, Provide ''c'' True, Pull 100]"
  have h: "one_last ?ops" "wf_request_head sample_chunked_head"
    "has_chunked_encoding (req_headers sample_chunked_head)"
    "RequestSerializer_done
       (snd (run_ser RequestSerializer_provide_body RequestSerializer_pull ?ops
          (RequestSerializer_start sample_chunked_head serializer_init)))"
    by code_simp+
  from chunked_request_roundtrip[OF h] show ?thesis by simp
qed



text \<open>C24. The serializer makes progress: after \<open>start\<close> and a last body piece, at most
  \<open>(head + body) / capacity + 2\<close> pulls into a non-empty buffer reach \<open>done()\<close>.\<close>

theorem response_pull_terminates:
  assumes "0 < cap"
  shows "\<exists>m \<le> (length (response_head_bytes h) +
                 length (frame (has_chunked_encoding (resp_headers h)) c True)) div cap + 1.
     ResponseSerializer_done
       (snd (run_ser ResponseSerializer_provide_body ResponseSerializer_pull
          (Provide c True # replicate (Suc m) (Pull cap)) (ResponseSerializer_start h s0)))"
proof -
  let ?s = "ResponseSerializer_provide_body c True (ResponseSerializer_start h s0)"
  have len: "length (ser_unsent ?s) =
      length (response_head_bytes h) + length (frame (has_chunked_encoding (resp_headers h)) c True)"
    by (simp add: resp_ser.provide_unsent resp_ser.start_invar resp_ser.start_last
        resp_ser.start_unsent resp_ser.start_framing)
  have le: "n \<le> cap * (n div cap + 1)" for n
    using assms by (metis add.commute dividend_less_times_div less_imp_le mult_Suc_right plus_1_eq_Suc)
  have "ser_invar ?s" "is_last_provided ?s"
    by (simp_all add: resp_ser.provide_invar resp_ser.start_invar resp_ser.start_last
        resp_ser.provide_last)
  from resp_ser.pulls_finish[OF this le] show ?thesis by (simp add: len)
qed

theorem response_pull_terminates_witness:
  "\<exists>m \<le> (length (response_head_bytes ResponseHead_init) +
            length (frame (has_chunked_encoding (resp_headers ResponseHead_init)) ''x'' True))
          div 4 + 1.
     ResponseSerializer_done
       (snd (run_ser ResponseSerializer_provide_body ResponseSerializer_pull
          (Provide ''x'' True # replicate (Suc m) (Pull 4))
          (ResponseSerializer_start ResponseHead_init serializer_init)))"
  by (rule response_pull_terminates) simp

end
