(* ===== verification/Llhttp.thy ===== *)
theory Llhttp
  imports Http_Types "HOL-Library.Word"
begin

unbundle bit_operations_syntax

text \<open>
  The hand-written part of the vendored parser: the enumerations and name tables of
  \<open>third_party/llhttp/include/llhttp.h\<close>, the message-framing and keep-alive decisions of
  \<open>http.c\<close>, and the entry points of \<open>api.c\<close> the gateway calls. The generated automaton
  \<open>llhttp.c\<close> (\<open>llhttp__internal_execute\<close>) is a parameter, the record \<open>llhttp_engine\<close>: a run over
  some bytes is the sequence of callbacks it makes, each with the parser fields visible to the
  callback, the error code and the fields afterwards. Every callback of the gateway returns
  \<open>HPE_OK\<close>, so a run does not depend on what the callbacks do.
\<close>

section \<open>Enumerations\<close>

datatype llhttp_method =
    HTTP_DELETE | HTTP_GET | HTTP_HEAD | HTTP_POST | HTTP_PUT | HTTP_CONNECT | HTTP_OPTIONS
  | HTTP_TRACE | HTTP_COPY | HTTP_LOCK | HTTP_MKCOL | HTTP_MOVE | HTTP_PROPFIND
  | HTTP_PROPPATCH | HTTP_SEARCH | HTTP_UNLOCK | HTTP_BIND | HTTP_REBIND | HTTP_UNBIND
  | HTTP_ACL | HTTP_REPORT | HTTP_MKACTIVITY | HTTP_CHECKOUT | HTTP_MERGE | HTTP_MSEARCH
  | HTTP_NOTIFY | HTTP_SUBSCRIBE | HTTP_UNSUBSCRIBE | HTTP_PATCH | HTTP_PURGE
  | HTTP_MKCALENDAR | HTTP_LINK | HTTP_UNLINK | HTTP_SOURCE | HTTP_PRI | HTTP_DESCRIBE
  | HTTP_ANNOUNCE | HTTP_SETUP | HTTP_PLAY | HTTP_PAUSE | HTTP_TEARDOWN
  | HTTP_GET_PARAMETER | HTTP_SET_PARAMETER | HTTP_REDIRECT | HTTP_RECORD | HTTP_FLUSH
  | HTTP_QUERY

primrec llhttp_method_name :: "llhttp_method \<Rightarrow> string" where
  "llhttp_method_name HTTP_DELETE = ''DELETE''"
| "llhttp_method_name HTTP_GET = ''GET''"
| "llhttp_method_name HTTP_HEAD = ''HEAD''"
| "llhttp_method_name HTTP_POST = ''POST''"
| "llhttp_method_name HTTP_PUT = ''PUT''"
| "llhttp_method_name HTTP_CONNECT = ''CONNECT''"
| "llhttp_method_name HTTP_OPTIONS = ''OPTIONS''"
| "llhttp_method_name HTTP_TRACE = ''TRACE''"
| "llhttp_method_name HTTP_COPY = ''COPY''"
| "llhttp_method_name HTTP_LOCK = ''LOCK''"
| "llhttp_method_name HTTP_MKCOL = ''MKCOL''"
| "llhttp_method_name HTTP_MOVE = ''MOVE''"
| "llhttp_method_name HTTP_PROPFIND = ''PROPFIND''"
| "llhttp_method_name HTTP_PROPPATCH = ''PROPPATCH''"
| "llhttp_method_name HTTP_SEARCH = ''SEARCH''"
| "llhttp_method_name HTTP_UNLOCK = ''UNLOCK''"
| "llhttp_method_name HTTP_BIND = ''BIND''"
| "llhttp_method_name HTTP_REBIND = ''REBIND''"
| "llhttp_method_name HTTP_UNBIND = ''UNBIND''"
| "llhttp_method_name HTTP_ACL = ''ACL''"
| "llhttp_method_name HTTP_REPORT = ''REPORT''"
| "llhttp_method_name HTTP_MKACTIVITY = ''MKACTIVITY''"
| "llhttp_method_name HTTP_CHECKOUT = ''CHECKOUT''"
| "llhttp_method_name HTTP_MERGE = ''MERGE''"
| "llhttp_method_name HTTP_MSEARCH = ''M-SEARCH''"
| "llhttp_method_name HTTP_NOTIFY = ''NOTIFY''"
| "llhttp_method_name HTTP_SUBSCRIBE = ''SUBSCRIBE''"
| "llhttp_method_name HTTP_UNSUBSCRIBE = ''UNSUBSCRIBE''"
| "llhttp_method_name HTTP_PATCH = ''PATCH''"
| "llhttp_method_name HTTP_PURGE = ''PURGE''"
| "llhttp_method_name HTTP_MKCALENDAR = ''MKCALENDAR''"
| "llhttp_method_name HTTP_LINK = ''LINK''"
| "llhttp_method_name HTTP_UNLINK = ''UNLINK''"
| "llhttp_method_name HTTP_SOURCE = ''SOURCE''"
| "llhttp_method_name HTTP_PRI = ''PRI''"
| "llhttp_method_name HTTP_DESCRIBE = ''DESCRIBE''"
| "llhttp_method_name HTTP_ANNOUNCE = ''ANNOUNCE''"
| "llhttp_method_name HTTP_SETUP = ''SETUP''"
| "llhttp_method_name HTTP_PLAY = ''PLAY''"
| "llhttp_method_name HTTP_PAUSE = ''PAUSE''"
| "llhttp_method_name HTTP_TEARDOWN = ''TEARDOWN''"
| "llhttp_method_name HTTP_GET_PARAMETER = ''GET_PARAMETER''"
| "llhttp_method_name HTTP_SET_PARAMETER = ''SET_PARAMETER''"
| "llhttp_method_name HTTP_REDIRECT = ''REDIRECT''"
| "llhttp_method_name HTTP_RECORD = ''RECORD''"
| "llhttp_method_name HTTP_FLUSH = ''FLUSH''"
| "llhttp_method_name HTTP_QUERY = ''QUERY''"

datatype llhttp_errno =
    HPE_OK | HPE_INTERNAL | HPE_STRICT | HPE_LF_EXPECTED | HPE_UNEXPECTED_CONTENT_LENGTH
  | HPE_CLOSED_CONNECTION | HPE_INVALID_METHOD | HPE_INVALID_URL | HPE_INVALID_CONSTANT
  | HPE_INVALID_VERSION | HPE_INVALID_HEADER_TOKEN | HPE_INVALID_CONTENT_LENGTH
  | HPE_INVALID_CHUNK_SIZE | HPE_INVALID_STATUS | HPE_INVALID_EOF_STATE
  | HPE_INVALID_TRANSFER_ENCODING | HPE_CB_MESSAGE_BEGIN | HPE_CB_HEADERS_COMPLETE
  | HPE_CB_MESSAGE_COMPLETE | HPE_CB_CHUNK_HEADER | HPE_CB_CHUNK_COMPLETE | HPE_PAUSED
  | HPE_PAUSED_UPGRADE | HPE_PAUSED_H2_UPGRADE | HPE_USER | HPE_CR_EXPECTED
  | HPE_CB_URL_COMPLETE | HPE_CB_STATUS_COMPLETE | HPE_CB_HEADER_FIELD_COMPLETE
  | HPE_CB_HEADER_VALUE_COMPLETE | HPE_UNEXPECTED_SPACE | HPE_CB_RESET
  | HPE_CB_METHOD_COMPLETE | HPE_CB_VERSION_COMPLETE
  | HPE_CB_CHUNK_EXTENSION_NAME_COMPLETE | HPE_CB_CHUNK_EXTENSION_VALUE_COMPLETE
  | HPE_CB_PROTOCOL_COMPLETE

primrec llhttp_errno_code :: "llhttp_errno \<Rightarrow> int" where
  "llhttp_errno_code HPE_OK = 0"
| "llhttp_errno_code HPE_INTERNAL = 1"
| "llhttp_errno_code HPE_STRICT = 2"
| "llhttp_errno_code HPE_LF_EXPECTED = 3"
| "llhttp_errno_code HPE_UNEXPECTED_CONTENT_LENGTH = 4"
| "llhttp_errno_code HPE_CLOSED_CONNECTION = 5"
| "llhttp_errno_code HPE_INVALID_METHOD = 6"
| "llhttp_errno_code HPE_INVALID_URL = 7"
| "llhttp_errno_code HPE_INVALID_CONSTANT = 8"
| "llhttp_errno_code HPE_INVALID_VERSION = 9"
| "llhttp_errno_code HPE_INVALID_HEADER_TOKEN = 10"
| "llhttp_errno_code HPE_INVALID_CONTENT_LENGTH = 11"
| "llhttp_errno_code HPE_INVALID_CHUNK_SIZE = 12"
| "llhttp_errno_code HPE_INVALID_STATUS = 13"
| "llhttp_errno_code HPE_INVALID_EOF_STATE = 14"
| "llhttp_errno_code HPE_INVALID_TRANSFER_ENCODING = 15"
| "llhttp_errno_code HPE_CB_MESSAGE_BEGIN = 16"
| "llhttp_errno_code HPE_CB_HEADERS_COMPLETE = 17"
| "llhttp_errno_code HPE_CB_MESSAGE_COMPLETE = 18"
| "llhttp_errno_code HPE_CB_CHUNK_HEADER = 19"
| "llhttp_errno_code HPE_CB_CHUNK_COMPLETE = 20"
| "llhttp_errno_code HPE_PAUSED = 21"
| "llhttp_errno_code HPE_PAUSED_UPGRADE = 22"
| "llhttp_errno_code HPE_PAUSED_H2_UPGRADE = 23"
| "llhttp_errno_code HPE_USER = 24"
| "llhttp_errno_code HPE_CR_EXPECTED = 25"
| "llhttp_errno_code HPE_CB_URL_COMPLETE = 26"
| "llhttp_errno_code HPE_CB_STATUS_COMPLETE = 27"
| "llhttp_errno_code HPE_CB_HEADER_FIELD_COMPLETE = 28"
| "llhttp_errno_code HPE_CB_HEADER_VALUE_COMPLETE = 29"
| "llhttp_errno_code HPE_UNEXPECTED_SPACE = 30"
| "llhttp_errno_code HPE_CB_RESET = 31"
| "llhttp_errno_code HPE_CB_METHOD_COMPLETE = 32"
| "llhttp_errno_code HPE_CB_VERSION_COMPLETE = 33"
| "llhttp_errno_code HPE_CB_CHUNK_EXTENSION_NAME_COMPLETE = 34"
| "llhttp_errno_code HPE_CB_CHUNK_EXTENSION_VALUE_COMPLETE = 35"
| "llhttp_errno_code HPE_CB_PROTOCOL_COMPLETE = 38"

primrec llhttp_errno_name :: "llhttp_errno \<Rightarrow> string" where
  "llhttp_errno_name HPE_OK = ''HPE_OK''"
| "llhttp_errno_name HPE_INTERNAL = ''HPE_INTERNAL''"
| "llhttp_errno_name HPE_STRICT = ''HPE_STRICT''"
| "llhttp_errno_name HPE_LF_EXPECTED = ''HPE_LF_EXPECTED''"
| "llhttp_errno_name HPE_UNEXPECTED_CONTENT_LENGTH = ''HPE_UNEXPECTED_CONTENT_LENGTH''"
| "llhttp_errno_name HPE_CLOSED_CONNECTION = ''HPE_CLOSED_CONNECTION''"
| "llhttp_errno_name HPE_INVALID_METHOD = ''HPE_INVALID_METHOD''"
| "llhttp_errno_name HPE_INVALID_URL = ''HPE_INVALID_URL''"
| "llhttp_errno_name HPE_INVALID_CONSTANT = ''HPE_INVALID_CONSTANT''"
| "llhttp_errno_name HPE_INVALID_VERSION = ''HPE_INVALID_VERSION''"
| "llhttp_errno_name HPE_INVALID_HEADER_TOKEN = ''HPE_INVALID_HEADER_TOKEN''"
| "llhttp_errno_name HPE_INVALID_CONTENT_LENGTH = ''HPE_INVALID_CONTENT_LENGTH''"
| "llhttp_errno_name HPE_INVALID_CHUNK_SIZE = ''HPE_INVALID_CHUNK_SIZE''"
| "llhttp_errno_name HPE_INVALID_STATUS = ''HPE_INVALID_STATUS''"
| "llhttp_errno_name HPE_INVALID_EOF_STATE = ''HPE_INVALID_EOF_STATE''"
| "llhttp_errno_name HPE_INVALID_TRANSFER_ENCODING = ''HPE_INVALID_TRANSFER_ENCODING''"
| "llhttp_errno_name HPE_CB_MESSAGE_BEGIN = ''HPE_CB_MESSAGE_BEGIN''"
| "llhttp_errno_name HPE_CB_HEADERS_COMPLETE = ''HPE_CB_HEADERS_COMPLETE''"
| "llhttp_errno_name HPE_CB_MESSAGE_COMPLETE = ''HPE_CB_MESSAGE_COMPLETE''"
| "llhttp_errno_name HPE_CB_CHUNK_HEADER = ''HPE_CB_CHUNK_HEADER''"
| "llhttp_errno_name HPE_CB_CHUNK_COMPLETE = ''HPE_CB_CHUNK_COMPLETE''"
| "llhttp_errno_name HPE_PAUSED = ''HPE_PAUSED''"
| "llhttp_errno_name HPE_PAUSED_UPGRADE = ''HPE_PAUSED_UPGRADE''"
| "llhttp_errno_name HPE_PAUSED_H2_UPGRADE = ''HPE_PAUSED_H2_UPGRADE''"
| "llhttp_errno_name HPE_USER = ''HPE_USER''"
| "llhttp_errno_name HPE_CR_EXPECTED = ''HPE_CR_EXPECTED''"
| "llhttp_errno_name HPE_CB_URL_COMPLETE = ''HPE_CB_URL_COMPLETE''"
| "llhttp_errno_name HPE_CB_STATUS_COMPLETE = ''HPE_CB_STATUS_COMPLETE''"
| "llhttp_errno_name HPE_CB_HEADER_FIELD_COMPLETE = ''HPE_CB_HEADER_FIELD_COMPLETE''"
| "llhttp_errno_name HPE_CB_HEADER_VALUE_COMPLETE = ''HPE_CB_HEADER_VALUE_COMPLETE''"
| "llhttp_errno_name HPE_UNEXPECTED_SPACE = ''HPE_UNEXPECTED_SPACE''"
| "llhttp_errno_name HPE_CB_RESET = ''HPE_CB_RESET''"
| "llhttp_errno_name HPE_CB_METHOD_COMPLETE = ''HPE_CB_METHOD_COMPLETE''"
| "llhttp_errno_name HPE_CB_VERSION_COMPLETE = ''HPE_CB_VERSION_COMPLETE''"
| "llhttp_errno_name HPE_CB_CHUNK_EXTENSION_NAME_COMPLETE = ''HPE_CB_CHUNK_EXTENSION_NAME_COMPLETE''"
| "llhttp_errno_name HPE_CB_CHUNK_EXTENSION_VALUE_COMPLETE = ''HPE_CB_CHUNK_EXTENSION_VALUE_COMPLETE''"
| "llhttp_errno_name HPE_CB_PROTOCOL_COMPLETE = ''HPE_CB_PROTOCOL_COMPLETE''"

datatype llhttp_type = HTTP_BOTH | HTTP_REQUEST | HTTP_RESPONSE

datatype llhttp_finish_state = HTTP_FINISH_SAFE | HTTP_FINISH_SAFE_WITH_CB | HTTP_FINISH_UNSAFE

type_synonym llhttp_flags = "16 word"

definition F_CONNECTION_KEEP_ALIVE :: llhttp_flags where "F_CONNECTION_KEEP_ALIVE = 0x1"
definition F_CONNECTION_CLOSE :: llhttp_flags where "F_CONNECTION_CLOSE = 0x2"
definition F_CONNECTION_UPGRADE :: llhttp_flags where "F_CONNECTION_UPGRADE = 0x4"
definition F_CHUNKED :: llhttp_flags where "F_CHUNKED = 0x8"
definition F_UPGRADE :: llhttp_flags where "F_UPGRADE = 0x10"
definition F_CONTENT_LENGTH :: llhttp_flags where "F_CONTENT_LENGTH = 0x20"
definition F_SKIPBODY :: llhttp_flags where "F_SKIPBODY = 0x40"
definition F_TRANSFER_ENCODING :: llhttp_flags where "F_TRANSFER_ENCODING = 0x200"
definition LENIENT_CHUNKED_LENGTH :: llhttp_flags where "LENIENT_CHUNKED_LENGTH = 0x2"
definition LENIENT_TRANSFER_ENCODING :: llhttp_flags where "LENIENT_TRANSFER_ENCODING = 0x8"

lemmas flag_defs =
  F_CONNECTION_KEEP_ALIVE_def F_CONNECTION_CLOSE_def F_CONNECTION_UPGRADE_def F_CHUNKED_def
  F_UPGRADE_def F_CONTENT_LENGTH_def F_SKIPBODY_def F_TRANSFER_ENCODING_def
  LENIENT_CHUNKED_LENGTH_def LENIENT_TRANSFER_ENCODING_def

section \<open>Parser fields\<close>

text \<open>\<open>llhttp__internal_s\<close> without the bookkeeping of the automaton, which is \<open>internal\<close>. The
  error position, a pointer into the bytes of the last run, is an offset.\<close>

record 'e llhttp_t =
  lh_error :: llhttp_errno
  lh_error_pos :: "nat option"
  content_length :: "64 word"
  lh_type :: llhttp_type
  lh_method :: llhttp_method
  http_major :: "8 word"
  http_minor :: "8 word"
  lenient_flags :: llhttp_flags
  upgrade :: bool
  lh_finish :: llhttp_finish_state
  lh_flags :: llhttp_flags
  status_code :: "16 word"
  internal :: 'e

definition flag :: "'e llhttp_t \<Rightarrow> llhttp_flags \<Rightarrow> bool" where
  "flag p f \<longleftrightarrow> lh_flags p AND f \<noteq> 0"

definition lenient :: "'e llhttp_t \<Rightarrow> llhttp_flags \<Rightarrow> bool" where
  "lenient p f \<longleftrightarrow> lenient_flags p AND f \<noteq> 0"

section \<open>Framing and keep-alive\<close>

definition llhttp_message_needs_eof :: "'e llhttp_t \<Rightarrow> bool" where
  "llhttp_message_needs_eof p =
     (if lh_type p = HTTP_REQUEST then False
      else if status_code p div 100 = 1 \<or> status_code p = 204 \<or> status_code p = 304 \<or>
              flag p F_SKIPBODY then False
      else if flag p F_TRANSFER_ENCODING \<and> \<not> flag p F_CHUNKED then True
      else if lh_flags p AND (F_CHUNKED OR F_CONTENT_LENGTH) \<noteq> 0 then False
      else True)"

definition llhttp_should_keep_alive :: "'e llhttp_t \<Rightarrow> bool" where
  "llhttp_should_keep_alive p =
     (if http_major p > 0 \<and> http_minor p > 0 then
        if flag p F_CONNECTION_CLOSE then False else \<not> llhttp_message_needs_eof p
      else if \<not> flag p F_CONNECTION_KEEP_ALIVE then False
      else \<not> llhttp_message_needs_eof p)"

definition llhttp_before_headers_complete :: "'e llhttp_t \<Rightarrow> 'e llhttp_t" where
  "llhttp_before_headers_complete p =
     (if flag p F_UPGRADE \<and> flag p F_CONNECTION_UPGRADE
      then p\<lparr>upgrade := (lh_type p = HTTP_REQUEST \<or> status_code p = 101)\<rparr>
      else p\<lparr>upgrade := (lh_method p = HTTP_CONNECT)\<rparr>)"

text \<open>The result codes are those of the source: 0 no body, 1 another protocol follows, 2 chunked,
  3 identity body of known length, 4 identity body until end of file, 5 invalid.\<close>

definition llhttp_after_headers_complete :: "'e llhttp_t \<Rightarrow> nat" where
  "llhttp_after_headers_complete p =
     (let hasBody = (flag p F_CHUNKED \<or> content_length p > 0) in
      if (upgrade p \<and> (lh_method p = HTTP_CONNECT \<or> flag p F_SKIPBODY \<or> \<not> hasBody)) \<or>
         (lh_type p = HTTP_RESPONSE \<and> status_code p = 101) then 1
      else if lh_type p = HTTP_RESPONSE \<and> status_code p = 100 then 0
      else if flag p F_SKIPBODY \<or>
              (lh_type p = HTTP_RESPONSE \<and>
                 (status_code p = 102 \<or> status_code p = 103 \<or> status_code p = 204 \<or>
                  status_code p = 304)) then 0
      else if flag p F_CHUNKED then 2
      else if flag p F_TRANSFER_ENCODING then
        if lh_type p = HTTP_REQUEST \<and> \<not> lenient p LENIENT_CHUNKED_LENGTH \<and>
           \<not> lenient p LENIENT_TRANSFER_ENCODING then 5
        else 4
      else if \<not> flag p F_CONTENT_LENGTH then
        if \<not> llhttp_message_needs_eof p then 0 else 4
      else if content_length p = 0 then 0
      else 3)"

definition llhttp_after_message_complete :: "'e llhttp_t \<Rightarrow> bool \<times> 'e llhttp_t" where
  "llhttp_after_message_complete p =
     (llhttp_should_keep_alive p, p\<lparr>lh_finish := HTTP_FINISH_SAFE, lh_flags := 0\<rparr>)"

section \<open>Entry points\<close>

datatype llhttp_event =
    ev_message_begin | ev_url byte_list | ev_status byte_list | ev_header_field byte_list
  | ev_header_field_complete | ev_header_value byte_list | ev_header_value_complete
  | ev_headers_complete | ev_body byte_list | ev_message_complete

record 'e llhttp_engine =
  internal_init :: 'e
  internal_execute ::
    "'e llhttp_t \<Rightarrow> byte_list \<Rightarrow> (llhttp_event \<times> 'e llhttp_t) list \<times> llhttp_errno \<times> 'e llhttp_t"

definition llhttp_init :: "'e llhttp_engine \<Rightarrow> llhttp_type \<Rightarrow> 'e llhttp_t" where
  "llhttp_init eng ty =
     \<lparr>lh_error = HPE_OK, lh_error_pos = None, content_length = 0, lh_type = ty,
      lh_method = HTTP_DELETE, http_major = 0, http_minor = 0, lenient_flags = 0,
      upgrade = False, lh_finish = HTTP_FINISH_SAFE, lh_flags = 0, status_code = 0,
      internal = internal_init eng\<rparr>"

definition llhttp_execute ::
  "'e llhttp_engine \<Rightarrow> 'e llhttp_t \<Rightarrow> byte_list
     \<Rightarrow> (llhttp_event \<times> 'e llhttp_t) list \<times> llhttp_errno \<times> 'e llhttp_t" where
  "llhttp_execute eng p data = internal_execute eng p data"

definition llhttp_resume :: "'e llhttp_t \<Rightarrow> 'e llhttp_t" where
  "llhttp_resume p = (if lh_error p \<noteq> HPE_PAUSED then p else p\<lparr>lh_error := HPE_OK\<rparr>)"

definition llhttp_get_error_pos :: "'e llhttp_t \<Rightarrow> nat option" where
  "llhttp_get_error_pos p = lh_error_pos p"

text \<open>What the gateway relies on: an error position lies within the bytes just given.\<close>

definition engine_ok :: "'e llhttp_engine \<Rightarrow> bool" where
  "engine_ok eng \<longleftrightarrow>
     (\<forall>p data evs err p' k. internal_execute eng p data = (evs, err, p') \<and> lh_error_pos p' = Some k \<longrightarrow>
        k \<le> length data)"

section \<open>Properties\<close>

lemma flag_or: "lh_flags p AND (f OR g) \<noteq> 0 \<longleftrightarrow> flag p f \<or> flag p g"
  by (auto simp: flag_def bit_eq_iff bit_and_iff bit_or_iff)

lemma flag_reset [simp]: "\<not> flag (p\<lparr>lh_flags := 0\<rparr>) f"
  by (simp add: flag_def)

text \<open>The two places that decide how a response body ends agree: outside the 1xx range and
  protocol upgrades, llhttp reads a response body until end of file exactly if the message needs
  the end of the connection, and such a response never counts as keep-alive.\<close>

lemma response_framing_consistent:
  assumes "lh_type p = HTTP_RESPONSE" "status_code p div 100 \<noteq> 1" "\<not> upgrade p"
  shows "(llhttp_after_headers_complete p = 4 \<longleftrightarrow> llhttp_message_needs_eof p) \<and>
     (llhttp_after_headers_complete p = 4 \<longrightarrow> \<not> llhttp_should_keep_alive p)"
proof -
  have s: "status_code p \<noteq> 100" "status_code p \<noteq> 101" "status_code p \<noteq> 102" "status_code p \<noteq> 103"
    using assms(2) by auto
  have "llhttp_after_headers_complete p = 4 \<longleftrightarrow> llhttp_message_needs_eof p"
    using assms s by (auto simp: llhttp_after_headers_complete_def llhttp_message_needs_eof_def
        flag_or Let_def)
  then show ?thesis by (auto simp: llhttp_should_keep_alive_def)
qed

lemma response_framing_consistent_example:
  "llhttp_message_needs_eof ((llhttp_init \<lparr>internal_init = (), internal_execute = (\<lambda>p d. ([], HPE_OK, p))\<rparr>
      HTTP_RESPONSE)\<lparr>status_code := 200, http_major := 1, http_minor := 1\<rparr>)"
proof -
  let ?p = "(llhttp_init \<lparr>internal_init = (), internal_execute = (\<lambda>p d. ([], HPE_OK, p))\<rparr>
      HTTP_RESPONSE)\<lparr>status_code := 200, http_major := 1, http_minor := 1\<rparr>"
  have h: "lh_type ?p = HTTP_RESPONSE" "status_code ?p div 100 \<noteq> 1" "\<not> upgrade ?p"
    by (simp_all add: llhttp_init_def)
  have "llhttp_after_headers_complete ?p = 4" by code_simp
  with response_framing_consistent[OF h] show ?thesis by blast
qed

text \<open>What \<open>llhttp_should_keep_alive\<close> answers once a message is complete and its flags are
  cleared: it no longer depends on the Connection header. It is false for HTTP/1.0 and for
  responses that can carry a body, but true for every HTTP/1.1 request, also for one that asked
  to close.\<close>

lemma keep_alive_after_reset:
  "llhttp_should_keep_alive (snd (llhttp_after_message_complete p)) \<longleftrightarrow>
     http_major p > 0 \<and> http_minor p > 0 \<and>
     (lh_type p = HTTP_REQUEST \<or> status_code p div 100 = 1 \<or> status_code p = 204 \<or>
      status_code p = 304)"
  by (auto simp: llhttp_after_message_complete_def llhttp_should_keep_alive_def
      llhttp_message_needs_eof_def flag_def)

end
