(* ===== verification/Net_Core.thy ===== *)
theory Net_Core
  imports Prelude "HOL-Library.Word"
begin

text \<open>
  The library-independent networking vocabulary of \<open>src/net/\<close>: \<open>Error\<close> and \<open>Endpoint\<close>
  (\<open>types.hpp\<close>), and \<open>race_with_timeout\<close> (\<open>race_with_timeout.cpp\<close>), which runs a cancellable
  operation against a timer. The race is a state machine: the two callbacks may run in either
  order, the timer one with success or with an error, and the invariant shows that the
  completion handler runs at most once, and exactly once when the operation reports back.
  The locale \<open>round_robin\<close> is the selection discipline the upstream manager and the listener
  share.
\<close>

section \<open>Errors and endpoints\<close>

record Error =
  err_code :: int
  err_message :: string

definition Error_ok :: "Error \<Rightarrow> bool" where
  "Error_ok e \<longleftrightarrow> err_code e = 0"

definition Error_none :: Error where
  "Error_none = \<lparr>err_code = 0, err_message = []\<rparr>"

record Endpoint =
  host :: string
  port :: "16 word"

definition Endpoint_init :: Endpoint where
  "Endpoint_init = \<lparr>host = [], port = 0\<rparr>"

section \<open>race_with_timeout\<close>

text \<open>What the function and its two callbacks do to the timer, the operation and the caller,
  in order.\<close>

datatype race_effect =
  ExpiresAfter nat | AsyncWait | StartOp | CancelOp | CancelTimer | OnDone Error

record race =
  race_done :: bool
  timer_waiting :: bool
  op_running :: bool
  race_effects :: "race_effect list"

definition timeout_error :: Error where
  "timeout_error = \<lparr>err_code = 1, err_message = ''operation timed out''\<rparr>"

definition race_with_timeout :: "nat \<Rightarrow> race" where
  "race_with_timeout timeout =
     \<lparr>race_done = False, timer_waiting = True, op_running = True,
      race_effects = [ExpiresAfter timeout, AsyncWait, StartOp]\<rparr>"

text \<open>The callback given to \<open>async_wait\<close>.\<close>

definition race_on_timer :: "Error \<Rightarrow> race \<Rightarrow> race" where
  "race_on_timer err r =
     (let r = r\<lparr>timer_waiting := False\<rparr> in
      if race_done r \<or> \<not> Error_ok err then r
      else r\<lparr>race_done := True,
             race_effects := race_effects r @ [CancelOp, OnDone timeout_error]\<rparr>)"

text \<open>The callback given to \<open>start_op\<close>.\<close>

definition race_on_op :: "Error \<Rightarrow> race \<Rightarrow> race" where
  "race_on_op err r =
     (let r = r\<lparr>op_running := False\<rparr> in
      if race_done r then r
      else r\<lparr>race_done := True, race_effects := race_effects r @ [CancelTimer, OnDone err]\<rparr>)"

text \<open>Each callback is delivered at most once, in any order.\<close>

inductive race_step :: "race \<Rightarrow> race \<Rightarrow> bool" where
  timer: "timer_waiting r \<Longrightarrow> race_step r (race_on_timer e r)"
| operation: "op_running r \<Longrightarrow> race_step r (race_on_op e r)"

inductive race_reachable :: "nat \<Rightarrow> race \<Rightarrow> bool" for timeout where
  start: "race_reachable timeout (race_with_timeout timeout)"
| step: "race_reachable timeout r \<Longrightarrow> race_step r r' \<Longrightarrow> race_reachable timeout r'"

inductive_cases race_stepE: "race_step r r'"

definition on_done_calls :: "race \<Rightarrow> Error list" where
  "on_done_calls r = List.map_filter (\<lambda>x. case x of OnDone e \<Rightarrow> Some e | _ \<Rightarrow> None) (race_effects r)"

text \<open>Nothing happens after the start until one side wins; then exactly the winner's two
  effects happen: the loser is cancelled and the caller is told.\<close>

definition race_invar :: "nat \<Rightarrow> race \<Rightarrow> bool" where
  "race_invar t r \<longleftrightarrow>
     (\<not> op_running r \<longrightarrow> race_done r) \<and>
     (if race_done r then
        \<exists>e. race_effects r = [ExpiresAfter t, AsyncWait, StartOp, CancelTimer, OnDone e] \<or>
            race_effects r = [ExpiresAfter t, AsyncWait, StartOp, CancelOp, OnDone timeout_error]
      else race_effects r = [ExpiresAfter t, AsyncWait, StartOp])"

section \<open>Round-robin selection\<close>

text \<open>\<open>n\<close> selections in a row.\<close>

fun select_n :: "('s \<Rightarrow> (nat \<times> 's) option) \<Rightarrow> nat \<Rightarrow> 's \<Rightarrow> (nat list \<times> 's) option" where
  "select_n sel 0 s = Some ([], s)"
| "select_n sel (Suc n) s =
     (case sel s of
        None \<Rightarrow> None
      | Some (i, s1) \<Rightarrow> map_option (\<lambda>(is, s2). (i # is, s2)) (select_n sel n s1))"

locale round_robin =
  fixes select :: "'s \<Rightarrow> (nat \<times> 's) option"
    and cursor :: "'s \<Rightarrow> nat"
    and targets :: "'s \<Rightarrow> nat"
  assumes select_step:
    "cursor s < targets s \<Longrightarrow>
       \<exists>s'. select s = Some (cursor s, s') \<and> cursor s' = (cursor s + 1) mod targets s \<and>
            targets s' = targets s"
begin

lemma select_n_sequence:
  assumes "cursor s < targets s"
  shows "\<exists>s'. select_n select n s = Some (map (\<lambda>k. (cursor s + k) mod targets s) [0..<n], s') \<and>
           cursor s' = (cursor s + n) mod targets s \<and> targets s' = targets s"
  using assms
proof (induction n arbitrary: s)
  case 0
  then show ?case by simp
next
  case (Suc n)
  obtain s1 where s1: "select s = Some (cursor s, s1)"
    "cursor s1 = (cursor s + 1) mod targets s" "targets s1 = targets s"
    using select_step[OF Suc.prems] by blast
  have "cursor s1 < targets s1" using Suc.prems s1 by simp
  from Suc.IH[OF this] obtain s2 where s2:
    "select_n select n s1 = Some (map (\<lambda>k. (cursor s1 + k) mod targets s1) [0..<n], s2)"
    "cursor s2 = (cursor s1 + n) mod targets s1" "targets s2 = targets s1" by blast
  have shift: "(cursor s1 + k) mod targets s1 = (cursor s + Suc k) mod targets s" for k
    by (simp add: s1 mod_add_left_eq)
  have "map (\<lambda>k. (cursor s1 + k) mod targets s1) [0..<n] =
        map (\<lambda>k. (cursor s + k) mod targets s) [1..<Suc n]"
    unfolding shift by (simp add: map_Suc_upt[symmetric] del: upt_Suc)
  moreover have "[0..<Suc n] = 0 # [1..<Suc n]" by (simp add: upt_conv_Cons)
  ultimately show ?case
    using s1 s2 Suc.prems shift[of n] by (simp del: upt_Suc)
qed

lemma select_n_in_range:
  assumes "cursor s < targets s" "select_n select n s = Some (is, s')" "i \<in> set is"
  shows "i < targets s"
  using select_n_sequence[OF assms(1), of n] assms by auto

text \<open>One full turn selects every target exactly once.\<close>

lemma select_turn:
  assumes "cursor s < targets s"
  shows "\<exists>is s'. select_n select (targets s) s = Some (is, s') \<and> cursor s' = cursor s \<and>
           distinct is \<and> set is = {..<targets s}"
proof -
  let ?f = "\<lambda>k. (cursor s + k) mod targets s"
  have inj: "inj_on ?f {0..<targets s}"
  proof (rule inj_onI)
    fix x y assume "x \<in> {0..<targets s}" "y \<in> {0..<targets s}" "?f x = ?f y"
    then have "x mod targets s = y mod targets s"
      using mod_add_cong[of "targets s - cursor s" "targets s" "targets s - cursor s"
          "cursor s + x" "cursor s + y"] assms by simp
    with \<open>x \<in> _\<close> \<open>y \<in> _\<close> show "x = y" by simp
  qed
  have "?f ` {0..<targets s} = {..<targets s}"
  proof (rule card_subset_eq)
    show "?f ` {0..<targets s} \<subseteq> {..<targets s}" using assms by auto
    show "card (?f ` {0..<targets s}) = card {..<targets s}" using card_image[OF inj] by simp
  qed simp
  with select_n_sequence[OF assms, of "targets s"] inj assms show ?thesis
    by (auto simp: distinct_map)
qed

end

section \<open>Lemmas\<close>

lemma Error_ok_none [simp]: "Error_ok Error_none"
  by (simp add: Error_ok_def Error_none_def)

lemma timeout_error_not_ok [simp]: "\<not> Error_ok timeout_error"
  by (simp add: Error_ok_def timeout_error_def)

lemma race_invar_start: "race_invar t (race_with_timeout t)"
  by (simp add: race_invar_def race_with_timeout_def)

lemma race_invar_on_timer: "race_invar t r \<Longrightarrow> race_invar t (race_on_timer e r)"
  by (auto simp: race_invar_def race_on_timer_def Let_def)

lemma race_invar_on_op: "race_invar t r \<Longrightarrow> race_invar t (race_on_op e r)"
  by (auto simp: race_invar_def race_on_op_def Let_def)

lemma race_invar_reachable: "race_reachable t r \<Longrightarrow> race_invar t r"
  by (induction rule: race_reachable.induct)
    (auto elim!: race_stepE intro: race_invar_start race_invar_on_timer race_invar_on_op)

section \<open>Properties\<close>

text \<open>In every interleaving of the two callbacks the completion handler runs at most once; it
  has run exactly once as soon as the operation has reported back; and when it was told of a
  timeout the operation had been cancelled before.\<close>

lemma race_on_done_exactly_once:
  assumes "race_reachable t r"
  shows "length (on_done_calls r) \<le> 1 \<and>
     (\<not> op_running r \<longrightarrow> length (on_done_calls r) = 1) \<and>
     (CancelOp \<in> set (race_effects r) \<longrightarrow>
        race_effects r = [ExpiresAfter t, AsyncWait, StartOp, CancelOp, OnDone timeout_error])"
  using race_invar_reachable[OF assms]
  by (auto simp: race_invar_def on_done_calls_def map_filter_simps split: if_splits)

lemma race_on_done_exactly_once_example:
  "race_reachable 5 (race_on_op Error_none (race_on_timer Error_none (race_with_timeout 5))) \<and>
   length (on_done_calls (race_on_op Error_none (race_on_timer Error_none (race_with_timeout 5)))) = 1"
proof -
  have r1: "race_reachable 5 (race_on_timer Error_none (race_with_timeout 5))"
    by (rule race_reachable.step[OF race_reachable.start race_step.timer])
      (simp add: race_with_timeout_def)
  have r2: "race_reachable 5 (race_on_op Error_none (race_on_timer Error_none (race_with_timeout 5)))"
    by (rule race_reachable.step[OF r1 race_step.operation])
      (simp add: race_with_timeout_def race_on_timer_def Let_def)
  have "\<not> op_running (race_on_op Error_none (race_on_timer Error_none (race_with_timeout 5)))"
    by (simp add: race_on_op_def Let_def)
  with race_on_done_exactly_once[OF r2] r2 show ?thesis by simp
qed

end
