(* ===== verification/Llhttp_Parser.thy ===== *)
theory Llhttp_Parser
  imports Llhttp Net_Core
begin

text \<open>
  The parser wrappers \<open>LlhttpRequestParser\<close> and \<open>LlhttpResponseParser\<close>
  (\<open>src/net/http/llhttp/\<close>): their llhttp callbacks, \<open>feed\<close>, \<open>read_body\<close> and the keep-alive cache,
  over the engine of \<open>Llhttp\<close>. The locale \<open>body_source\<close> is the part of the parser interface the
  session's relay loops rely on.
\<close>

section \<open>LlhttpRequestParser\<close>

record 'e RequestParser =
  rq_parser :: "'e llhttp_t"
  rq_header_done :: bool
  rq_message_done :: bool
  rq_head :: RequestHead
  rq_pending_field :: string
  rq_pending_value :: string
  rq_scratch :: byte_list
  rq_has_error :: bool
  rq_error :: Error
  rq_keep_alive_cache :: bool

definition RequestParser_new :: "'e llhttp_engine \<Rightarrow> 'e RequestParser" where
  "RequestParser_new eng =
     \<lparr>rq_parser = llhttp_init eng HTTP_REQUEST, rq_header_done = False, rq_message_done = False,
      rq_head = RequestHead_init, rq_pending_field = [], rq_pending_value = [], rq_scratch = [],
      rq_has_error = False, rq_error = Error_none, rq_keep_alive_cache = False\<rparr>"

definition create_request_parser :: "'e llhttp_engine \<Rightarrow> 'e RequestParser" where
  [simp]: "create_request_parser eng = RequestParser_new eng"

definition rq_on_message_begin :: "'e RequestParser \<Rightarrow> 'e RequestParser" where
  "rq_on_message_begin s = s\<lparr>rq_head := RequestHead_init, rq_pending_field := [],
     rq_pending_value := [], rq_header_done := False, rq_message_done := False\<rparr>"

definition rq_on_url :: "byte_list \<Rightarrow> 'e RequestParser \<Rightarrow> 'e RequestParser" where
  "rq_on_url at s = s\<lparr>rq_head := (rq_head s)\<lparr>req_target := req_target (rq_head s) @ at\<rparr>\<rparr>"

definition rq_on_header_field :: "byte_list \<Rightarrow> 'e RequestParser \<Rightarrow> 'e RequestParser" where
  "rq_on_header_field at s = s\<lparr>rq_pending_field := rq_pending_field s @ at\<rparr>"

definition rq_on_header_field_complete :: "'e RequestParser \<Rightarrow> 'e RequestParser" where
  [simp]: "rq_on_header_field_complete s = s"

definition rq_on_header_value :: "byte_list \<Rightarrow> 'e RequestParser \<Rightarrow> 'e RequestParser" where
  "rq_on_header_value at s = s\<lparr>rq_pending_value := rq_pending_value s @ at\<rparr>"

definition rq_on_header_value_complete :: "'e RequestParser \<Rightarrow> 'e RequestParser" where
  "rq_on_header_value_complete s =
     s\<lparr>rq_head := (rq_head s)\<lparr>req_headers := req_headers (rq_head s) @
          [\<lparr>hdr_name = rq_pending_field s, hdr_value = rq_pending_value s\<rparr>]\<rparr>,
       rq_pending_field := [], rq_pending_value := []\<rparr>"

definition message_version :: "'e llhttp_t \<Rightarrow> nat" where
  "message_version p = (if http_major p = 1 \<and> http_minor p = 0 then 10 else 11)"

definition rq_on_headers_complete :: "'e llhttp_t \<Rightarrow> 'e RequestParser \<Rightarrow> 'e RequestParser" where
  "rq_on_headers_complete p s =
     s\<lparr>rq_head := (rq_head s)\<lparr>req_method := llhttp_method_name (lh_method p),
          req_version := message_version p\<rparr>,
       rq_header_done := True\<rparr>"

definition rq_on_body :: "byte_list \<Rightarrow> 'e RequestParser \<Rightarrow> 'e RequestParser" where
  "rq_on_body at s = s\<lparr>rq_scratch := rq_scratch s @ at\<rparr>"

definition rq_on_message_complete :: "'e llhttp_t \<Rightarrow> 'e RequestParser \<Rightarrow> 'e RequestParser" where
  "rq_on_message_complete p s =
     s\<lparr>rq_keep_alive_cache := llhttp_should_keep_alive p, rq_message_done := True\<rparr>"

text \<open>The settings table of the constructor: which callback an event reaches. The request parser
  registers none for the status span.\<close>

fun rq_callback :: "llhttp_event \<times> 'e llhttp_t \<Rightarrow> 'e RequestParser \<Rightarrow> 'e RequestParser" where
  "rq_callback (ev_message_begin, p) s = rq_on_message_begin s"
| "rq_callback (ev_url at, p) s = rq_on_url at s"
| "rq_callback (ev_status at, p) s = s"
| "rq_callback (ev_header_field at, p) s = rq_on_header_field at s"
| "rq_callback (ev_header_field_complete, p) s = rq_on_header_field_complete s"
| "rq_callback (ev_header_value at, p) s = rq_on_header_value at s"
| "rq_callback (ev_header_value_complete, p) s = rq_on_header_value_complete s"
| "rq_callback (ev_headers_complete, p) s = rq_on_headers_complete p s"
| "rq_callback (ev_body at, p) s = rq_on_body at s"
| "rq_callback (ev_message_complete, p) s = rq_on_message_complete p s"

definition rq_feed :: "'e llhttp_engine \<Rightarrow> byte_list \<Rightarrow> 'e RequestParser \<Rightarrow> nat \<times> 'e RequestParser" where
  "rq_feed eng raw s =
     (if rq_has_error s \<or> rq_message_done s then (0, s)
      else
        let (evs, err, p') = llhttp_execute eng (rq_parser s) raw;
            s1 = (fold rq_callback evs s)\<lparr>rq_parser := p'\<rparr>
        in if err = HPE_OK then (length raw, s1)
           else
             let consumed = (case llhttp_get_error_pos p' of Some pos \<Rightarrow> pos | None \<Rightarrow> 0)
             in if err = HPE_PAUSED then (consumed, s1\<lparr>rq_parser := llhttp_resume p'\<rparr>)
                else (consumed, s1\<lparr>rq_has_error := True,
                        rq_error := \<lparr>err_code = llhttp_errno_code err,
                                     err_message = llhttp_errno_name err\<rparr>\<rparr>))"

text \<open>\<open>read_body\<close> into a buffer of \<open>cap\<close> bytes: the bytes copied out.\<close>

definition rq_read_body :: "nat \<Rightarrow> 'e RequestParser \<Rightarrow> byte_list \<times> 'e RequestParser" where
  "rq_read_body cap s =
     (let n = min cap (length (rq_scratch s)) in
      if n > 0 then (take n (rq_scratch s), s\<lparr>rq_scratch := drop n (rq_scratch s)\<rparr>) else ([], s))"

definition rq_should_keep_alive :: "'e RequestParser \<Rightarrow> bool" where
  "rq_should_keep_alive s =
     (if rq_message_done s then rq_keep_alive_cache s else llhttp_should_keep_alive (rq_parser s))"

section \<open>LlhttpResponseParser\<close>

record 'e ResponseParser =
  rs_parser :: "'e llhttp_t"
  rs_header_done :: bool
  rs_message_done :: bool
  rs_head :: ResponseHead
  rs_pending_field :: string
  rs_pending_value :: string
  rs_scratch :: byte_list
  rs_has_error :: bool
  rs_error :: Error
  rs_keep_alive_cache :: bool

definition ResponseParser_new :: "'e llhttp_engine \<Rightarrow> 'e ResponseParser" where
  "ResponseParser_new eng =
     \<lparr>rs_parser = llhttp_init eng HTTP_RESPONSE, rs_header_done = False, rs_message_done = False,
      rs_head = ResponseHead_init, rs_pending_field = [], rs_pending_value = [], rs_scratch = [],
      rs_has_error = False, rs_error = Error_none, rs_keep_alive_cache = False\<rparr>"

definition create_response_parser :: "'e llhttp_engine \<Rightarrow> 'e ResponseParser" where
  [simp]: "create_response_parser eng = ResponseParser_new eng"

definition rs_on_message_begin :: "'e ResponseParser \<Rightarrow> 'e ResponseParser" where
  "rs_on_message_begin s = s\<lparr>rs_head := ResponseHead_init, rs_pending_field := [],
     rs_pending_value := [], rs_header_done := False, rs_message_done := False\<rparr>"

definition rs_on_status :: "byte_list \<Rightarrow> 'e ResponseParser \<Rightarrow> 'e ResponseParser" where
  "rs_on_status at s = s\<lparr>rs_head := (rs_head s)\<lparr>resp_reason := resp_reason (rs_head s) @ at\<rparr>\<rparr>"

definition rs_on_header_field :: "byte_list \<Rightarrow> 'e ResponseParser \<Rightarrow> 'e ResponseParser" where
  "rs_on_header_field at s = s\<lparr>rs_pending_field := rs_pending_field s @ at\<rparr>"

definition rs_on_header_field_complete :: "'e ResponseParser \<Rightarrow> 'e ResponseParser" where
  [simp]: "rs_on_header_field_complete s = s"

definition rs_on_header_value :: "byte_list \<Rightarrow> 'e ResponseParser \<Rightarrow> 'e ResponseParser" where
  "rs_on_header_value at s = s\<lparr>rs_pending_value := rs_pending_value s @ at\<rparr>"

definition rs_on_header_value_complete :: "'e ResponseParser \<Rightarrow> 'e ResponseParser" where
  "rs_on_header_value_complete s =
     s\<lparr>rs_head := (rs_head s)\<lparr>resp_headers := resp_headers (rs_head s) @
          [\<lparr>hdr_name = rs_pending_field s, hdr_value = rs_pending_value s\<rparr>]\<rparr>,
       rs_pending_field := [], rs_pending_value := []\<rparr>"

definition rs_on_headers_complete :: "'e llhttp_t \<Rightarrow> 'e ResponseParser \<Rightarrow> 'e ResponseParser" where
  "rs_on_headers_complete p s =
     s\<lparr>rs_head := (rs_head s)\<lparr>resp_status := unat (status_code p),
          resp_version := message_version p\<rparr>,
       rs_header_done := True\<rparr>"

definition rs_on_body :: "byte_list \<Rightarrow> 'e ResponseParser \<Rightarrow> 'e ResponseParser" where
  "rs_on_body at s = s\<lparr>rs_scratch := rs_scratch s @ at\<rparr>"

definition rs_on_message_complete :: "'e llhttp_t \<Rightarrow> 'e ResponseParser \<Rightarrow> 'e ResponseParser" where
  "rs_on_message_complete p s =
     s\<lparr>rs_keep_alive_cache := llhttp_should_keep_alive p, rs_message_done := True\<rparr>"

fun rs_callback :: "llhttp_event \<times> 'e llhttp_t \<Rightarrow> 'e ResponseParser \<Rightarrow> 'e ResponseParser" where
  "rs_callback (ev_message_begin, p) s = rs_on_message_begin s"
| "rs_callback (ev_url at, p) s = s"
| "rs_callback (ev_status at, p) s = rs_on_status at s"
| "rs_callback (ev_header_field at, p) s = rs_on_header_field at s"
| "rs_callback (ev_header_field_complete, p) s = rs_on_header_field_complete s"
| "rs_callback (ev_header_value at, p) s = rs_on_header_value at s"
| "rs_callback (ev_header_value_complete, p) s = rs_on_header_value_complete s"
| "rs_callback (ev_headers_complete, p) s = rs_on_headers_complete p s"
| "rs_callback (ev_body at, p) s = rs_on_body at s"
| "rs_callback (ev_message_complete, p) s = rs_on_message_complete p s"

definition rs_feed :: "'e llhttp_engine \<Rightarrow> byte_list \<Rightarrow> 'e ResponseParser \<Rightarrow> nat \<times> 'e ResponseParser" where
  "rs_feed eng raw s =
     (if rs_has_error s \<or> rs_message_done s then (0, s)
      else
        let (evs, err, p') = llhttp_execute eng (rs_parser s) raw;
            s1 = (fold rs_callback evs s)\<lparr>rs_parser := p'\<rparr>
        in if err = HPE_OK then (length raw, s1)
           else
             let consumed = (case llhttp_get_error_pos p' of Some pos \<Rightarrow> pos | None \<Rightarrow> 0)
             in if err = HPE_PAUSED then (consumed, s1\<lparr>rs_parser := llhttp_resume p'\<rparr>)
                else (consumed, s1\<lparr>rs_has_error := True,
                        rs_error := \<lparr>err_code = llhttp_errno_code err,
                                     err_message = llhttp_errno_name err\<rparr>\<rparr>))"

definition rs_read_body :: "nat \<Rightarrow> 'e ResponseParser \<Rightarrow> byte_list \<times> 'e ResponseParser" where
  "rs_read_body cap s =
     (let n = min cap (length (rs_scratch s)) in
      if n > 0 then (take n (rs_scratch s), s\<lparr>rs_scratch := drop n (rs_scratch s)\<rparr>) else ([], s))"

definition rs_should_keep_alive :: "'e ResponseParser \<Rightarrow> bool" where
  "rs_should_keep_alive s =
     (if rs_message_done s then rs_keep_alive_cache s else llhttp_should_keep_alive (rs_parser s))"

section \<open>The body side of the interface\<close>

text \<open>Reading with \<open>read_body\<close> until it returns nothing, at most \<open>fuel\<close> times.\<close>

fun drain :: "('p \<Rightarrow> byte_list \<times> 'p) \<Rightarrow> nat \<Rightarrow> 'p \<Rightarrow> byte_list \<times> 'p" where
  "drain rd 0 p = ([], p)"
| "drain rd (Suc fuel) p =
     (case rd p of (out, p') \<Rightarrow>
        if out = [] then ([], p')
        else (case drain rd fuel p' of (rest, p'') \<Rightarrow> (out @ rest, p'')))"

locale body_source =
  fixes feed :: "'g \<Rightarrow> byte_list \<Rightarrow> 'p \<Rightarrow> nat \<times> 'p"
    and read_body :: "nat \<Rightarrow> 'p \<Rightarrow> byte_list \<times> 'p"
    and unread :: "'p \<Rightarrow> byte_list"
    and stopped :: "'p \<Rightarrow> bool"
    and sound :: "'g \<Rightarrow> bool"
  assumes feed_stopped: "stopped p \<Longrightarrow> feed g raw p = (0, p)"
    and feed_bounded: "sound g \<Longrightarrow> fst (feed g raw p) \<le> length raw"
    and read_splits: "read_body cap p = (out, p') \<Longrightarrow>
      unread p = out @ unread p' \<and> length out = min cap (length (unread p)) \<and> stopped p' = stopped p"
    and read_nothing: "unread p = [] \<Longrightarrow> read_body cap p = ([], p)"
begin

text \<open>Draining hands over everything that was parsed, in order, and leaves nothing.\<close>

lemma drain_all:
  assumes "0 < cap" "length (unread p) \<le> fuel"
  shows "\<exists>p'. drain (read_body cap) fuel p = (unread p, p') \<and> unread p' = [] \<and>
     stopped p' = stopped p"
  using assms(2)
proof (induction fuel arbitrary: p)
  case (Suc fuel)
  obtain out p1 where r: "read_body cap p = (out, p1)" by (cases "read_body cap p")
  note sp = read_splits[OF r]
  show ?case
  proof (cases "out = []")
    case True
    with sp assms(1) have "unread p = []" by (auto simp: min_def split: if_splits)
    with sp True r show ?thesis by auto
  next
    case False
    with sp Suc.prems have "length (unread p1) \<le> fuel"
      by (cases out) auto
    from Suc.IH[OF this] sp r False show ?thesis by auto
  qed
qed simp

end

lemma rq_read_body_splits:
  "rq_read_body cap s = (out, s') \<Longrightarrow>
     rq_scratch s = out @ rq_scratch s' \<and> length out = min cap (length (rq_scratch s)) \<and>
     s' = s\<lparr>rq_scratch := rq_scratch s'\<rparr>"
  by (auto simp: rq_read_body_def Let_def split: if_splits)

lemma rs_read_body_splits:
  "rs_read_body cap s = (out, s') \<Longrightarrow>
     rs_scratch s = out @ rs_scratch s' \<and> length out = min cap (length (rs_scratch s)) \<and>
     s' = s\<lparr>rs_scratch := rs_scratch s'\<rparr>"
  by (auto simp: rs_read_body_def Let_def split: if_splits)

interpretation rq_source: body_source rq_feed rq_read_body rq_scratch
  "\<lambda>s. rq_has_error s \<or> rq_message_done s" engine_ok
proof (unfold_locales, goal_cases)
  case (2 g raw p)
  then show ?case
    by (auto simp: rq_feed_def llhttp_execute_def llhttp_get_error_pos_def engine_ok_def Let_def
        split: prod.splits option.splits)
next
  case (3 cap p out p')
  from rq_read_body_splits[OF 3] show ?case
    by (metis RequestParser.select_convs RequestParser.surjective RequestParser.update_convs(7))
qed (auto simp: rq_feed_def rq_read_body_def)

interpretation rs_source: body_source rs_feed rs_read_body rs_scratch
  "\<lambda>s. rs_has_error s \<or> rs_message_done s" engine_ok
proof (unfold_locales, goal_cases)
  case (2 g raw p)
  then show ?case
    by (auto simp: rs_feed_def llhttp_execute_def llhttp_get_error_pos_def engine_ok_def Let_def
        split: prod.splits option.splits)
next
  case (3 cap p out p')
  from rs_read_body_splits[OF 3] show ?case
    by (metis ResponseParser.select_convs ResponseParser.surjective ResponseParser.update_convs(7))
qed (auto simp: rs_feed_def rs_read_body_def)

section \<open>What a sequence of callbacks assembles\<close>

definition header_events :: "string list \<times> string list \<Rightarrow> llhttp_event list" where
  "header_events h = map ev_header_field (fst h) @ [ev_header_field_complete] @
     map ev_header_value (snd h) @ [ev_header_value_complete]"

definition joined_header :: "string list \<times> string list \<Rightarrow> Header" where
  "joined_header h = \<lparr>hdr_name = concat (fst h), hdr_value = concat (snd h)\<rparr>"

fun body_of :: "llhttp_event \<Rightarrow> byte_list" where
  "body_of (ev_body at) = at"
| "body_of _ = []"

lemmas rq_callback_defs =
  rq_on_message_begin_def rq_on_url_def rq_on_header_field_def rq_on_header_value_def
  rq_on_header_value_complete_def rq_on_headers_complete_def rq_on_body_def
  rq_on_message_complete_def

lemmas rs_callback_defs =
  rs_on_message_begin_def rs_on_status_def rs_on_header_field_def rs_on_header_value_def
  rs_on_header_value_complete_def rs_on_headers_complete_def rs_on_body_def
  rs_on_message_complete_def

lemma rq_callback_scratch [simp]: "rq_scratch (rq_callback ep s) = rq_scratch s @ body_of (fst ep)"
  by (cases "(ep, s)" rule: rq_callback.cases) (auto simp: rq_callback_defs)

lemma rs_callback_scratch [simp]: "rs_scratch (rs_callback ep s) = rs_scratch s @ body_of (fst ep)"
  by (cases "(ep, s)" rule: rs_callback.cases) (auto simp: rs_callback_defs)

lemma rq_fold_scratch:
  "rq_scratch (fold rq_callback evs s) = rq_scratch s @ concat (map (body_of \<circ> fst) evs)"
  by (induction evs arbitrary: s) auto

lemma rs_fold_scratch:
  "rs_scratch (fold rs_callback evs s) = rs_scratch s @ concat (map (body_of \<circ> fst) evs)"
  by (induction evs arbitrary: s) auto

text \<open>Only \<open>on_headers_complete\<close> and \<open>on_message_complete\<close> look at the parser's fields.\<close>

lemma rq_fold_fields:
  assumes "ev_headers_complete \<notin> fst ` set evs" "ev_message_complete \<notin> fst ` set evs"
  shows "fold rq_callback evs s = fold (\<lambda>e. rq_callback (e, p)) (map fst evs) s"
  using assms
proof (induction evs arbitrary: s)
  case (Cons ep evs)
  have "rq_callback ep s = rq_callback (fst ep, p) s"
    using Cons.prems by (cases "(ep, s)" rule: rq_callback.cases) auto
  with Cons show ?case by simp
qed simp

lemma rq_fold_url:
  "fold (\<lambda>e. rq_callback (e, p)) (map ev_url us) s =
     s\<lparr>rq_head := (rq_head s)\<lparr>req_target := req_target (rq_head s) @ concat us\<rparr>\<rparr>"
  by (induction us arbitrary: s) (simp_all add: rq_on_url_def)

lemma rq_fold_field:
  "fold (\<lambda>e. rq_callback (e, p)) (map ev_header_field ns) s =
     s\<lparr>rq_pending_field := rq_pending_field s @ concat ns\<rparr>"
  by (induction ns arbitrary: s) (simp_all add: rq_on_header_field_def)

lemma rq_fold_value:
  "fold (\<lambda>e. rq_callback (e, p)) (map ev_header_value vs) s =
     s\<lparr>rq_pending_value := rq_pending_value s @ concat vs\<rparr>"
  by (induction vs arbitrary: s) (simp_all add: rq_on_header_value_def)

lemma rq_fold_headers:
  assumes "rq_pending_field s = []" "rq_pending_value s = []"
  shows "fold (\<lambda>e. rq_callback (e, p)) (concat (map header_events hs)) s =
     s\<lparr>rq_head := (rq_head s)\<lparr>req_headers := req_headers (rq_head s) @ map joined_header hs\<rparr>\<rparr>"
  using assms
proof (induction hs arbitrary: s)
  case (Cons h hs)
  then show ?case
    by (simp add: header_events_def rq_fold_field rq_fold_value rq_on_header_value_complete_def
        joined_header_def)
qed simp

section \<open>Properties\<close>

text \<open>An engine that makes a fixed sequence of callbacks for any input.\<close>

definition scripted_engine :: "(llhttp_event \<times> unit llhttp_t) list \<Rightarrow> unit llhttp_engine" where
  "scripted_engine evs = \<lparr>internal_init = (), internal_execute = (\<lambda>p data. (evs, HPE_OK, p\<lparr>lh_error_pos := None\<rparr>))\<rparr>"

definition sample_fields :: "unit llhttp_t" where
  "sample_fields = (llhttp_init (scripted_engine []) HTTP_REQUEST)
     \<lparr>http_major := 1, http_minor := 1, lh_method := HTTP_GET\<rparr>"

text \<open>The request head is assembled exactly, however llhttp cuts the target and the header
  names and values into pieces: after the callbacks of a message's start line and headers the
  head has the method name, the target, the version and the headers in order, the body seen so
  far is untouched and no partial header is left.\<close>

lemma request_head_assembled:
  assumes "map fst evs = ev_message_begin # map ev_url us @ concat (map header_events hs)"
  shows "\<exists>s'. fold rq_callback (evs @ [(ev_headers_complete, p)]) s = s' \<and> rq_header_done s' \<and>
     \<not> rq_message_done s' \<and>
     rq_head s' = \<lparr>req_method = llhttp_method_name (lh_method p), req_target = concat us,
        req_version = (if http_major p = 1 \<and> http_minor p = 0 then 10 else 11),
        req_headers = map joined_header hs\<rparr> \<and>
     rq_scratch s' = rq_scratch s \<and> rq_pending_field s' = [] \<and> rq_pending_value s' = []"
proof -
  have ne: "ev_headers_complete \<notin> fst ` set evs" "ev_message_complete \<notin> fst ` set evs"
    using arg_cong[OF assms, of set] by (auto simp: header_events_def)
  show ?thesis
    by (simp add: rq_fold_fields[OF ne, of _ p] assms rq_on_message_begin_def rq_fold_url rq_fold_headers
        rq_on_headers_complete_def message_version_def RequestHead_init_def)
qed

lemma request_head_assembled_example:
  "req_headers (rq_head (fold rq_callback
     (map (\<lambda>e. (e, sample_fields)) (ev_message_begin # map ev_url [''/a'', ''b''] @
        concat (map header_events [([''Ho'', ''st''], [''x''])])) @
      [(ev_headers_complete, sample_fields)]) (RequestParser_new (scripted_engine [])))) =
   [\<lparr>hdr_name = ''Host'', hdr_value = ''x''\<rparr>]"
proof -
  let ?evs = "map (\<lambda>e. (e, sample_fields)) (ev_message_begin # map ev_url [''/a'', ''b''] @
        concat (map header_events [([''Ho'', ''st''], [''x''])]))"
  have m: "map fst ?evs = ev_message_begin # map ev_url [''/a'', ''b''] @
      concat (map header_events [([''Ho'', ''st''], [''x''])])" by (simp add: comp_def)
  from request_head_assembled[OF m, of sample_fields "RequestParser_new (scripted_engine [])"]
  show ?thesis by (auto simp: joined_header_def)
qed






text \<open>No body byte is lost between \<open>feed\<close> and \<open>read_body\<close>: a call of \<open>feed\<close> on an unfinished
  message keeps what was unread and appends the body spans it parsed, consumes no more than it
  was given, and reading with any non-empty buffer until nothing comes hands over exactly those
  bytes. After the end of the message or an error \<open>feed\<close> does nothing.\<close>

lemma request_body_delivered:
  assumes "engine_ok eng" "0 < cap" "rq_feed eng raw s = (n, s')"
  shows "n \<le> length raw \<and>
     (if rq_has_error s \<or> rq_message_done s then n = 0 \<and> s' = s
      else rq_scratch s' = rq_scratch s @
         concat (map (body_of \<circ> fst) (fst (internal_execute eng (rq_parser s) raw)))) \<and>
     fst (drain (rq_read_body cap) (length (rq_scratch s')) s') = rq_scratch s'"
proof -
  have "n \<le> length raw" using rq_source.feed_bounded[OF assms(1), of raw s] assms(3) by simp
  moreover have "rq_scratch s' = rq_scratch s @
      concat (map (body_of \<circ> fst) (fst (internal_execute eng (rq_parser s) raw)))"
    if "\<not> (rq_has_error s \<or> rq_message_done s)"
    using assms(3) that
    by (auto simp: rq_feed_def llhttp_execute_def rq_fold_scratch Let_def split: prod.splits if_splits)
  moreover have "rq_has_error s \<or> rq_message_done s \<Longrightarrow> n = 0 \<and> s' = s"
    using assms(3) by (auto simp: rq_feed_def)
  moreover have "fst (drain (rq_read_body cap) (length (rq_scratch s')) s') = rq_scratch s'"
    using rq_source.drain_all[OF assms(2), of s' "length (rq_scratch s')"] by auto
  ultimately show ?thesis by auto
qed

lemma request_body_delivered_example:
  "fst (drain (rq_read_body 2) 5 (snd (rq_feed
       (scripted_engine [(ev_body ''abc'', sample_fields), (ev_body ''de'', sample_fields)]) ''raw''
       (RequestParser_new (scripted_engine []))))) = ''abcde''"
proof -
  let ?eng = "scripted_engine [(ev_body ''abc'', sample_fields), (ev_body ''de'', sample_fields)]"
  let ?s = "RequestParser_new (scripted_engine [])"
  obtain n s' where f: "rq_feed ?eng ''raw'' ?s = (n, s')" by (cases "rq_feed ?eng ''raw'' ?s")
  have ok: "engine_ok ?eng" by (auto simp: engine_ok_def scripted_engine_def)
  have two: "0 < (2::nat)" by simp
  note r = request_body_delivered[OF ok two f]
  have b: "rq_scratch s' = ''abcde''" using r by (simp add: RequestParser_new_def scripted_engine_def)
  have len: "length (rq_scratch s') = 5" by (simp add: b)
  from r have "fst (drain (rq_read_body 2) 5 s') = ''abcde''" by (simp only: len) (simp add: b)
  with f show ?thesis by simp
qed



end
