(* ===== verification/Filters.thy ===== *)
theory Filters
  imports Http_Types
begin

text \<open>
  The filter layer of \<open>src/filter/\<close>: result types, \<open>FilterContext\<close>, the \<open>IFilter\<close> interface,
  \<open>ViaHeaderFilter\<close>, \<open>FilterChain\<close> (header phase and body phase) and \<open>BodyFilterGate\<close>. A filter
  is a record of four functions from its arguments to its result and the new values of the
  arguments it takes by reference; filter objects are shared by all sessions of a shard and
  keep no per-request members, which is the documented rule of \<open>filter.hpp\<close>. The locale
  \<open>body_gate\<close> states what a session relies on in each direction.
\<close>

section \<open>Results and context\<close>

record DirectResponse =
  dr_head :: ResponseHead
  dr_body :: byte_list

datatype FilterHeaderResult = fh_continue | fh_respond DirectResponse

datatype FilterDataResult = fd_continue | fd_respond DirectResponse | fd_stop_and_buffer


type_synonym 'v FilterContext = "nat \<rightharpoonup> nat \<times> 'v"



section \<open>Filters\<close>

type_synonym 'v data_step =
  "byte_list \<Rightarrow> bool \<Rightarrow> 'v FilterContext \<Rightarrow> FilterDataResult \<times> byte_list \<times> 'v FilterContext"

record 'v IFilter =
  on_request :: "RequestHead \<Rightarrow> 'v FilterContext \<Rightarrow> FilterHeaderResult \<times> RequestHead \<times> 'v FilterContext"
  on_response :: "ResponseHead \<Rightarrow> 'v FilterContext \<Rightarrow> FilterHeaderResult \<times> ResponseHead \<times> 'v FilterContext"
  on_request_data :: "'v data_step"
  on_response_data :: "'v data_step"

text \<open>The virtual functions a filter does not override.\<close>

definition IFilter_default :: "'v IFilter" where
  "IFilter_default =
     \<lparr>on_request = (\<lambda>head ctx. (fh_continue, head, ctx)),
      on_response = (\<lambda>head ctx. (fh_continue, head, ctx)),
      on_request_data = (\<lambda>data end_stream ctx. (fd_continue, data, ctx)),
      on_response_data = (\<lambda>data end_stream ctx. (fd_continue, data, ctx))\<rparr>"

definition via_header :: Header where
  "via_header = \<lparr>hdr_name = ''Via'', hdr_value = ''1.1 perCoreShard''\<rparr>"

definition ViaHeaderFilter :: "'v IFilter" where
  "ViaHeaderFilter = IFilter_default
     \<lparr>on_request := (\<lambda>head ctx.
        (fh_continue, head\<lparr>req_headers := req_headers head @ [via_header]\<rparr>, ctx)),
      on_response := (\<lambda>head ctx.
        (fh_continue, head\<lparr>resp_headers := resp_headers head @ [via_header]\<rparr>, ctx))\<rparr>"

section \<open>FilterChain\<close>

type_synonym 'v FilterChain = "'v IFilter list"

definition add_filter :: "'v IFilter \<Rightarrow> 'v FilterChain \<Rightarrow> 'v FilterChain" where
  "add_filter f chain = chain @ [f]"

definition build_default_filter_chain :: "'v FilterChain" where
  "build_default_filter_chain = add_filter ViaHeaderFilter []"

fun apply_request ::
  "'v FilterChain \<Rightarrow> RequestHead \<Rightarrow> 'v FilterContext
     \<Rightarrow> FilterHeaderResult \<times> RequestHead \<times> 'v FilterContext" where
  "apply_request [] head ctx = (fh_continue, head, ctx)"
| "apply_request (f # fs) head ctx =
     (case on_request f head ctx of
        (fh_respond d, head', ctx') \<Rightarrow> (fh_respond d, head', ctx')
      | (fh_continue, head', ctx') \<Rightarrow> apply_request fs head' ctx')"

fun apply_response_rev ::
  "'v FilterChain \<Rightarrow> ResponseHead \<Rightarrow> 'v FilterContext
     \<Rightarrow> FilterHeaderResult \<times> ResponseHead \<times> 'v FilterContext" where
  "apply_response_rev [] head ctx = (fh_continue, head, ctx)"
| "apply_response_rev (f # fs) head ctx =
     (case on_response f head ctx of
        (fh_respond d, head', ctx') \<Rightarrow> (fh_respond d, head', ctx')
      | (fh_continue, head', ctx') \<Rightarrow> apply_response_rev fs head' ctx')"

text \<open>\<open>apply_response\<close> iterates from \<open>rbegin\<close> to \<open>rend\<close>.\<close>

definition apply_response ::
  "'v FilterChain \<Rightarrow> ResponseHead \<Rightarrow> 'v FilterContext
     \<Rightarrow> FilterHeaderResult \<times> ResponseHead \<times> 'v FilterContext" where
  "apply_response chain head ctx = apply_response_rev (rev chain) head ctx"

record DataIterationState =
  blocked :: bool
  blocked_filter_index :: nat
  di_buffer :: byte_list

definition DataIterationState_init :: DataIterationState where
  "DataIterationState_init = \<lparr>blocked = False, blocked_filter_index = 0, di_buffer = []\<rparr>"

text \<open>The loop of \<open>apply_data\<close> over the indices still to visit. \<open>cur\<close> is \<open>*current\<close>; \<open>in_buf\<close> says
  that \<open>current\<close> points to the state's buffer rather than to the caller's \<open>data\<close>. A string that
  has been moved from is left empty.\<close>

fun apply_data_loop ::
  "('v IFilter \<Rightarrow> 'v data_step) \<Rightarrow> 'v FilterChain \<Rightarrow> nat list \<Rightarrow> bool \<Rightarrow> bool \<Rightarrow> byte_list \<Rightarrow> byte_list
     \<Rightarrow> DataIterationState \<Rightarrow> 'v FilterContext
     \<Rightarrow> FilterDataResult \<times> byte_list \<times> DataIterationState \<times> 'v FilterContext" where
  "apply_data_loop step fs [] end_stream in_buf data cur st ctx =
     (if in_buf then (fd_continue, cur, st\<lparr>blocked := False, di_buffer := []\<rparr>, ctx)
      else (fd_continue, cur, st\<lparr>blocked := False\<rparr>, ctx))"
| "apply_data_loop step fs (i # is) end_stream in_buf data cur st ctx =
     (case step (fs ! i) cur end_stream ctx of
        (fd_respond d, cur', ctx') \<Rightarrow>
          (fd_respond d, (if in_buf then data else cur'),
           st\<lparr>blocked := False, di_buffer := []\<rparr>, ctx')
      | (fd_stop_and_buffer, cur', ctx') \<Rightarrow>
          (fd_stop_and_buffer, (if in_buf then data else []),
           st\<lparr>di_buffer := cur', blocked := True, blocked_filter_index := i\<rparr>, ctx')
      | (fd_continue, cur', ctx') \<Rightarrow>
          apply_data_loop step fs is end_stream in_buf data cur' st ctx')"

definition visit_order :: "bool \<Rightarrow> nat \<Rightarrow> nat \<Rightarrow> nat list" where
  "visit_order reverse n start_index =
     (if \<not> reverse then [start_index..<n] else rev [0..<start_index + 1])"

definition apply_data ::
  "('v IFilter \<Rightarrow> 'v data_step) \<Rightarrow> bool \<Rightarrow> 'v FilterChain \<Rightarrow> byte_list \<Rightarrow> bool
     \<Rightarrow> DataIterationState \<Rightarrow> 'v FilterContext
     \<Rightarrow> FilterDataResult \<times> byte_list \<times> DataIterationState \<times> 'v FilterContext" where
  "apply_data step reverse fs data end_stream st ctx =
     (if fs = [] then (fd_continue, data, st, ctx)
      else if blocked st then
        let buf = di_buffer st @ data in
        apply_data_loop step fs (visit_order reverse (length fs) (blocked_filter_index st))
          end_stream True data buf (st\<lparr>di_buffer := buf\<rparr>) ctx
      else
        apply_data_loop step fs
          (visit_order reverse (length fs) (if reverse then length fs - 1 else 0))
          end_stream False data data st ctx)"

definition apply_request_data ::
  "'v FilterChain \<Rightarrow> byte_list \<Rightarrow> bool \<Rightarrow> DataIterationState \<Rightarrow> 'v FilterContext
     \<Rightarrow> FilterDataResult \<times> byte_list \<times> DataIterationState \<times> 'v FilterContext" where
  "apply_request_data = apply_data on_request_data False"

definition apply_response_data ::
  "'v FilterChain \<Rightarrow> byte_list \<Rightarrow> bool \<Rightarrow> DataIterationState \<Rightarrow> 'v FilterContext
     \<Rightarrow> FilterDataResult \<times> byte_list \<times> DataIterationState \<times> 'v FilterContext" where
  "apply_response_data = apply_data on_response_data True"

section \<open>BodyFilterGate\<close>

datatype GateResult = kForward byte_list | kStillBuffering | kReject ResponseHead byte_list

record BodyFilterGate =
  high_watermark_bytes :: nat
  request_state :: DataIterationState
  response_state :: DataIterationState

definition BodyFilterGate_new :: "nat \<Rightarrow> BodyFilterGate" where
  "BodyFilterGate_new hw =
     \<lparr>high_watermark_bytes = hw, request_state = DataIterationState_init,
      response_state = DataIterationState_init\<rparr>"

definition BodyFilterGate_reset :: "BodyFilterGate \<Rightarrow> BodyFilterGate" where
  "BodyFilterGate_reset g =
     g\<lparr>request_state := DataIterationState_init, response_state := DataIterationState_init\<rparr>"

text \<open>The synthesised rejection: 413 for a request body, 502 for a response body.\<close>

definition watermark_response :: "bool \<Rightarrow> ResponseHead" where
  "watermark_response is_request =
     ResponseHead_init\<lparr>resp_status := (if is_request then 413 else 502),
       resp_reason := (if is_request then ''Payload Too Large'' else ''Bad Gateway''),
       resp_headers := [\<lparr>hdr_name = ''Content-Length'', hdr_value = ''0''\<rparr>]\<rparr>"

definition gate_apply ::
  "'v FilterChain \<Rightarrow> nat \<Rightarrow> byte_list \<Rightarrow> bool \<Rightarrow> DataIterationState \<Rightarrow> bool \<Rightarrow> 'v FilterContext
     \<Rightarrow> GateResult \<times> DataIterationState \<times> 'v FilterContext" where
  "gate_apply chain hw chunk end_stream st is_request ctx =
     (let (result, chunk', st', ctx') =
            (if is_request then apply_request_data chain chunk end_stream st ctx
             else apply_response_data chain chunk end_stream st ctx)
      in case result of
           fd_respond d \<Rightarrow> (kReject (dr_head d) (dr_body d), DataIterationState_init, ctx')
         | fd_stop_and_buffer \<Rightarrow>
             if length (di_buffer st') > hw
             then (kReject (watermark_response is_request) [], DataIterationState_init, ctx')
             else if end_stream
             then (kForward (di_buffer st'), DataIterationState_init, ctx')
             else (kStillBuffering, st', ctx')
         | fd_continue \<Rightarrow> (kForward chunk', st', ctx'))"

definition gate_apply_request ::
  "'v FilterChain \<Rightarrow> byte_list \<Rightarrow> bool \<Rightarrow> BodyFilterGate \<Rightarrow> 'v FilterContext
     \<Rightarrow> GateResult \<times> BodyFilterGate \<times> 'v FilterContext" where
  "gate_apply_request chain chunk end_stream g ctx =
     (let (r, st', ctx') = gate_apply chain (high_watermark_bytes g) chunk end_stream
                             (request_state g) True ctx
      in (r, g\<lparr>request_state := st'\<rparr>, ctx'))"

definition gate_apply_response ::
  "'v FilterChain \<Rightarrow> byte_list \<Rightarrow> bool \<Rightarrow> BodyFilterGate \<Rightarrow> 'v FilterContext
     \<Rightarrow> GateResult \<times> BodyFilterGate \<times> 'v FilterContext" where
  "gate_apply_response chain chunk end_stream g ctx =
     (let (r, st', ctx') = gate_apply chain (high_watermark_bytes g) chunk end_stream
                             (response_state g) False ctx
      in (r, g\<lparr>response_state := st'\<rparr>, ctx'))"

section \<open>Iteration-state invariant\<close>

definition di_invar :: "nat \<Rightarrow> DataIterationState \<Rightarrow> bool" where
  "di_invar n st \<longleftrightarrow> (if blocked st then blocked_filter_index st < n else di_buffer st = [])"

text \<open>Filters that inspect a body without rewriting it.\<close>

definition inspecting :: "('v IFilter \<Rightarrow> 'v data_step) \<Rightarrow> 'v FilterChain \<Rightarrow> bool" where
  "inspecting step fs \<longleftrightarrow> (\<forall>f \<in> set fs. \<forall>d e c. fst (snd (step f d e c)) = d)"

lemma di_invar_init [simp]: "di_invar n DataIterationState_init"
  by (simp add: di_invar_def DataIterationState_init_def)

lemma visit_order_in_range:
  "start_index < n \<Longrightarrow> set (visit_order reverse n start_index) \<subseteq> {..<n}"
  by (auto simp: visit_order_def)

lemma apply_data_loop_state:
  assumes "apply_data_loop step fs is e in_buf data cur st ctx = (r, data', st', ctx')"
    and "set is \<subseteq> {..<length fs}" "\<not> in_buf \<Longrightarrow> di_buffer st = []"
  shows "di_invar (length fs) st' \<and> (blocked st' \<longleftrightarrow> r = fd_stop_and_buffer)"
  using assms
proof (induction step fs "is" e in_buf data cur st ctx rule: apply_data_loop.induct)
  case (2 step fs i "is" e in_buf data cur st ctx)
  obtain r1 cur1 ctx1 where s: "step (fs ! i) cur e ctx = (r1, cur1, ctx1)"
    by (cases "step (fs ! i) cur e ctx")
  with 2 show ?case by (cases r1) (auto simp: di_invar_def)
qed (auto simp: di_invar_def split: if_splits)

lemma apply_data_loop_inspecting:
  assumes "apply_data_loop step fs is e in_buf data cur st ctx = (r, data', st', ctx')"
    and "set is \<subseteq> {..<length fs}" "inspecting step fs"
  shows "(r = fd_continue \<longrightarrow> data' = cur) \<and> (r = fd_stop_and_buffer \<longrightarrow> di_buffer st' = cur)"
  using assms
proof (induction step fs "is" e in_buf data cur st ctx rule: apply_data_loop.induct)
  case (2 step fs i "is" e in_buf data cur st ctx)
  obtain r1 cur1 ctx1 where s: "step (fs ! i) cur e ctx = (r1, cur1, ctx1)"
    by (cases "step (fs ! i) cur e ctx")
  with 2(3,4) have c: "cur1 = cur"
    unfolding inspecting_def by (metis fst_conv snd_conv insert_subset lessThan_iff list.set(2) nth_mem)
  with 2 s show ?case by (cases r1) auto
qed (auto split: if_splits)

lemma apply_data_as_loop:
  assumes "fs \<noteq> []" "di_invar (length fs) st"
  shows "\<exists>is in_buf st0. set is \<subseteq> {..<length fs} \<and> (\<not> in_buf \<longrightarrow> di_buffer st0 = []) \<and>
     apply_data step reverse fs data e st ctx =
       apply_data_loop step fs is e in_buf data (di_buffer st @ data) st0 ctx"
proof (cases "blocked st")
  case True
  with assms show ?thesis
    by (intro exI[of _ "visit_order reverse (length fs) (blocked_filter_index st)"] exI[of _ True]
        exI[of _ "st\<lparr>di_buffer := di_buffer st @ data\<rparr>"])
      (simp add: apply_data_def Let_def di_invar_def visit_order_in_range)
next
  case False
  with assms show ?thesis
    by (intro exI[of _ "visit_order reverse (length fs) (if reverse then length fs - 1 else 0)"]
        exI[of _ False] exI[of _ st])
      (auto simp: apply_data_def Let_def di_invar_def visit_order_def)
qed

lemma apply_data_state:
  assumes "apply_data step reverse fs data e st ctx = (r, data', st', ctx')"
    and "di_invar (length fs) st"
  shows "di_invar (length fs) st' \<and> (blocked st' \<longleftrightarrow> r = fd_stop_and_buffer \<and> fs \<noteq> [])"
proof (cases "fs = []")
  case False
  obtain "is" in_buf st0 where l: "set is \<subseteq> {..<length fs}" "\<not> in_buf \<longrightarrow> di_buffer st0 = []"
    "apply_data_loop step fs is e in_buf data (di_buffer st @ data) st0 ctx = (r, data', st', ctx')"
    using apply_data_as_loop[OF False assms(2), of step reverse data e ctx] assms(1) by metis
  from apply_data_loop_state[OF l(3,1)] l(2) False show ?thesis by simp
qed (use assms in \<open>auto simp: apply_data_def di_invar_def split: if_splits\<close>)

lemma apply_data_inspecting:
  assumes "apply_data step reverse fs data e st ctx = (r, data', st', ctx')"
    and "di_invar (length fs) st" "inspecting step fs"
  shows "(r = fd_continue \<longrightarrow> data' = di_buffer st @ data) \<and>
         (r = fd_stop_and_buffer \<longrightarrow> di_buffer st' = di_buffer st @ data)"
proof (cases "fs = []")
  case False
  obtain "is" in_buf st0 where l: "set is \<subseteq> {..<length fs}"
    "apply_data_loop step fs is e in_buf data (di_buffer st @ data) st0 ctx = (r, data', st', ctx')"
    using apply_data_as_loop[OF False assms(2), of step reverse data e ctx] assms(1) by metis
  from apply_data_loop_inspecting[OF l(2,1) assms(3)] show ?thesis .
qed (use assms in \<open>auto simp: apply_data_def di_invar_def split: if_splits\<close>)

section \<open>The contract of a gate direction\<close>

text \<open>Feeding a body chunk by chunk, the last one with \<open>end_stream\<close>: the bytes forwarded, whether
  the body was rejected, and the final gate and context.\<close>

fun run_gate ::
  "(byte_list \<Rightarrow> bool \<Rightarrow> 'g \<Rightarrow> 'c \<Rightarrow> GateResult \<times> 'g \<times> 'c) \<Rightarrow> byte_list list \<Rightarrow> 'g \<Rightarrow> 'c
     \<Rightarrow> byte_list \<times> bool \<times> 'g \<times> 'c" where
  "run_gate ap [] g c = ([], False, g, c)"
| "run_gate ap (x # xs) g c =
     (case ap x (xs = []) g c of
        (kReject h b, g', c') \<Rightarrow> ([], True, g', c')
      | (kStillBuffering, g', c') \<Rightarrow> run_gate ap xs g' c'
      | (kForward out, g', c') \<Rightarrow>
          (case run_gate ap xs g' c' of (rest, z) \<Rightarrow> (out @ rest, z)))"

locale body_gate =
  fixes apply_chunk :: "'f \<Rightarrow> byte_list \<Rightarrow> bool \<Rightarrow> 'g \<Rightarrow> 'c \<Rightarrow> GateResult \<times> 'g \<times> 'c"
    and held :: "'g \<Rightarrow> byte_list"
    and limit :: "'g \<Rightarrow> nat"
    and invar :: "'f \<Rightarrow> 'g \<Rightarrow> bool"
    and inspects :: "'f \<Rightarrow> bool"
  assumes held_bounded: "invar f g \<Longrightarrow> length (held g) \<le> limit g"
    and apply_chunk_state:
      "invar f g \<Longrightarrow> apply_chunk f x e g c = (r, g', c') \<Longrightarrow>
         invar f g' \<and> limit g' = limit g \<and> (if r = kStillBuffering then \<not> e else held g' = [])"
    and apply_chunk_bytes:
      "invar f g \<Longrightarrow> inspects f \<Longrightarrow> apply_chunk f x e g c = (r, g', c') \<Longrightarrow>
         (case r of kForward out \<Rightarrow> out = held g @ x | kStillBuffering \<Rightarrow> held g' = held g @ x
          | kReject _ _ \<Rightarrow> True)"
begin

lemma run_state:
  assumes "invar f g" "run_gate (apply_chunk f) xs g c = (out, rejected, g', c')"
  shows "invar f g' \<and> limit g' = limit g \<and> (xs \<noteq> [] \<longrightarrow> held g' = [])"
  using assms
proof (induction xs arbitrary: g c out rejected g' c')
  case (Cons x xs)
  obtain r g1 c1 where s: "apply_chunk f x (xs = []) g c = (r, g1, c1)"
    by (cases "apply_chunk f x (xs = []) g c")
  obtain o2 rj2 g2 c2 where t: "run_gate (apply_chunk f) xs g1 c1 = (o2, rj2, g2, c2)"
    by (cases "run_gate (apply_chunk f) xs g1 c1")
  from apply_chunk_state[OF Cons.prems(1) s] have
    g1: "invar f g1" "limit g1 = limit g" "r \<noteq> kStillBuffering \<Longrightarrow> held g1 = []"
      "r = kStillBuffering \<Longrightarrow> xs \<noteq> []" by (auto split: if_splits)
  note IH = Cons.IH[OF g1(1) t]
  show ?case
  proof (cases "xs = []")
    case True
    with Cons.prems(2) s g1 show ?thesis by (cases r) auto
  next
    case False
    with IH Cons.prems(2) s t g1 show ?thesis by (cases r) auto
  qed
qed simp

lemma run_bytes:
  assumes "invar f g" "inspects f" "xs \<noteq> []"
    and "run_gate (apply_chunk f) xs g c = (out, rejected, g', c')"
  shows "prefix out (held g @ concat xs) \<and> (\<not> rejected \<longrightarrow> out = held g @ concat xs)"
  using assms
proof (induction xs arbitrary: g c out rejected g' c')
  case (Cons x xs)
  obtain r g1 c1 where s: "apply_chunk f x (xs = []) g c = (r, g1, c1)"
    by (cases "apply_chunk f x (xs = []) g c")
  obtain o2 rj2 g2 c2 where t: "run_gate (apply_chunk f) xs g1 c1 = (o2, rj2, g2, c2)"
    by (cases "run_gate (apply_chunk f) xs g1 c1")
  note st = apply_chunk_state[OF Cons.prems(1) s] and by1 = apply_chunk_bytes[OF Cons.prems(1,2) s]
  have IH: "xs \<noteq> [] \<Longrightarrow> prefix o2 (held g1 @ concat xs) \<and> (\<not> rj2 \<longrightarrow> o2 = held g1 @ concat xs)"
    using Cons.IH[OF _ Cons.prems(2) _ t] st by blast
  show ?case
  proof (cases "xs = []")
    case True
    with Cons.prems(4) s st by1 show ?thesis by (cases r) auto
  next
    case False
    with IH Cons.prems(4) s t st by1 show ?thesis by (cases r) auto
  qed
qed simp

end

section \<open>Both directions of the gate meet the contract\<close>

lemma gate_apply_state:
  assumes "gate_apply fs hw x e st q ctx = (r, st', ctx')"
    and "di_invar (length fs) st" "length (di_buffer st) \<le> hw"
  shows "di_invar (length fs) st' \<and> length (di_buffer st') \<le> hw \<and>
     (if r = kStillBuffering then \<not> e else di_buffer st' = [])"
proof -
  obtain res x1 st1 c1 where a:
    "(if q then apply_request_data fs x e st ctx else apply_response_data fs x e st ctx) =
       (res, x1, st1, c1)" by (metis prod_cases4)
  then have inv: "di_invar (length fs) st1" "blocked st1 \<longleftrightarrow> res = fd_stop_and_buffer \<and> fs \<noteq> []"
    using apply_data_state[OF _ assms(2)]
    by (auto simp: apply_request_data_def apply_response_data_def split: if_splits)
  with assms(1) a show ?thesis
    by (cases res) (auto simp: gate_apply_def di_invar_def DataIterationState_init_def
        split: if_splits)
qed

lemma gate_apply_bytes:
  assumes "gate_apply fs hw x e st q ctx = (r, st', ctx')"
    and "di_invar (length fs) st"
    and "inspecting (if q then on_request_data else on_response_data) fs"
  shows "case r of kForward out \<Rightarrow> out = di_buffer st @ x
     | kStillBuffering \<Rightarrow> di_buffer st' = di_buffer st @ x | kReject _ _ \<Rightarrow> True"
proof -
  obtain res x1 st1 c1 where a:
    "(if q then apply_request_data fs x e st ctx else apply_response_data fs x e st ctx) =
       (res, x1, st1, c1)" by (metis prod_cases4)
  then have "(res = fd_continue \<longrightarrow> x1 = di_buffer st @ x) \<and>
      (res = fd_stop_and_buffer \<longrightarrow> di_buffer st1 = di_buffer st @ x)"
    using apply_data_inspecting[OF _ assms(2)] assms(3)
    by (auto simp: apply_request_data_def apply_response_data_def split: if_splits)
  with assms(1) a show ?thesis
    by (cases res) (auto simp: gate_apply_def split: if_splits)
qed

definition request_gate_invar :: "'v FilterChain \<Rightarrow> BodyFilterGate \<Rightarrow> bool" where
  "request_gate_invar fs g \<longleftrightarrow>
     di_invar (length fs) (request_state g) \<and>
     length (di_buffer (request_state g)) \<le> high_watermark_bytes g"

definition response_gate_invar :: "'v FilterChain \<Rightarrow> BodyFilterGate \<Rightarrow> bool" where
  "response_gate_invar fs g \<longleftrightarrow>
     di_invar (length fs) (response_state g) \<and>
     length (di_buffer (response_state g)) \<le> high_watermark_bytes g"

interpretation req_gate: body_gate gate_apply_request "\<lambda>g. di_buffer (request_state g)"
  high_watermark_bytes request_gate_invar "inspecting on_request_data"
proof (unfold_locales, goal_cases)
  case (2 f g x e c r g' c')
  then show ?case
    using gate_apply_state[of f "high_watermark_bytes g" x e "request_state g" True c r]
    by (auto simp: gate_apply_request_def request_gate_invar_def split: prod.splits)
next
  case (3 f g x e c r g' c')
  then show ?case
    using gate_apply_bytes[of f "high_watermark_bytes g" x e "request_state g" True c r]
    by (auto simp: gate_apply_request_def request_gate_invar_def split: prod.splits GateResult.splits)
qed (simp add: request_gate_invar_def)

interpretation resp_gate: body_gate gate_apply_response "\<lambda>g. di_buffer (response_state g)"
  high_watermark_bytes response_gate_invar "inspecting on_response_data"
proof (unfold_locales, goal_cases)
  case (2 f g x e c r g' c')
  then show ?case
    using gate_apply_state[of f "high_watermark_bytes g" x e "response_state g" False c r]
    by (auto simp: gate_apply_response_def response_gate_invar_def split: prod.splits)
next
  case (3 f g x e c r g' c')
  then show ?case
    using gate_apply_bytes[of f "high_watermark_bytes g" x e "response_state g" False c r]
    by (auto simp: gate_apply_response_def response_gate_invar_def split: prod.splits GateResult.splits)
qed (simp add: response_gate_invar_def)

text \<open>Filters that never hold a body back never leave the gate buffering.\<close>

definition passing :: "('v IFilter \<Rightarrow> 'v data_step) \<Rightarrow> 'v FilterChain \<Rightarrow> bool" where
  "passing step fs \<longleftrightarrow> (\<forall>f \<in> set fs. \<forall>d e c. fst (step f d e c) \<noteq> fd_stop_and_buffer)"

lemma apply_data_loop_passing:
  assumes "apply_data_loop step fs is e in_buf data cur st ctx = (r, data', st', ctx')"
    and "set is \<subseteq> {..<length fs}" "passing step fs"
  shows "r \<noteq> fd_stop_and_buffer"
  using assms
proof (induction step fs "is" e in_buf data cur st ctx rule: apply_data_loop.induct)
  case (2 step fs i "is" e in_buf data cur st ctx)
  obtain r1 cur1 ctx1 where s: "step (fs ! i) cur e ctx = (r1, cur1, ctx1)"
    by (cases "step (fs ! i) cur e ctx")
  with 2(3,4) have "r1 \<noteq> fd_stop_and_buffer"
    unfolding passing_def by (metis fst_conv insert_subset lessThan_iff list.set(2) nth_mem)
  with 2 s show ?case by (cases r1) auto
qed (auto split: if_splits)

lemma apply_data_passing:
  assumes "apply_data step reverse fs data e st ctx = (r, data', st', ctx')" "di_invar (length fs) st" "passing step fs"
  shows "r \<noteq> fd_stop_and_buffer"
proof (cases "fs = []")
  case False
  from apply_data_as_loop[OF False assms(2), of step reverse data e ctx] assms(1) apply_data_loop_passing[OF _ _ assms(3)]
  show ?thesis by metis
qed (use assms(1) in \<open>auto simp: apply_data_def\<close>)

lemma gate_passing:
  "gate_apply_request fs x e g ctx = (r, g', ctx') \<Longrightarrow> request_gate_invar fs g \<Longrightarrow> passing on_request_data fs \<Longrightarrow>
     r \<noteq> kStillBuffering"
  "gate_apply_response fs x e g ctx = (r, g', ctx') \<Longrightarrow> response_gate_invar fs g \<Longrightarrow> passing on_response_data fs \<Longrightarrow>
     r \<noteq> kStillBuffering"
  by (auto simp: gate_apply_request_def gate_apply_response_def gate_apply_def request_gate_invar_def
      response_gate_invar_def apply_request_data_def apply_response_data_def
      dest: apply_data_passing split: prod.splits FilterDataResult.splits if_splits)

lemma gate_invar_reset:
  "request_gate_invar fs (BodyFilterGate_reset g)" "response_gate_invar fs (BodyFilterGate_reset g)"
  "request_gate_invar fs (BodyFilterGate_new hw)" "response_gate_invar fs (BodyFilterGate_new hw)"
  by (simp_all add: request_gate_invar_def response_gate_invar_def BodyFilterGate_reset_def
      BodyFilterGate_new_def DataIterationState_init_def di_invar_def)

lemma gate_directions_independent:
  "gate_apply_request fs x e g c = (r, g', c') \<Longrightarrow>
     response_state g' = response_state g \<and> high_watermark_bytes g' = high_watermark_bytes g"
  "gate_apply_response fs x e g c = (r, g', c') \<Longrightarrow>
     request_state g' = request_state g \<and> high_watermark_bytes g' = high_watermark_bytes g"
  by (auto simp: gate_apply_request_def gate_apply_response_def split: prod.splits)

section \<open>The header phase\<close>

lemma apply_request_append:
  "apply_request (fs @ gs) head ctx =
     (case apply_request fs head ctx of
        (fh_continue, head', ctx') \<Rightarrow> apply_request gs head' ctx'
      | (fh_respond d, head', ctx') \<Rightarrow> (fh_respond d, head', ctx'))"
  by (induction fs head ctx rule: apply_request.induct)
    (auto split: prod.splits FilterHeaderResult.splits)

lemma apply_response_rev_append:
  "apply_response_rev (fs @ gs) head ctx =
     (case apply_response_rev fs head ctx of
        (fh_continue, head', ctx') \<Rightarrow> apply_response_rev gs head' ctx'
      | (fh_respond d, head', ctx') \<Rightarrow> (fh_respond d, head', ctx'))"
  by (induction fs head ctx rule: apply_response_rev.induct)
    (auto split: prod.splits FilterHeaderResult.splits)

lemma apply_response_append:
  "apply_response (fs @ gs) head ctx =
     (case apply_response gs head ctx of
        (fh_continue, head', ctx') \<Rightarrow> apply_response fs head' ctx'
      | (fh_respond d, head', ctx') \<Rightarrow> (fh_respond d, head', ctx'))"
  by (auto simp: apply_response_def apply_response_rev_append
      split: prod.split FilterHeaderResult.split)

lemma apply_single:
  "apply_request [f] rq ctx = on_request f rq ctx" "apply_response [f] rs ctx = on_response f rs ctx"
  by (auto simp: apply_response_def split: prod.split FilterHeaderResult.split)

section \<open>Properties\<close>

text \<open>A filter that holds a body back until its end and rejects it if it contains a given byte.\<close>

definition scan_filter :: "char \<Rightarrow> 'v IFilter" where
  "scan_filter bad = IFilter_default\<lparr>on_request_data := (\<lambda>d e c.
      (if bad \<in> set d
       then fd_respond \<lparr>dr_head = ResponseHead_init\<lparr>resp_status := 403\<rparr>, dr_body = ''no''\<rparr>
       else if e then fd_continue else fd_stop_and_buffer, d, c))\<rparr>"

lemma scan_filter_inspecting [simp]:
  "inspecting on_request_data [scan_filter bad, ViaHeaderFilter]"
  by (simp add: inspecting_def scan_filter_def ViaHeaderFilter_def IFilter_default_def)

text \<open>Body filtering loses and invents nothing: with filters that inspect the request body
  without rewriting it, a body fed to the gate chunk by chunk, the last one with \<open>end_stream\<close>,
  is forwarded exactly once and in order whatever the filters buffer in between; if it is
  rejected, what had been forwarded is a prefix of it. Either way nothing stays buffered and
  the buffer never exceeded the high watermark.\<close>

lemma gate_request_conserves:
  assumes "request_gate_invar fs g" "inspecting on_request_data fs" "xs \<noteq> []"
    and "run_gate (gate_apply_request fs) xs g c = (out, rejected, g', c')"
  shows "prefix out (di_buffer (request_state g) @ concat xs) \<and>
     (\<not> rejected \<longrightarrow> out = di_buffer (request_state g) @ concat xs) \<and>
     di_buffer (request_state g') = [] \<and> request_gate_invar fs g'"
  using req_gate.run_bytes[OF assms] req_gate.run_state[OF assms(1,4)] assms(3) by simp

lemma gate_request_conserves_example:
  "fst (run_gate (gate_apply_request [scan_filter CHR ''x'', ViaHeaderFilter])
      [''ab'', ''c'', ''de''] (BodyFilterGate_new 8) (Map.empty :: nat FilterContext)) = ''abcde''"
proof -
  let ?fs = "[scan_filter CHR ''x'', ViaHeaderFilter] :: nat FilterChain"
  let ?r = "run_gate (gate_apply_request ?fs) [''ab'', ''c'', ''de''] (BodyFilterGate_new 8) Map.empty"
  obtain out rj g' c' where r: "?r = (out, rj, g', c')" by (cases ?r)
  have "\<not> fst (snd ?r)"
    by (simp add: gate_apply_request_def gate_apply_def apply_request_data_def apply_data_def
        visit_order_def scan_filter_def ViaHeaderFilter_def IFilter_default_def
        BodyFilterGate_new_def DataIterationState_init_def upt_rec Let_def)
  with gate_request_conserves[OF gate_invar_reset(3) scan_filter_inspecting _ r] r show ?thesis
    by (simp add: BodyFilterGate_new_def DataIterationState_init_def)
qed

text \<open>The same for response bodies, which are filtered in the reverse order.\<close>

lemma gate_response_conserves:
  assumes "response_gate_invar fs g" "inspecting on_response_data fs" "xs \<noteq> []"
    and "run_gate (gate_apply_response fs) xs g c = (out, rejected, g', c')"
  shows "prefix out (di_buffer (response_state g) @ concat xs) \<and>
     (\<not> rejected \<longrightarrow> out = di_buffer (response_state g) @ concat xs) \<and>
     di_buffer (response_state g') = [] \<and> response_gate_invar fs g'"
  using resp_gate.run_bytes[OF assms] resp_gate.run_state[OF assms(1,4)] assms(3) by simp

lemma gate_response_conserves_example:
  "prefix (fst (run_gate (gate_apply_response [ViaHeaderFilter])
      [''ab'', ''c''] (BodyFilterGate_new 8) (Map.empty :: nat FilterContext))) ''abc''"
proof -
  let ?fs = "[ViaHeaderFilter] :: nat FilterChain"
  let ?r = "run_gate (gate_apply_response ?fs) [''ab'', ''c''] (BodyFilterGate_new 8) Map.empty"
  obtain out rj g' c' where r: "?r = (out, rj, g', c')" by (cases ?r)
  have "inspecting on_response_data ?fs"
    by (simp add: inspecting_def ViaHeaderFilter_def IFilter_default_def)
  from gate_response_conserves[OF gate_invar_reset(4) this _ r] r show ?thesis
    by (simp add: BodyFilterGate_new_def DataIterationState_init_def)
qed



text \<open>A filter that asks for buffering shadows the filters before it: while the request body
  is held by filter \<open>i\<close>, what the chain does with further chunks does not depend on the filters
  registered before \<open>i\<close>, which never see them.\<close>

lemma blocked_chain_skips_earlier_filters:
  assumes "blocked st" "blocked_filter_index st < length fs"
    and "length gs = length fs" "drop (blocked_filter_index st) gs = drop (blocked_filter_index st) fs"
  shows "apply_request_data gs x e st ctx = apply_request_data fs x e st ctx"
proof -
  have nth: "gs ! i = fs ! i" if "blocked_filter_index st \<le> i" "i < length fs" for i
  proof -
    have "drop (blocked_filter_index st) gs ! (i - blocked_filter_index st) =
        drop (blocked_filter_index st) fs ! (i - blocked_filter_index st)" by (simp add: assms(4))
    with that assms(3) show ?thesis by simp
  qed
  have loop: "apply_data_loop step gs is e b d cur s c = apply_data_loop step fs is e b d cur s c"
    if "set is \<subseteq> {blocked_filter_index st..<length fs}" for step b d cur s c "is"
    using that
  proof (induction "is" arbitrary: cur s c)
    case (Cons i "is")
    then show ?case
      by (cases "step (fs ! i) cur e c"; cases "fst (step (fs ! i) cur e c)") (simp_all add: nth)
  qed simp
  have ne: "gs \<noteq> []" "fs \<noteq> []" using assms(2,3) by auto
  show ?thesis
    using assms(1,3) ne
    by (simp add: apply_request_data_def apply_data_def visit_order_def Let_def loop)
qed

lemma blocked_chain_skips_earlier_filters_example:
  "apply_request_data [scan_filter CHR ''x'', scan_filter CHR ''y''] ''x'' True
      \<lparr>blocked = True, blocked_filter_index = 1, di_buffer = ''a''\<rparr> (Map.empty :: nat FilterContext) =
   apply_request_data [IFilter_default, scan_filter CHR ''y''] ''x'' True
      \<lparr>blocked = True, blocked_filter_index = 1, di_buffer = ''a''\<rparr> Map.empty"
  by (rule blocked_chain_skips_earlier_filters) simp_all

text \<open>The header phase is an onion. Requests pass the filters in registration order and
  responses in the opposite order, and the first filter that answers directly ends the walk:
  the filters behind it see nothing.\<close>

lemma header_phase_onion:
  "apply_request (fs @ gs) rq ctx =
     (case apply_request fs rq ctx of
        (fh_continue, rq', ctx') \<Rightarrow> apply_request gs rq' ctx'
      | (fh_respond d, rq', ctx') \<Rightarrow> (fh_respond d, rq', ctx')) \<and>
   apply_response (fs @ gs) rs ctx =
     (case apply_response gs rs ctx of
        (fh_continue, rs', ctx') \<Rightarrow> apply_response fs rs' ctx'
      | (fh_respond d, rs', ctx') \<Rightarrow> (fh_respond d, rs', ctx')) \<and>
   apply_request [f] rq ctx = on_request f rq ctx \<and>
   apply_response [f] rs ctx = on_response f rs ctx"
  by (intro conjI apply_request_append apply_response_append apply_single)


end
