(* ===== verification/Shard_Resources.thy ===== *)
theory Shard_Resources
  imports Prelude "HOL-Library.Word"
begin

text \<open>
  The shard-local resources of \<open>src/util/\<close>: \<open>BufferPool\<close> (a bounded free list of fixed-size
  buffers) and \<open>LocalMetrics\<close> (eight \<open>std::atomic<uint64_t>\<close> counters, written by the owning
  shard only, so that a relaxed \<open>fetch_add\<close> is an addition modulo 2 to the 64). The locale
  \<open>resource_pool\<close> is the contract the sessions rely on, interpreted on \<open>BufferPool\<close>.
\<close>

section \<open>BufferPool\<close>

record BufferPool =
  buffer_size :: nat
  max_free :: nat
  free_list :: "byte_list list"

definition BufferPool_new :: "nat \<Rightarrow> nat \<Rightarrow> BufferPool" where
  "BufferPool_new sz mx = \<lparr>buffer_size = sz, max_free = mx, free_list = []\<rparr>"

text \<open>\<open>acquire\<close> takes the most recently released buffer, or allocates a zero-filled one. The
  free list grows at its end (\<open>push_back\<close>, \<open>back\<close>, \<open>pop_back\<close>).\<close>

definition BufferPool_acquire :: "BufferPool \<Rightarrow> byte_list \<times> BufferPool" where
  "BufferPool_acquire p =
     (if free_list p \<noteq> [] then (last (free_list p), p\<lparr>free_list := butlast (free_list p)\<rparr>)
      else (replicate (buffer_size p) (CHR 0x00), p))"

text \<open>\<open>release\<close>: a null pointer is ignored, and a buffer beyond the limit is dropped.\<close>

definition BufferPool_release :: "byte_list option \<Rightarrow> BufferPool \<Rightarrow> BufferPool" where
  "BufferPool_release buf p =
     (case buf of
        None \<Rightarrow> p
      | Some b \<Rightarrow> if length (free_list p) \<ge> max_free p then p
                  else p\<lparr>free_list := free_list p @ [b]\<rparr>)"

definition BufferPool_free_count :: "BufferPool \<Rightarrow> nat" where
  "BufferPool_free_count p = length (free_list p)"

definition pool_invar :: "BufferPool \<Rightarrow> bool" where
  "pool_invar p \<longleftrightarrow> length (free_list p) \<le> max_free p \<and>
     (\<forall>b \<in> set (free_list p). length b = buffer_size p)"

section \<open>LocalMetrics\<close>

record LocalMetrics =
  connections_accepted :: "64 word"
  connections_active :: "64 word"
  connections_closed :: "64 word"
  bytes_downstream_to_upstream :: "64 word"
  bytes_upstream_to_downstream :: "64 word"
  upstream_connect_errors :: "64 word"
  requests_handled :: "64 word"
  upstream_retries :: "64 word"

definition LocalMetrics_init :: LocalMetrics where
  "LocalMetrics_init =
     \<lparr>connections_accepted = 0, connections_active = 0, connections_closed = 0,
      bytes_downstream_to_upstream = 0, bytes_upstream_to_downstream = 0,
      upstream_connect_errors = 0, requests_handled = 0, upstream_retries = 0\<rparr>"

definition on_accept :: "LocalMetrics \<Rightarrow> LocalMetrics" where
  "on_accept m = m\<lparr>connections_accepted := connections_accepted m + 1,
                   connections_active := connections_active m + 1\<rparr>"

definition on_close :: "LocalMetrics \<Rightarrow> LocalMetrics" where
  "on_close m = m\<lparr>connections_closed := connections_closed m + 1,
                  connections_active := connections_active m - 1\<rparr>"

text \<open>The balance the counters keep, also across wrap-around.\<close>

definition metrics_balanced :: "LocalMetrics \<Rightarrow> bool" where
  "metrics_balanced m \<longleftrightarrow>
     connections_accepted m = connections_active m + connections_closed m"

section \<open>The pool contract\<close>

text \<open>A pool of buffers: what a client may rely on. \<open>size_of\<close> is the size every buffer has,
  \<open>idle\<close> the number of buffers kept for reuse, \<open>cap\<close> the most it keeps.\<close>

locale resource_pool =
  fixes acquire :: "'p \<Rightarrow> byte_list \<times> 'p"
    and release :: "byte_list option \<Rightarrow> 'p \<Rightarrow> 'p"
    and size_of :: "'p \<Rightarrow> nat"
    and cap :: "'p \<Rightarrow> nat"
    and idle :: "'p \<Rightarrow> nat"
    and invar :: "'p \<Rightarrow> bool"
  assumes acquire_invar: "invar p \<Longrightarrow> invar (snd (acquire p))"
    and acquire_size: "invar p \<Longrightarrow> length (fst (acquire p)) = size_of p"
    and acquire_idle: "invar p \<Longrightarrow> idle (snd (acquire p)) = idle p - 1"
    and acquire_consts: "size_of (snd (acquire p)) = size_of p" "cap (snd (acquire p)) = cap p"
    and release_invar: "invar p \<Longrightarrow> length b = size_of p \<Longrightarrow> invar (release (Some b) p)"
    and release_idle: "invar p \<Longrightarrow> idle (release (Some b) p) = min (cap p) (idle p + 1)"
    and release_none: "release None p = p"
    and release_consts: "size_of (release bo p) = size_of p" "cap (release bo p) = cap p"
    and invar_bound: "invar p \<Longrightarrow> idle p \<le> cap p"
    and reuse: "invar p \<Longrightarrow> idle p < cap p \<Longrightarrow> acquire (release (Some b) p) = (b, p)"
begin

text \<open>A session's borrow of two buffers and its return leave the pool no smaller, and within
  its limit.\<close>

lemma borrow_two_return:
  assumes "invar p" "acquire p = (b1, p1)" "acquire p1 = (b2, p2)"
    and "length c1 = size_of p" "length c2 = size_of p"
  shows "invar (release (Some c2) (release (Some c1) p2)) \<and>
         length b1 = size_of p \<and> length b2 = size_of p \<and>
         idle p \<le> idle (release (Some c2) (release (Some c1) p2))"
proof -
  have p1: "invar p1" "size_of p1 = size_of p" "cap p1 = cap p" "idle p1 = idle p - 1"
    "length b1 = size_of p"
    using assms(1,2) acquire_invar[of p] acquire_consts[of p] acquire_idle[of p] acquire_size[of p]
    by auto
  have p2: "invar p2" "size_of p2 = size_of p" "cap p2 = cap p" "idle p2 = idle p - 2"
    "length b2 = size_of p"
    using assms(3) p1 acquire_invar[of p1] acquire_consts[of p1] acquire_idle[of p1]
      acquire_size[of p1] by auto
  have r1: "invar (release (Some c1) p2)" using p2 assms(4) by (simp add: release_invar)
  then have "invar (release (Some c2) (release (Some c1) p2))"
    using p2 assms(5) by (simp add: release_invar release_consts)
  moreover have "idle p \<le> cap p" by (rule invar_bound[OF assms(1)])
  ultimately show ?thesis
    using p1 p2 r1 by (simp add: release_idle release_consts)
qed

end

section \<open>Lemmas\<close>

interpretation bp: resource_pool
  BufferPool_acquire BufferPool_release buffer_size max_free BufferPool_free_count pool_invar
  by unfold_locales
    (auto simp: pool_invar_def BufferPool_acquire_def BufferPool_release_def
      BufferPool_free_count_def dest: in_set_butlastD split: option.splits)

lemma pool_invar_new [simp]: "pool_invar (BufferPool_new sz mx)"
  by (simp add: pool_invar_def BufferPool_new_def)

lemma metrics_balanced_init [simp]: "metrics_balanced LocalMetrics_init"
  by (simp add: metrics_balanced_def LocalMetrics_init_def)

lemma metrics_balanced_on_accept [simp]: "metrics_balanced (on_accept m) = metrics_balanced m"
  by (simp add: metrics_balanced_def on_accept_def)

lemma metrics_balanced_on_close [simp]: "metrics_balanced (on_close m) = metrics_balanced m"
  by (simp add: metrics_balanced_def on_close_def)

end
