(* ===== verification/Gateway_Config.thy ===== *)
theory Gateway_Config
  imports Prelude "HOL-Library.Word"
begin

text \<open>
  The configuration of the gateway (\<open>src/config/config.hpp\<close>): the \<open>Config\<close> struct with its
  defaults, \<open>Config::from_file\<close> and \<open>Config::from_args\<close>. The JSON library and the file system
  are parameters (\<open>json_lib\<close>, the file reader); an exception of the library is an \<open>Inl\<close> value,
  and \<open>std::exit\<close> is a value of \<open>program_exit\<close> with its status and what was printed.
\<close>

section \<open>The configuration\<close>

record UpstreamEndpointConfig =
  cfg_host :: string
  cfg_port :: "16 word"

record Config =
  listen_port :: "16 word"
  shard_count :: nat
  cfg_buffer_size :: nat
  upstreams :: "UpstreamEndpointConfig list"
  dns_refresh_interval_seconds :: nat
  connection_pool_max_idle_per_endpoint :: nat
  connect_timeout_seconds :: nat
  buffer_pool_max_free :: nat
  metrics_report_interval_seconds :: nat
  body_buffer_high_watermark_bytes :: nat

text \<open>The default member initialisers; \<open>hw\<close> is \<open>std::thread::hardware_concurrency()\<close>.\<close>

definition Config_default :: "nat \<Rightarrow> Config" where
  "Config_default hw =
     \<lparr>listen_port = 8080, shard_count = hw, cfg_buffer_size = 64 * 1024, upstreams = [],
      dns_refresh_interval_seconds = 30, connection_pool_max_idle_per_endpoint = 8,
      connect_timeout_seconds = 5, buffer_pool_max_free = 256,
      metrics_report_interval_seconds = 10,
      body_buffer_high_watermark_bytes = 1 * 1024 * 1024\<rparr>"

section \<open>Loading\<close>

text \<open>What the loader uses of the JSON library: \<open>contains\<close>, \<open>at\<close>, \<open>get<T>\<close>, \<open>is_array\<close>,
  \<open>empty\<close> and iteration.\<close>

record 'j json_lib =
  json_parse :: "string \<Rightarrow> string + 'j"
  json_contains :: "'j \<Rightarrow> string \<Rightarrow> bool"
  json_at :: "'j \<Rightarrow> string \<Rightarrow> string + 'j"
  json_get_ushort :: "'j \<Rightarrow> string + 16 word"
  json_get_size :: "'j \<Rightarrow> string + nat"
  json_get_unsigned :: "'j \<Rightarrow> string + nat"
  json_get_string :: "'j \<Rightarrow> string + string"
  json_is_array :: "'j \<Rightarrow> bool"
  json_empty :: "'j \<Rightarrow> bool"
  json_items :: "'j \<Rightarrow> 'j list"

datatype program_exit = Exit int string

datatype load_failure = Thrown string | ExitCall program_exit

definition sum_bind :: "'e + 'a \<Rightarrow> ('a \<Rightarrow> 'e + 'b) \<Rightarrow> 'e + 'b" where
  "sum_bind x f = (case x of Inl e \<Rightarrow> Inl e | Inr a \<Rightarrow> f a)"

definition throws :: "string + 'a \<Rightarrow> load_failure + 'a" where
  "throws x = (case x of Inl e \<Rightarrow> Inl (Thrown e) | Inr a \<Rightarrow> Inr a)"

text \<open>\<open>if (j.contains(key)) config.field = j.at(key).get<T>();\<close>\<close>

definition load_field ::
  "'j json_lib \<Rightarrow> 'j \<Rightarrow> string \<Rightarrow> ('j \<Rightarrow> string + 'a) \<Rightarrow> ('a \<Rightarrow> Config \<Rightarrow> Config) \<Rightarrow> Config
     \<Rightarrow> load_failure + Config" where
  "load_field lib j key get upd c =
     (if json_contains lib j key
      then sum_bind (throws (json_at lib j key)) (\<lambda>v.
           sum_bind (throws (get v)) (\<lambda>x. Inr (upd x c)))
      else Inr c)"

fun load_upstreams ::
  "'j json_lib \<Rightarrow> 'j list \<Rightarrow> Config \<Rightarrow> load_failure + Config" where
  "load_upstreams lib [] c = Inr c"
| "load_upstreams lib (item # items) c =
     sum_bind (throws (json_at lib item ''host'')) (\<lambda>jh.
     sum_bind (throws (json_get_string lib jh)) (\<lambda>h.
     sum_bind (throws (json_at lib item ''port'')) (\<lambda>jp.
     sum_bind (throws (json_get_ushort lib jp)) (\<lambda>p.
     load_upstreams lib items
       (c\<lparr>upstreams := upstreams c @ [\<lparr>cfg_host = h, cfg_port = p\<rparr>]\<rparr>)))))"

definition upstreams_required :: program_exit where
  "upstreams_required = Exit 1 (''config: '' @ [CHR 0x22] @ ''upstreams'' @ [CHR 0x22] @
     '' must be a non-empty array'' @ [LF])"

definition check_upstreams :: "'j json_lib \<Rightarrow> 'j \<Rightarrow> Config \<Rightarrow> load_failure + Config" where
  "check_upstreams lib j c =
     (if \<not> json_contains lib j ''upstreams'' then Inl (ExitCall upstreams_required)
      else sum_bind (throws (json_at lib j ''upstreams'')) (\<lambda>u.
        if \<not> json_is_array lib u \<or> json_empty lib u then Inl (ExitCall upstreams_required)
        else load_upstreams lib (json_items lib u) c))"

text \<open>The body of the second \<open>try\<close> block.\<close>

definition load_fields :: "'j json_lib \<Rightarrow> 'j \<Rightarrow> Config \<Rightarrow> load_failure + Config" where
  "load_fields lib j c =
     sum_bind (load_field lib j ''listen_port'' (json_get_ushort lib)
                 (\<lambda>v c. c\<lparr>listen_port := v\<rparr>) c) (\<lambda>c.
     sum_bind (load_field lib j ''shard_count'' (json_get_size lib)
                 (\<lambda>v c. c\<lparr>shard_count := v\<rparr>) c) (\<lambda>c.
     sum_bind (load_field lib j ''buffer_size'' (json_get_size lib)
                 (\<lambda>v c. c\<lparr>cfg_buffer_size := v\<rparr>) c) (\<lambda>c.
     sum_bind (load_field lib j ''dns_refresh_interval_seconds'' (json_get_unsigned lib)
                 (\<lambda>v c. c\<lparr>dns_refresh_interval_seconds := v\<rparr>) c) (\<lambda>c.
     sum_bind (load_field lib j ''connection_pool_max_idle_per_endpoint'' (json_get_size lib)
                 (\<lambda>v c. c\<lparr>connection_pool_max_idle_per_endpoint := v\<rparr>) c) (\<lambda>c.
     sum_bind (load_field lib j ''connect_timeout_seconds'' (json_get_unsigned lib)
                 (\<lambda>v c. c\<lparr>connect_timeout_seconds := v\<rparr>) c) (\<lambda>c.
     sum_bind (load_field lib j ''buffer_pool_max_free'' (json_get_size lib)
                 (\<lambda>v c. c\<lparr>buffer_pool_max_free := v\<rparr>) c) (\<lambda>c.
     sum_bind (load_field lib j ''metrics_report_interval_seconds'' (json_get_unsigned lib)
                 (\<lambda>v c. c\<lparr>metrics_report_interval_seconds := v\<rparr>) c) (\<lambda>c.
     sum_bind (load_field lib j ''body_buffer_high_watermark_bytes'' (json_get_size lib)
                 (\<lambda>v c. c\<lparr>body_buffer_high_watermark_bytes := v\<rparr>) c) (\<lambda>c.
     check_upstreams lib j c)))))))))"

text \<open>\<open>read_file path\<close> is the content of the file, \<open>None\<close> when it cannot be opened.\<close>

definition from_file ::
  "'j json_lib \<Rightarrow> (string \<Rightarrow> string option) \<Rightarrow> nat \<Rightarrow> string \<Rightarrow> program_exit + Config" where
  "from_file lib read_file hw path =
     (case read_file path of
        None \<Rightarrow> Inl (Exit 1 (''Cannot open config file: '' @ path @ [LF]))
      | Some txt \<Rightarrow>
          (case json_parse lib txt of
             Inl e \<Rightarrow> Inl (Exit 1 (''Invalid JSON in '' @ path @ '': '' @ e @ [LF]))
           | Inr j \<Rightarrow>
               (case load_fields lib j (Config_default hw) of
                  Inl (Thrown e) \<Rightarrow>
                    Inl (Exit 1 (''config: malformed field in '' @ path @ '': '' @ e @ [LF]))
                | Inl (ExitCall x) \<Rightarrow> Inl x
                | Inr c \<Rightarrow> Inr (if shard_count c = 0 then c\<lparr>shard_count := 1\<rparr> else c))))"

definition usage :: string where
  "usage = ''Usage: perCoreShard --config <path/to/config.json>'' @ [LF]"

text \<open>The argument loop of \<open>from_args\<close> over \<open>argv[1..]\<close>, with the path seen so far.\<close>

fun parse_args :: "string list \<Rightarrow> string \<Rightarrow> program_exit + string" where
  "parse_args [] config_path = Inr config_path"
| "parse_args (arg # args) config_path =
     (if arg = ''--config'' then
        (case args of
           [] \<Rightarrow> Inl (Exit 1 (''Missing value for --config'' @ [LF]))
         | v # rest \<Rightarrow> parse_args rest v)
      else if arg = ''--help'' \<or> arg = ''-h'' then Inl (Exit 0 usage)
      else Inl (Exit 1 (''Unknown argument: '' @ arg @ [LF])))"

definition from_args ::
  "'j json_lib \<Rightarrow> (string \<Rightarrow> string option) \<Rightarrow> nat \<Rightarrow> string list \<Rightarrow> program_exit + Config" where
  "from_args lib read_file hw args =
     sum_bind (parse_args args []) (\<lambda>config_path.
       if config_path = [] then Inl (Exit 1 usage)
       else from_file lib read_file hw config_path)"

section \<open>Lemmas\<close>

lemma sum_bind_Inr_iff: "sum_bind x f = Inr b \<longleftrightarrow> (\<exists>a. x = Inr a \<and> f a = Inr b)"
  by (auto simp: sum_bind_def split: sum.splits)

lemma sum_bind_Inl_iff:
  "sum_bind x f = Inl e \<longleftrightarrow> x = Inl e \<or> (\<exists>a. x = Inr a \<and> f a = Inl e)"
  by (auto simp: sum_bind_def split: sum.splits)

lemma throws_iff [simp]:
  "throws x = Inr a \<longleftrightarrow> x = Inr a"
  "throws x = Inl e \<longleftrightarrow> (\<exists>m. e = Thrown m \<and> x = Inl m)"
  by (auto simp: throws_def split: sum.splits)

lemma load_upstreams_appends:
  "load_upstreams lib items c = Inr c' \<Longrightarrow>
     \<exists>us. c' = c\<lparr>upstreams := upstreams c @ us\<rparr> \<and> length us = length items"
proof (induction items arbitrary: c)
  case Nil
  then show ?case by (intro exI[of _ "[]"]) simp
next
  case (Cons item items)
  then obtain u where "load_upstreams lib items (c\<lparr>upstreams := upstreams c @ [u]\<rparr>) = Inr c'"
    by (auto simp: sum_bind_Inr_iff)
  from Cons.IH[OF this] obtain us where
    "c' = c\<lparr>upstreams := upstreams c @ [u] @ us\<rparr>" "length us = length items" by auto
  then show ?case by (intro exI[of _ "u # us"]) simp
qed

lemma load_field_exit: "load_field lib j k g u c = Inl (ExitCall x) \<Longrightarrow> P"
  by (auto simp: load_field_def sum_bind_Inl_iff split: if_splits)

lemma load_upstreams_exit: "load_upstreams lib items c = Inl (ExitCall x) \<Longrightarrow> P"
  by (induction items arbitrary: c) (auto simp: sum_bind_Inl_iff)

lemma load_fields_exit:
  "load_fields lib j c = Inl (ExitCall x) \<Longrightarrow> x = upstreams_required"
  by (auto simp: load_fields_def check_upstreams_def sum_bind_Inl_iff
      elim!: load_field_exit load_upstreams_exit split: if_splits)

lemma parse_args_exit_zero:
  "parse_args args p = Inl (Exit 0 m) \<Longrightarrow> ''--help'' \<in> set args \<or> ''-h'' \<in> set args"
  by (induction args p rule: parse_args.induct) (auto split: if_splits list.splits)

lemma load_field_bindE:
  assumes "sum_bind (load_field lib j k g u c) f = Inr c'"
    and "\<And>v c. upstreams (u v c) = upstreams c"
  obtains c1 where "upstreams c1 = upstreams c" "f c1 = Inr c'"
  using assms by (auto simp: load_field_def sum_bind_Inr_iff split: if_splits)

lemma check_upstreams_ok:
  assumes "check_upstreams lib j c = Inr c'"
  shows "\<exists>u us. json_at lib j ''upstreams'' = Inr u \<and> json_is_array lib u \<and> \<not> json_empty lib u \<and>
     c' = c\<lparr>upstreams := upstreams c @ us\<rparr> \<and> length us = length (json_items lib u)"
  using assms
  by (auto simp: check_upstreams_def sum_bind_Inr_iff dest!: load_upstreams_appends split: if_splits)

lemma load_fields_upstreams:
  assumes "load_fields lib j c = Inr c'"
  shows "\<exists>u us. json_at lib j ''upstreams'' = Inr u \<and> json_is_array lib u \<and> \<not> json_empty lib u \<and>
     upstreams c' = upstreams c @ us \<and> length us = length (json_items lib u)"
proof -
  from assms obtain c1 where "upstreams c1 = upstreams c" "check_upstreams lib j c1 = Inr c'"
    unfolding load_fields_def by (elim load_field_bindE) simp_all
  with check_upstreams_ok[of lib j c1 c'] show ?thesis by auto
qed

lemma load_field_absent: "\<not> json_contains lib j k \<Longrightarrow> load_field lib j k g u c = Inr c"
  by (simp add: load_field_def)

lemma from_file_ready:
  assumes items: "\<And>u. json_is_array lib u \<Longrightarrow> json_items lib u = [] \<Longrightarrow> json_empty lib u"
    and ok: "from_file lib read_file hw path = Inr c"
  shows "1 \<le> shard_count c \<and> upstreams c \<noteq> []"
proof -
  from ok obtain j c0 where l: "load_fields lib j (Config_default hw) = Inr c0"
    and c: "c = (if shard_count c0 = 0 then c0\<lparr>shard_count := 1\<rparr> else c0)"
    by (auto simp: from_file_def split: option.splits sum.splits load_failure.splits)
  from load_fields_upstreams[OF l] items have "upstreams c0 \<noteq> []" by auto
  with c show ?thesis by auto
qed

section \<open>A concrete library for the witnesses\<close>

datatype json_value =
  JObj "(string \<times> json_value) list" | JArr "json_value list" | JNum nat | JStr string

definition sample_json :: "json_value \<Rightarrow> json_value json_lib" where
  "sample_json doc =
     \<lparr>json_parse = (\<lambda>_. Inr doc),
      json_contains = (\<lambda>j k. case j of JObj kvs \<Rightarrow> map_of kvs k \<noteq> None | _ \<Rightarrow> False),
      json_at = (\<lambda>j k. case j of
          JObj kvs \<Rightarrow> (case map_of kvs k of None \<Rightarrow> Inl ''key not found'' | Some v \<Rightarrow> Inr v)
        | _ \<Rightarrow> Inl ''cannot use at()''),
      json_get_ushort = (\<lambda>j. case j of JNum n \<Rightarrow> Inr (of_nat n) | _ \<Rightarrow> Inl ''type must be number''),
      json_get_size = (\<lambda>j. case j of JNum n \<Rightarrow> Inr n | _ \<Rightarrow> Inl ''type must be number''),
      json_get_unsigned = (\<lambda>j. case j of JNum n \<Rightarrow> Inr n | _ \<Rightarrow> Inl ''type must be number''),
      json_get_string = (\<lambda>j. case j of JStr s \<Rightarrow> Inr s | _ \<Rightarrow> Inl ''type must be string''),
      json_is_array = (\<lambda>j. case j of JArr _ \<Rightarrow> True | _ \<Rightarrow> False),
      json_empty = (\<lambda>j. case j of JArr xs \<Rightarrow> xs = [] | JObj kvs \<Rightarrow> kvs = [] | _ \<Rightarrow> False),
      json_items = (\<lambda>j. case j of JArr xs \<Rightarrow> xs | _ \<Rightarrow> [])\<rparr>"

definition sample_doc :: json_value where
  "sample_doc = JObj [(''shard_count'', JNum 0),
     (''upstreams'', JArr [JObj [(''host'', JStr ''10.0.0.1''), (''port'', JNum 9000)]])]"

definition sample_plain_doc :: json_value where
  "sample_plain_doc = JObj [(''upstreams'',
     JArr [JObj [(''host'', JStr ''10.0.0.1''), (''port'', JNum 9000)]])]"

section \<open>Properties\<close>

text \<open>A configuration that \<open>from_file\<close> returns has at least one shard and one upstream per
  element of the \<open>upstreams\<close> array, so at least one: the round-robin over upstreams and over
  shards never divides by zero.\<close>

lemma from_file_usable:
  assumes items: "\<And>u. json_is_array lib u \<Longrightarrow> json_items lib u = [] \<Longrightarrow> json_empty lib u"
    and ok: "from_file lib read_file hw path = Inr c"
  shows "1 \<le> shard_count c \<and> upstreams c \<noteq> []"
  by (rule from_file_ready[OF assms])

lemma from_file_usable_example:
  "\<exists>c. from_file (sample_json sample_doc) (\<lambda>_. Some ''doc'') 0 ''gw.json'' = Inr c \<and>
       1 \<le> shard_count c \<and> upstreams c \<noteq> []"
proof -
  have items: "json_is_array (sample_json sample_doc) u \<Longrightarrow>
      json_items (sample_json sample_doc) u = [] \<Longrightarrow> json_empty (sample_json sample_doc) u" for u
    by (cases u) (auto simp: sample_json_def)
  have "\<exists>c. from_file (sample_json sample_doc) (\<lambda>_. Some ''doc'') 0 ''gw.json'' = Inr c"
    by (simp add: from_file_def sample_json_def sample_doc_def load_fields_def load_field_def
        check_upstreams_def sum_bind_def throws_def)
  then obtain c where
    c: "from_file (sample_json sample_doc) (\<lambda>_. Some ''doc'') 0 ''gw.json'' = Inr c" by blast
  from from_file_usable[OF items c] c show ?thesis by blast
qed

text \<open>Fields that the document does not mention keep their documented defaults, with a
  hardware concurrency of zero read as one shard.\<close>

lemma from_file_defaults:
  assumes "read_file path = Some txt" "json_parse lib txt = Inr j"
    and "\<And>k. json_contains lib j k \<Longrightarrow> k = ''upstreams''"
    and "from_file lib read_file hw path = Inr c"
  shows "c = (Config_default hw)\<lparr>shard_count := max 1 hw, upstreams := upstreams c\<rparr>"
proof -
  have no: "\<not> json_contains lib j k" if "k \<noteq> ''upstreams''" for k
    using assms(3) that by blast
  have "load_fields lib j (Config_default hw) = check_upstreams lib j (Config_default hw)"
    by (simp add: load_fields_def load_field_absent no sum_bind_def)
  with assms obtain c0 where cu: "check_upstreams lib j (Config_default hw) = Inr c0"
    and c: "c = (if shard_count c0 = 0 then c0\<lparr>shard_count := 1\<rparr> else c0)"
    by (auto simp: from_file_def split: sum.splits load_failure.splits)
  from cu obtain us where "c0 = (Config_default hw)\<lparr>upstreams := us\<rparr>"
    using check_upstreams_ok by fastforce
  with c show ?thesis by (auto simp: Config_default_def)
qed

lemma from_file_defaults_example:
  "\<exists>c. from_file (sample_json sample_plain_doc) (\<lambda>_. Some ''doc'') 4 ''gw.json'' = Inr c \<and>
       c = (Config_default 4)\<lparr>shard_count := max 1 4, upstreams := upstreams c\<rparr>"
proof -
  let ?lib = "sample_json sample_plain_doc"
  have no: "json_contains ?lib sample_plain_doc k \<Longrightarrow> k = ''upstreams''" for k
    by (auto simp: sample_json_def sample_plain_doc_def split: if_splits)
  have "\<exists>c. from_file ?lib (\<lambda>_. Some ''doc'') 4 ''gw.json'' = Inr c"
    by (simp add: from_file_def sample_json_def sample_plain_doc_def load_fields_def load_field_def
        check_upstreams_def sum_bind_def throws_def)
  then obtain c where c: "from_file ?lib (\<lambda>_. Some ''doc'') 4 ''gw.json'' = Inr c" by blast
  have p: "json_parse ?lib ''doc'' = Inr sample_plain_doc" by (simp add: sample_json_def)
  have rd: "(\<lambda>_. Some ''doc'') ''gw.json'' = Some ''doc''" by simp
  from from_file_defaults[OF rd p no c] c show ?thesis by blast
qed

text \<open>C29. The process exits with status 0 from argument handling only when help was asked for;
  every other way out of \<open>from_args\<close> without a configuration has status 1.\<close>

theorem from_args_exit_status:
  assumes "from_args lib read_file hw args = Inl (Exit code msg)"
  shows "code = 1 \<or> code = 0 \<and> msg = usage \<and> (''--help'' \<in> set args \<or> ''-h'' \<in> set args)"
proof -
  have pa: "parse_args as p = Inl (Exit code msg) \<Longrightarrow>
      code = 1 \<or> code = 0 \<and> msg = usage \<and> (''--help'' \<in> set as \<or> ''-h'' \<in> set as)" for as p
    by (induction as p rule: parse_args.induct) (auto split: if_splits list.splits)
  have ff: "from_file lib read_file hw q = Inl (Exit code msg) \<Longrightarrow> code = 1" for q
    by (auto simp: from_file_def upstreams_required_def
        dest!: load_fields_exit split: option.splits sum.splits load_failure.splits)
  from assms show ?thesis
    by (auto simp: from_args_def sum_bind_Inl_iff dest: pa ff split: if_splits)
qed

theorem from_args_exit_status_witness:
  "from_args (sample_json sample_doc) (\<lambda>_. None) 2 [''-h''] = Inl (Exit 0 usage) \<and>
   (''--help'' \<in> set [''-h''] \<or> ''-h'' \<in> set [''-h''])"
proof -
  have e: "from_args (sample_json sample_doc) (\<lambda>_. None) 2 [''-h''] = Inl (Exit 0 usage)"
    by (simp add: from_args_def sum_bind_def)
  from from_args_exit_status[OF e] e show ?thesis by simp
qed

end
