(* ===== verification/Upstream_Manager.thy ===== *)
theory Upstream_Manager
  imports Net_Core Gateway_Config "HOL-Library.Multiset"
begin

text \<open>
  \<open>UpstreamManager\<close> (\<open>src/upstream/upstream_manager.{hpp,cpp}\<close>): per-shard endpoint selection,
  DNS refresh and the idle connection pools. Sockets are numbered; \<open>acquire_connection\<close> either
  hands out a pooled socket before it returns or starts a connection attempt, whose outcome
  reaches the caller through \<open>deliver_result\<close> when the race of \<open>Net_Core\<close> ends. Out-of-range
  indices and the modulo by an empty endpoint list are undefined behaviour in the source and
  \<open>None\<close> here. The locale \<open>connection_pool\<close> is what the sessions rely on.
\<close>

section \<open>State\<close>

type_synonym socket_id = nat

record um_endpoint =
  ep_host :: string
  ep_port :: "16 word"
  ep_resolved :: Endpoint

record UpstreamManager =
  um_config :: Config
  endpoints :: "um_endpoint list"
  next_endpoint :: nat
  idle_pools :: "socket_id list list"

definition UpstreamManager_new :: "Config \<Rightarrow> UpstreamManager" where
  "UpstreamManager_new cfg =
     \<lparr>um_config = cfg,
      endpoints = map (\<lambda>u. \<lparr>ep_host = cfg_host u, ep_port = cfg_port u,
                            ep_resolved = Endpoint_init\<rparr>) (upstreams cfg),
      next_endpoint = 0,
      idle_pools = replicate (length (upstreams cfg)) []\<rparr>"

section \<open>DNS\<close>

text \<open>The resolver is a parameter: host and port to an error and the addresses found.\<close>

type_synonym resolver = "string \<Rightarrow> 16 word \<Rightarrow> Error \<times> Endpoint list"

definition resolve_endpoint :: "resolver \<Rightarrow> um_endpoint \<Rightarrow> um_endpoint" where
  "resolve_endpoint resolve ep =
     (let (err, results) = resolve (ep_host ep) (ep_port ep) in
      if \<not> Error_ok err \<or> results = [] then ep
      else ep\<lparr>ep_resolved := hd results\<rparr>)"

definition resolve_all :: "resolver \<Rightarrow> UpstreamManager \<Rightarrow> UpstreamManager" where
  "resolve_all resolve um = um\<lparr>endpoints := map (resolve_endpoint resolve) (endpoints um)\<rparr>"

text \<open>\<open>start\<close> and the refresh timer's callback; the second component is the delay the timer is
  armed with, if it is.\<close>

definition schedule_refresh :: "UpstreamManager \<Rightarrow> nat option" where
  "schedule_refresh um = Some (dns_refresh_interval_seconds (um_config um))"

definition UpstreamManager_start :: "resolver \<Rightarrow> UpstreamManager \<Rightarrow> UpstreamManager \<times> nat option" where
  "UpstreamManager_start resolve um =
     (let um1 = resolve_all resolve um in (um1, schedule_refresh um1))"

definition on_refresh_timer ::
  "Error \<Rightarrow> resolver \<Rightarrow> UpstreamManager \<Rightarrow> UpstreamManager \<times> nat option" where
  "on_refresh_timer err resolve um =
     (if \<not> Error_ok err then (um, None)
      else let um1 = resolve_all resolve um in (um1, schedule_refresh um1))"

section \<open>Selection and pooling\<close>

definition select_endpoint :: "UpstreamManager \<Rightarrow> (nat \<times> UpstreamManager) option" where
  "select_endpoint um =
     (if endpoints um = [] then None
      else let idx = next_endpoint um in
           Some (idx, um\<lparr>next_endpoint := (next_endpoint um + 1) mod length (endpoints um)\<rparr>))"

datatype acquisition = Pooled socket_id | Connecting Endpoint nat

text \<open>\<open>connect_fresh\<close>: the address a new socket is connected to and the timeout of the race.\<close>

definition connect_fresh :: "nat \<Rightarrow> UpstreamManager \<Rightarrow> acquisition option" where
  "connect_fresh index um =
     (if index < length (endpoints um)
      then Some (Connecting (ep_resolved (endpoints um ! index))
                   (connect_timeout_seconds (um_config um)))
      else None)"

definition acquire_connection ::
  "nat \<Rightarrow> UpstreamManager \<Rightarrow> (acquisition \<times> UpstreamManager) option" where
  "acquire_connection index um =
     (if index \<ge> length (idle_pools um) then None
      else let pool = idle_pools um ! index in
           if pool \<noteq> []
           then Some (Pooled (last pool), um\<lparr>idle_pools := (idle_pools um)[index := butlast pool]\<rparr>)
           else map_option (\<lambda>a. (a, um)) (connect_fresh index um))"

definition acquire_fresh_connection ::
  "nat \<Rightarrow> UpstreamManager \<Rightarrow> (acquisition \<times> UpstreamManager) option" where
  "acquire_fresh_connection index um = map_option (\<lambda>a. (a, um)) (connect_fresh index um)"

text \<open>What the caller's callback receives when the race ends with \<open>err\<close> for the new socket.\<close>

definition deliver_result :: "socket_id \<Rightarrow> Error \<Rightarrow> Error \<times> socket_id option" where
  "deliver_result sock err = (if \<not> Error_ok err then (err, None) else (Error_none, Some sock))"

text \<open>\<open>release_connection\<close>: the second component is the socket it closes, if the pool is full.\<close>

definition release_connection ::
  "nat \<Rightarrow> socket_id \<Rightarrow> UpstreamManager \<Rightarrow> (UpstreamManager \<times> socket_id option) option" where
  "release_connection index sock um =
     (if index \<ge> length (idle_pools um) then None
      else let pool = idle_pools um ! index in
           if length pool \<ge> connection_pool_max_idle_per_endpoint (um_config um)
           then Some (um, Some sock)
           else Some (um\<lparr>idle_pools := (idle_pools um)[index := pool @ [sock]]\<rparr>, None))"

section \<open>Invariant and the contract the sessions use\<close>

definition um_invar :: "UpstreamManager \<Rightarrow> bool" where
  "um_invar um \<longleftrightarrow>
     endpoints um \<noteq> [] \<and> next_endpoint um < length (endpoints um) \<and>
     length (idle_pools um) = length (endpoints um) \<and>
     (\<forall>p \<in> set (idle_pools um).
        length p \<le> connection_pool_max_idle_per_endpoint (um_config um))"

definition idle_sockets :: "UpstreamManager \<Rightarrow> socket_id multiset" where
  "idle_sockets um = mset (concat (idle_pools um))"

definition um_count :: "UpstreamManager \<Rightarrow> nat" where
  "um_count um = length (endpoints um)"

text \<open>A history of pool calls, the sockets it handed out and the sockets the pool closed.\<close>

datatype pool_op = Acquire nat | Release nat socket_id

fun run_pool ::
  "(nat \<Rightarrow> 'u \<Rightarrow> (acquisition \<times> 'u) option) \<Rightarrow>
   (nat \<Rightarrow> socket_id \<Rightarrow> 'u \<Rightarrow> ('u \<times> socket_id option) option) \<Rightarrow> pool_op list \<Rightarrow> 'u
     \<Rightarrow> ('u \<times> socket_id list \<times> socket_id list) option" where
  "run_pool acq rel [] u = Some (u, [], [])"
| "run_pool acq rel (Acquire i # ops) u =
     (case acq i u of
        None \<Rightarrow> None
      | Some (a, u1) \<Rightarrow>
          map_option (\<lambda>(u2, out, closed).
              (u2, (case a of Pooled s \<Rightarrow> [s] | Connecting _ _ \<Rightarrow> []) @ out, closed))
            (run_pool acq rel ops u1))"
| "run_pool acq rel (Release i s # ops) u =
     (case rel i s u of
        None \<Rightarrow> None
      | Some (u1, c) \<Rightarrow>
          map_option (\<lambda>(u2, out, closed).
              (u2, out, (case c of None \<Rightarrow> [] | Some x \<Rightarrow> [x]) @ closed))
            (run_pool acq rel ops u1))"

definition op_index :: "pool_op \<Rightarrow> nat" where
  "op_index x = (case x of Acquire i \<Rightarrow> i | Release i _ \<Rightarrow> i)"

definition released :: "pool_op list \<Rightarrow> socket_id list" where
  "released ops = List.map_filter (\<lambda>x. case x of Release _ s \<Rightarrow> Some s | _ \<Rightarrow> None) ops"

locale connection_pool =
  fixes acquire :: "nat \<Rightarrow> 'u \<Rightarrow> (acquisition \<times> 'u) option"
    and fresh :: "nat \<Rightarrow> 'u \<Rightarrow> (acquisition \<times> 'u) option"
    and release :: "nat \<Rightarrow> socket_id \<Rightarrow> 'u \<Rightarrow> ('u \<times> socket_id option) option"
    and count :: "'u \<Rightarrow> nat"
    and idle :: "'u \<Rightarrow> socket_id multiset"
    and invar :: "'u \<Rightarrow> bool"
  assumes acquire_ok:
      "invar u \<Longrightarrow> i < count u \<Longrightarrow>
         \<exists>a u'. acquire i u = Some (a, u') \<and> invar u' \<and> count u' = count u \<and>
                (case a of Pooled s \<Rightarrow> idle u = add_mset s (idle u') | Connecting _ _ \<Rightarrow> u' = u)"
    and fresh_ok:
      "invar u \<Longrightarrow> i < count u \<Longrightarrow> \<exists>e t. fresh i u = Some (Connecting e t, u)"
    and release_ok:
      "invar u \<Longrightarrow> i < count u \<Longrightarrow>
         \<exists>u' c. release i s u = Some (u', c) \<and> invar u' \<and> count u' = count u \<and>
                (case c of None \<Rightarrow> idle u' = add_mset s (idle u) | Some x \<Rightarrow> x = s \<and> u' = u)"
begin

text \<open>Over any history no socket is lost or duplicated: every socket that was idle or handed
  back is idle, handed out, or closed by the pool.\<close>

lemma run_accounting:
  assumes "invar u" "\<forall>x \<in> set ops. op_index x < count u"
  shows "\<exists>u' out closed. run_pool acquire release ops u = Some (u', out, closed) \<and> invar u' \<and>
     count u' = count u \<and>
     idle u + mset (released ops) = idle u' + mset out + mset closed"
  using assms
proof (induction ops arbitrary: u)
  case Nil
  then show ?case by (simp add: released_def map_filter_simps)
next
  case (Cons x ops)
  show ?case
  proof (cases x)
    case (Acquire i)
    then obtain a u1 where u1: "acquire i u = Some (a, u1)" "invar u1" "count u1 = count u"
      "case a of Pooled s \<Rightarrow> idle u = add_mset s (idle u1) | Connecting _ _ \<Rightarrow> u1 = u"
      using acquire_ok[of u i] Cons.prems by (auto simp: op_index_def)
    from Cons.IH[OF u1(2)] Cons.prems u1(3) obtain u' out closed where
      "run_pool acquire release ops u1 = Some (u', out, closed)" "invar u'" "count u' = count u1"
      "idle u1 + mset (released ops) = idle u' + mset out + mset closed" by auto
    with u1 Acquire show ?thesis
      by (auto simp: released_def map_filter_simps split: acquisition.splits)
  next
    case (Release i s)
    then obtain u1 c where u1: "release i s u = Some (u1, c)" "invar u1" "count u1 = count u"
      "case c of None \<Rightarrow> idle u1 = add_mset s (idle u) | Some x \<Rightarrow> x = s \<and> u1 = u"
      using release_ok[of u i s] Cons.prems by (auto simp: op_index_def)
    from Cons.IH[OF u1(2)] Cons.prems u1(3) obtain u' out closed where
      "run_pool acquire release ops u1 = Some (u', out, closed)" "invar u'" "count u' = count u1"
      "idle u1 + mset (released ops) = idle u' + mset out + mset closed" by auto
    with u1 Release show ?thesis
      by (auto simp: released_def map_filter_simps split: option.splits)
  qed
qed

end

section \<open>Lemmas\<close>

interpretation rr_um: round_robin select_endpoint next_endpoint um_count
  by unfold_locales (auto simp: select_endpoint_def um_count_def Let_def)

lemma um_invar_new: "upstreams cfg \<noteq> [] \<Longrightarrow> um_invar (UpstreamManager_new cfg)"
  by (auto simp: um_invar_def UpstreamManager_new_def)

lemma um_invar_resolve_all: "um_invar um \<Longrightarrow> um_invar (resolve_all r um)"
  by (auto simp: um_invar_def resolve_all_def)

lemma select_endpoint_invar:
  assumes "um_invar um"
  shows "\<exists>um'. select_endpoint um = Some (next_endpoint um, um') \<and> um_invar um' \<and>
     next_endpoint um < length (endpoints um') \<and> idle_pools um' = idle_pools um \<and>
     um_config um' = um_config um \<and> endpoints um' = endpoints um"
  using assms by (auto simp: um_invar_def select_endpoint_def Let_def)

lemma mset_concat_update:
  assumes "i < length xss"
  shows "mset (concat (xss[i := ys])) + mset (xss ! i) = mset (concat xss) + mset ys"
  using assms
proof (induction xss arbitrary: i)
  case (Cons xs xss)
  then show ?case by (cases i) (auto simp: ac_simps)
qed simp

lemma mset_butlast_last: "xs \<noteq> [] \<Longrightarrow> mset xs = add_mset (last xs) (mset (butlast xs))"
  by (induction xs) auto

lemma idle_acquire:
  assumes "i < length (idle_pools um)" "idle_pools um ! i \<noteq> []"
  shows "idle_sockets um = add_mset (last (idle_pools um ! i))
     (idle_sockets (um\<lparr>idle_pools := (idle_pools um)[i := butlast (idle_pools um ! i)]\<rparr>))"
  using mset_concat_update[OF assms(1), of "butlast (idle_pools um ! i)"]
    mset_butlast_last[OF assms(2)]
  by (simp add: idle_sockets_def)

lemma idle_release:
  assumes "i < length (idle_pools um)"
  shows "idle_sockets (um\<lparr>idle_pools := (idle_pools um)[i := idle_pools um ! i @ [s]]\<rparr>) =
     add_mset s (idle_sockets um)"
  using mset_concat_update[OF assms, of "idle_pools um ! i @ [s]"]
  by (simp add: idle_sockets_def)

lemma um_invar_pool_update:
  assumes "um_invar um" "length p \<le> connection_pool_max_idle_per_endpoint (um_config um)"
  shows "um_invar (um\<lparr>idle_pools := (idle_pools um)[i := p]\<rparr>)"
  using assms by (auto simp: um_invar_def dest!: set_update_subset_insert[THEN subsetD])

lemma um_pool_bound:
  "um_invar um \<Longrightarrow> i < length (idle_pools um) \<Longrightarrow>
     length (idle_pools um ! i) \<le> connection_pool_max_idle_per_endpoint (um_config um)"
  by (simp add: um_invar_def)

interpretation um_pool: connection_pool
  acquire_connection acquire_fresh_connection release_connection um_count idle_sockets um_invar
proof (unfold_locales, goal_cases)
  case (1 u i)
  then have i: "i < length (idle_pools u)" "i < length (endpoints u)"
    by (auto simp: um_invar_def um_count_def)
  show ?case
  proof (cases "idle_pools u ! i = []")
    case True
    with 1 i show ?thesis
      by (auto simp: acquire_connection_def connect_fresh_def Let_def)
  next
    case False
    with 1 i um_pool_bound[of u i] show ?thesis
      by (auto simp: acquire_connection_def Let_def um_count_def idle_acquire
          intro!: um_invar_pool_update)
  qed
next
  case (2 u i)
  then show ?case
    by (auto simp: acquire_fresh_connection_def connect_fresh_def um_count_def)
next
  case (3 u i s)
  then have "i < length (idle_pools u)" by (auto simp: um_invar_def um_count_def)
  with 3 show ?case
    by (auto simp: release_connection_def Let_def um_count_def idle_release
        intro!: um_invar_pool_update)
qed

section \<open>Properties\<close>

definition sample_config :: Config where
  "sample_config = (Config_default 2)\<lparr>shard_count := 2, cfg_buffer_size := 4, buffer_pool_max_free := 2,
     body_buffer_high_watermark_bytes := 8,
     upstreams := [\<lparr>cfg_host = ''a'', cfg_port = 1\<rparr>, \<lparr>cfg_host = ''b'', cfg_port = 2\<rparr>],
     connection_pool_max_idle_per_endpoint := 1\<rparr>"

text \<open>Endpoint selection is a fair round-robin: from any valid state, as many selections as
  there are endpoints succeed, choose every endpoint exactly once, and return the cursor to
  where it was.\<close>

lemma select_endpoint_fair:
  assumes "um_invar um"
  shows "\<exists>is um'. select_n select_endpoint (length (endpoints um)) um = Some (is, um') \<and>
     next_endpoint um' = next_endpoint um \<and> distinct is \<and> set is = {..<length (endpoints um)}"
  using rr_um.select_turn[of um] assms by (simp add: um_count_def um_invar_def)

lemma select_endpoint_fair_example:
  "\<exists>is um'. select_n select_endpoint (length (endpoints (UpstreamManager_new sample_config)))
       (UpstreamManager_new sample_config) = Some (is, um') \<and>
     next_endpoint um' = next_endpoint (UpstreamManager_new sample_config) \<and> distinct is \<and>
     set is = {..<length (endpoints (UpstreamManager_new sample_config))}"
  by (rule select_endpoint_fair) (simp add: um_invar_new sample_config_def)

text \<open>Socket accounting: over any history of \<open>acquire_connection\<close> and \<open>release_connection\<close>
  calls with valid endpoint indices, the calls succeed, the per-endpoint idle limit keeps
  holding, and every socket that was idle or handed back is exactly once idle, handed out, or
  closed by the pool.\<close>

lemma pool_accounting:
  assumes "um_invar um" "\<forall>x \<in> set ops. op_index x < length (endpoints um)"
  shows "\<exists>um' out closed. run_pool acquire_connection release_connection ops um =
       Some (um', out, closed) \<and> um_invar um' \<and>
     idle_sockets um + mset (released ops) = idle_sockets um' + mset out + mset closed"
  using um_pool.run_accounting[OF assms(1), of ops] assms(2) by (auto simp: um_count_def)

lemma pool_accounting_example:
  "\<exists>um' out closed. run_pool acquire_connection release_connection
       [Release 0 7, Release 0 8, Acquire 0] (UpstreamManager_new sample_config) =
       Some (um', out, closed) \<and> um_invar um' \<and>
     idle_sockets (UpstreamManager_new sample_config) +
       mset (released [Release 0 7, Release 0 8, Acquire 0]) =
     idle_sockets um' + mset out + mset closed"
  by (rule pool_accounting) (simp_all add: um_invar_new UpstreamManager_new_def sample_config_def
      op_index_def um_invar_def)

text \<open>The idle pool is last-in first-out: a released connection is the next one acquired
  for that endpoint and the manager is as before; at the limit the connection is closed
  instead and the pool is untouched; a retry's \<open>acquire_fresh_connection\<close> never takes a pooled
  connection.\<close>

lemma release_acquire_lifo:
  assumes "um_invar um" "i < length (endpoints um)"
  shows "(if length (idle_pools um ! i) < connection_pool_max_idle_per_endpoint (um_config um)
          then \<exists>um1. release_connection i s um = Some (um1, None) \<and>
                     acquire_connection i um1 = Some (Pooled s, um)
          else release_connection i s um = Some (um, Some s)) \<and>
         (\<exists>e t. acquire_fresh_connection i um = Some (Connecting e t, um))"
proof -
  have "i < length (idle_pools um)" using assms by (simp add: um_invar_def)
  with assms um_pool.fresh_ok[of um i] show ?thesis
    by (auto simp: release_connection_def acquire_connection_def Let_def um_count_def)
qed

lemma release_acquire_lifo_example:
  "(if length (idle_pools (UpstreamManager_new sample_config) ! 1) <
        connection_pool_max_idle_per_endpoint (um_config (UpstreamManager_new sample_config))
    then \<exists>um1. release_connection 1 7 (UpstreamManager_new sample_config) = Some (um1, None) \<and>
               acquire_connection 1 um1 = Some (Pooled 7, UpstreamManager_new sample_config)
    else release_connection 1 7 (UpstreamManager_new sample_config) =
           Some (UpstreamManager_new sample_config, Some 7)) \<and>
   (\<exists>e t. acquire_fresh_connection 1 (UpstreamManager_new sample_config) =
            Some (Connecting e t, UpstreamManager_new sample_config))"
  by (rule release_acquire_lifo)
    (simp_all add: um_invar_new UpstreamManager_new_def sample_config_def um_invar_def)

text \<open>A DNS refresh changes only resolved addresses, and an address only to the first result
  of a successful lookup of that endpoint: a failed or empty lookup keeps the previous one.
  Selection state, pools and the invariant are kept, and the timer is armed again exactly when
  it was not cancelled.\<close>

lemma dns_refresh_keeps_previous:
  assumes "um_invar um" "i < length (endpoints um)"
    and "on_refresh_timer err resolve um = (um', next)"
  shows "um_invar um' \<and> next_endpoint um' = next_endpoint um \<and> idle_pools um' = idle_pools um \<and>
     ep_host (endpoints um' ! i) = ep_host (endpoints um ! i) \<and>
     ep_resolved (endpoints um' ! i) =
       (case resolve (ep_host (endpoints um ! i)) (ep_port (endpoints um ! i)) of
          (e, rs) \<Rightarrow> if Error_ok err \<and> Error_ok e \<and> rs \<noteq> [] then hd rs
                      else ep_resolved (endpoints um ! i)) \<and>
     (next = None \<longleftrightarrow> \<not> Error_ok err)"
  using assms um_invar_resolve_all[OF assms(1), of resolve]
  by (auto simp: on_refresh_timer_def resolve_all_def resolve_endpoint_def schedule_refresh_def
      Let_def split_beta split: if_splits)

lemma dns_refresh_keeps_previous_example:
  "ep_resolved (endpoints (fst (on_refresh_timer Error_none
       (\<lambda>h p. if h = ''a'' then (Error_none, [\<lparr>host = ''10.0.0.1'', port = p\<rparr>])
               else (timeout_error, []))
       (UpstreamManager_new sample_config))) ! 1) = Endpoint_init"
proof -
  let ?r = "\<lambda>h p. if h = ''a'' then (Error_none, [\<lparr>host = ''10.0.0.1'', port = p\<rparr>])
                   else (timeout_error, [])"
  let ?u = "UpstreamManager_new sample_config"
  obtain um' nx where r: "on_refresh_timer Error_none ?r ?u = (um', nx)"
    by (cases "on_refresh_timer Error_none ?r ?u")
  have inv: "um_invar ?u" by (simp add: um_invar_new sample_config_def)
  have len: "1 < length (endpoints ?u)" by (simp add: UpstreamManager_new_def sample_config_def)
  from dns_refresh_keeps_previous[OF inv len r] r show ?thesis
    by (simp add: UpstreamManager_new_def sample_config_def)
qed

end
