(* ===== verification/Http_Session.thy ===== *)
theory Http_Session
  imports Serializer Llhttp_Parser Filters Shard_Resources Upstream_Manager
    "HOL-Library.Monad_Syntax"
begin

text \<open>
  \<open>HttpSession\<close> (\<open>src/session/http_session.{hpp,cpp}\<close>): one downstream connection, from accept to
  close. The record has the members of the class, the shard resources the session holds by
  reference, the asynchronous operations it has started and not yet heard of (\<open>pending\<close>), and
  what it did to its sockets and gave to its serializers (\<open>io\<close>, a log that no method reads). Every method is a function to an option, \<open>None\<close> where the
  source would dereference a null pointer or leave the bounds of a vector. A lambda passed to an
  asynchronous operation is a \<open>continuation\<close> and its body a handler; the event loop is the step
  relation of \<open>Http_Session_Proofs\<close>.
\<close>

section \<open>State\<close>

datatype continuation =
    AwaitRequestRead | AwaitAcquire | AwaitRequestWrite nat | AwaitRetryAcquire nat
  | AwaitRetryWrite | AwaitSnapshotAcquire | AwaitSnapshotWrite | AwaitResponseRead
  | AwaitResponseWrite

datatype io_event =
    DownstreamWrite byte_list | DownstreamClosed | UpstreamConnect Endpoint nat
  | UpstreamWrite socket_id byte_list | UpstreamClosed socket_id | UpstreamReleased socket_id
  | RequestStarted RequestHead | RequestBody byte_list bool
  | ResponseStarted bool ResponseHead | ResponseBody byte_list bool | NextRequest

record ('e, 'v) HttpSession =
  upstream :: "socket_id option"
  filter_ctx :: "'v FilterContext"
  body_filter_gate :: BodyFilterGate
  endpoint_index :: nat
  upstream_connecting :: bool
  upstream_wrote_once :: bool
  upstream_retry_used :: bool
  upstream_whole_request_captured :: bool
  upstream_whole_request_snapshot :: byte_list
  upstream_response_read_any :: bool
  read_buf :: "byte_list option"
  write_buf :: "byte_list option"
  request_parser :: "'e RequestParser option"
  request_serializer :: "serializer option"
  request_filtered :: bool
  request_serializer_started :: bool
  request_final_body_provided :: bool
  response_parser :: "'e ResponseParser option"
  response_serializer :: "serializer option"
  response_filtered :: bool
  response_serializer_started :: bool
  response_final_body_provided :: bool
  direct_response_mode :: bool
  downstream_wants_keep_alive :: bool
  downstream_keep_alive_effective :: bool
  closing :: bool
  upstream_manager :: UpstreamManager
  buffer_pool :: BufferPool
  metrics :: LocalMetrics
  pending :: "continuation list"
  io :: "io_event list"

definition HttpSession_new ::
  "nat \<Rightarrow> UpstreamManager \<Rightarrow> BufferPool \<Rightarrow> LocalMetrics \<Rightarrow> ('e, 'v) HttpSession" where
  "HttpSession_new watermark um pool m =
     \<lparr>upstream = None, filter_ctx = Map.empty, body_filter_gate = BodyFilterGate_new watermark,
      endpoint_index = 0, upstream_connecting = False, upstream_wrote_once = False,
      upstream_retry_used = False, upstream_whole_request_captured = False,
      upstream_whole_request_snapshot = [], upstream_response_read_any = False,
      read_buf = None, write_buf = None, request_parser = None, request_serializer = None,
      request_filtered = False, request_serializer_started = False,
      request_final_body_provided = False, response_parser = None, response_serializer = None,
      response_filtered = False, response_serializer_started = False,
      response_final_body_provided = False, direct_response_mode = False,
      downstream_wants_keep_alive = False, downstream_keep_alive_effective = False,
      closing = False, upstream_manager = um, buffer_pool = pool, metrics = m, pending = [],
      io = []\<rparr>"

text \<open>The size of \<open>body_scratch_\<close>.\<close>

definition body_scratch_size :: nat where
  "body_scratch_size = 4096"

text \<open>Assigning \<open>upstream_\<close> destroys, and so closes, the socket it owned before.\<close>

definition set_upstream :: "socket_id \<Rightarrow> ('e, 'v) HttpSession \<Rightarrow> ('e, 'v) HttpSession" where
  "set_upstream k s =
     s\<lparr>upstream := Some k,
       io := io s @ (case upstream s of None \<Rightarrow> [] | Some old \<Rightarrow> [UpstreamClosed old])\<rparr>"

section \<open>Closing\<close>

definition close_session :: "('e, 'v) HttpSession \<Rightarrow> ('e, 'v) HttpSession" where
  "close_session s =
     (if closing s then s
      else
        let s1 = s\<lparr>closing := True, io := io s @ [DownstreamClosed]\<rparr>;
            s2 = (case upstream s1 of
                    None \<Rightarrow> s1 | Some k \<Rightarrow> s1\<lparr>io := io s1 @ [UpstreamClosed k]\<rparr>);
            s3 = (case read_buf s2 of
                    None \<Rightarrow> s2
                  | Some b \<Rightarrow> s2\<lparr>read_buf := None,
                                buffer_pool := BufferPool_release (Some b) (buffer_pool s2)\<rparr>);
            s4 = (case write_buf s3 of
                    None \<Rightarrow> s3
                  | Some b \<Rightarrow> s3\<lparr>write_buf := None,
                                buffer_pool := BufferPool_release (Some b) (buffer_pool s3)\<rparr>)
        in s4\<lparr>metrics := on_close (metrics s4)\<rparr>)"

section \<open>Starting operations\<close>

definition read_request_chunk :: "('e, 'v) HttpSession \<Rightarrow> ('e, 'v) HttpSession option" where
  "read_request_chunk s =
     do { _ \<leftarrow> read_buf s; Some (s\<lparr>pending := pending s @ [AwaitRequestRead]\<rparr>) }"

definition read_response_chunk :: "('e, 'v) HttpSession \<Rightarrow> ('e, 'v) HttpSession option" where
  "read_response_chunk s =
     do { _ \<leftarrow> upstream s; _ \<leftarrow> read_buf s;
          Some (s\<lparr>pending := pending s @ [AwaitResponseRead]\<rparr>) }"

definition session_start ::
  "'e llhttp_engine \<Rightarrow> ('e, 'v) HttpSession \<Rightarrow> ('e, 'v) HttpSession option" where
  "session_start eng s =
     (let (rb, p1) = BufferPool_acquire (buffer_pool s);
          (wb, p2) = BufferPool_acquire p1
      in read_request_chunk
           (s\<lparr>metrics := on_accept (metrics s), read_buf := Some rb, write_buf := Some wb,
              buffer_pool := p2, request_parser := Some (create_request_parser eng),
              request_serializer := Some create_request_serializer\<rparr>))"

definition reset_for_next_request ::
  "'e llhttp_engine \<Rightarrow> ('e, 'v) HttpSession \<Rightarrow> ('e, 'v) HttpSession option" where
  "reset_for_next_request eng s =
     read_request_chunk
       (s\<lparr>io := io s @ [NextRequest], request_parser := Some (create_request_parser eng),
          request_serializer := Some create_request_serializer,
          request_filtered := False, request_serializer_started := False,
          request_final_body_provided := False, upstream_connecting := False,
          upstream_wrote_once := False, upstream_retry_used := False,
          upstream_whole_request_captured := False, upstream_whole_request_snapshot := [],
          upstream_response_read_any := False, response_parser := None,
          response_serializer := None, response_filtered := False,
          response_serializer_started := False, response_final_body_provided := False,
          direct_response_mode := False, downstream_wants_keep_alive := False,
          downstream_keep_alive_effective := False, filter_ctx := Map.empty,
          body_filter_gate := BodyFilterGate_reset (body_filter_gate s)\<rparr>)"

section \<open>Writing the response\<close>

text \<open>Lines 464-466 of \<open>pull_and_write_response_to_downstream\<close>: the reusable upstream connection
  goes back to the pool.\<close>

definition release_upstream :: "('e, 'v) HttpSession \<Rightarrow> ('e, 'v) HttpSession option" where
  "release_upstream s =
     (case (response_parser s, upstream s) of
        (Some rp, Some k) \<Rightarrow>
          if \<not> direct_response_mode s \<and> rs_should_keep_alive rp then
            do { (um, full) \<leftarrow> release_connection (endpoint_index s) k (upstream_manager s);
                 Some (s\<lparr>upstream := None, upstream_manager := um,
                        io := io s @ (case full of None \<Rightarrow> [UpstreamReleased k]
                                                 | Some x \<Rightarrow> [UpstreamClosed x])\<rparr>) }
          else Some s
      | _ \<Rightarrow> Some s)"

definition pull_and_write_response_to_downstream ::
  "'e llhttp_engine \<Rightarrow> ('e, 'v) HttpSession \<Rightarrow> ('e, 'v) HttpSession option" where
  "pull_and_write_response_to_downstream eng s =
     do {
       ser \<leftarrow> response_serializer s;
       wb \<leftarrow> write_buf s;
       let (out, ser1) = ResponseSerializer_pull (length wb) ser;
       let s1 = s\<lparr>response_serializer := Some ser1, write_buf := Some (overwrite wb out)\<rparr>;
       if out = [] then
         if ResponseSerializer_done ser1 then
           do { s2 \<leftarrow> release_upstream s1;
                if \<not> direct_response_mode s2 \<and> downstream_keep_alive_effective s2
                then reset_for_next_request eng s2
                else Some (close_session s2) }
         else if \<not> direct_response_mode s1 \<and>
                 (case response_parser s1 of None \<Rightarrow> False | Some rp \<Rightarrow> \<not> rs_message_done rp)
              then read_response_chunk s1
         else Some (close_session s1)
       else Some (s1\<lparr>pending := pending s1 @ [AwaitResponseWrite],
                     io := io s1 @ [DownstreamWrite out]\<rparr>)
     }"

definition respond_directly ::
  "'e llhttp_engine \<Rightarrow> ResponseHead \<Rightarrow> byte_list \<Rightarrow> ('e, 'v) HttpSession
     \<Rightarrow> ('e, 'v) HttpSession option" where
  "respond_directly eng head body s =
     pull_and_write_response_to_downstream eng
       (s\<lparr>direct_response_mode := True, response_serializer_started := True,
          io := io s @ [ResponseStarted True head, ResponseBody body True],
          response_serializer := Some (ResponseSerializer_provide_body body True
             (ResponseSerializer_start head create_response_serializer))\<rparr>)"

section \<open>Response phase\<close>

definition start_response_phase ::
  "'e llhttp_engine \<Rightarrow> ('e, 'v) HttpSession \<Rightarrow> ('e, 'v) HttpSession option" where
  "start_response_phase eng s =
     read_response_chunk (s\<lparr>response_parser := Some (create_response_parser eng),
                            response_serializer := Some create_response_serializer\<rparr>)"

text \<open>The result says whether the caller goes on with the relay.\<close>

definition process_response_data_chunk ::
  "'e llhttp_engine \<Rightarrow> 'v FilterChain \<Rightarrow> byte_list \<Rightarrow> bool \<Rightarrow> ('e, 'v) HttpSession
     \<Rightarrow> (bool \<times> ('e, 'v) HttpSession) option" where
  "process_response_data_chunk eng chain chunk end_stream s =
     (let (result, gate, ctx) = gate_apply_response chain chunk end_stream (body_filter_gate s)
                                  (filter_ctx s);
          s1 = s\<lparr>body_filter_gate := gate, filter_ctx := ctx\<rparr>
      in case result of
           kReject head body \<Rightarrow> map_option (Pair False) (respond_directly eng head body s1)
         | kStillBuffering \<Rightarrow> Some (True, s1)
         | kForward data \<Rightarrow>
             do { ser \<leftarrow> response_serializer s1;
                  Some (True, s1\<lparr>response_final_body_provided :=
                                   (end_stream \<or> response_final_body_provided s1),
                                 response_serializer :=
                                   Some (ResponseSerializer_provide_body data end_stream ser),
                                 io := io s1 @ [ResponseBody data end_stream]\<rparr>) })"

text \<open>The drain loop with its one-chunk lookahead; \<open>pend\<close> is \<open>pending\<close> if \<open>has_pending\<close>. The
  recursion is on the unread body of the parser, which the filters do not touch.\<close>

definition unread_response :: "('e, 'v) HttpSession \<Rightarrow> nat" where
  "unread_response s =
     (case response_parser s of None \<Rightarrow> 0 | Some rp \<Rightarrow> length (rs_scratch rp))"

lemma process_response_data_chunk_keeps_parser:
  assumes "process_response_data_chunk eng chain c e s = Some (True, s')"
  shows "response_parser s' = response_parser s"
  using assms by (auto simp: process_response_data_chunk_def Let_def split_beta
      split: GateResult.splits bind_splits)

lemma rs_read_body_progress:
  "rs_read_body cap rp = (out, rp1) \<Longrightarrow> out \<noteq> [] \<Longrightarrow> length (rs_scratch rp1) < length (rs_scratch rp)"
  by (auto simp: rs_read_body_def Let_def split: if_splits)

function drain_response_loop ::
  "'e llhttp_engine \<Rightarrow> 'v FilterChain \<Rightarrow> byte_list option \<Rightarrow> ('e, 'v) HttpSession
     \<Rightarrow> ('e, 'v) HttpSession option" where
  "drain_response_loop eng chain pend s =
     (case response_parser s of
        None \<Rightarrow> None
      | Some rp \<Rightarrow>
          (case rs_read_body body_scratch_size rp of (out, rp1) \<Rightarrow>
             if out = [] then
               (case pend of
                  None \<Rightarrow> Some s
                | Some c \<Rightarrow> map_option snd
                    (process_response_data_chunk eng chain c (rs_message_done rp) s))
             else
               (case pend of
                  None \<Rightarrow> drain_response_loop eng chain (Some out) (s\<lparr>response_parser := Some rp1\<rparr>)
                | Some c \<Rightarrow>
                    (case process_response_data_chunk eng chain c False
                            (s\<lparr>response_parser := Some rp1\<rparr>) of
                       None \<Rightarrow> None
                     | Some (goon, s2) \<Rightarrow>
                         if goon = False then Some s2
                         else drain_response_loop eng chain (Some out) s2))))"
  by pat_completeness auto
termination
  by (relation "measure (\<lambda>(eng, chain, pend, s). unread_response s)")
    (auto simp: unread_response_def
      dest!: rs_read_body_progress[OF sym] process_response_data_chunk_keeps_parser)

declare drain_response_loop.simps [simp del]

definition drain_response_body_into_serializer ::
  "'e llhttp_engine \<Rightarrow> 'v FilterChain \<Rightarrow> ('e, 'v) HttpSession \<Rightarrow> ('e, 'v) HttpSession option" where
  "drain_response_body_into_serializer eng chain s = drain_response_loop eng chain None s"

text \<open>Lines 357-377 of \<open>process_upstream_chunk\<close>, once per response: filters, keep-alive decision and
  start of the serializer. The result says whether the method returns.\<close>

definition filter_response_head ::
  "'e llhttp_engine \<Rightarrow> 'v FilterChain \<Rightarrow> ('e, 'v) HttpSession
     \<Rightarrow> (bool \<times> ('e, 'v) HttpSession) option" where
  "filter_response_head eng chain s =
     do {
       rp \<leftarrow> response_parser s;
       if \<not> response_filtered s \<and> rs_header_done rp then
         (let (result, head, ctx) = apply_response chain (rs_head rp) (filter_ctx s);
              s1 = s\<lparr>response_filtered := True, filter_ctx := ctx\<rparr>
          in case result of
               fh_respond d \<Rightarrow>
                 map_option (Pair True) (respond_directly eng (dr_head d) (dr_body d) s1)
             | fh_continue \<Rightarrow>
                 do {
                   ser \<leftarrow> response_serializer s1;
                   let framed = (has_header (resp_headers head) ''Content-Length'' \<or>
                                 has_chunked_encoding (resp_headers head));
                   let effective = (downstream_wants_keep_alive s1 \<and> framed);
                   let head1 = head\<lparr>resp_headers := set_header (resp_headers head) ''Connection''
                                     (if effective then ''keep-alive'' else ''close'')\<rparr>;
                   Some (False, s1\<lparr>downstream_keep_alive_effective := effective,
                                   response_serializer := Some (ResponseSerializer_start head1 ser),
                                   response_serializer_started := True,
                                   io := io s1 @ [ResponseStarted False head1]\<rparr>)
                 })
       else Some (False, s)
     }"

text \<open>The loop of \<open>process_upstream_chunk\<close>; the result says whether the method returns from it.\<close>

function response_loop ::
  "'e llhttp_engine \<Rightarrow> 'v FilterChain \<Rightarrow> byte_list \<Rightarrow> ('e, 'v) HttpSession
     \<Rightarrow> (bool \<times> ('e, 'v) HttpSession) option" where
  "response_loop eng chain raw s =
     (if raw = [] then Some (False, s)
      else case response_parser s of
        None \<Rightarrow> None
      | Some rp \<Rightarrow>
          (case rs_feed eng raw rp of (consumed, rp1) \<Rightarrow>
            (case filter_response_head eng chain (s\<lparr>response_parser := Some rp1\<rparr>) of
               None \<Rightarrow> None
             | Some (returned, s2) \<Rightarrow>
                 if returned then Some (True, s2)
                 else
                   (case (if response_serializer_started s2
                          then drain_response_body_into_serializer eng chain s2 else Some s2) of
                      None \<Rightarrow> None
                    | Some s3 \<Rightarrow>
                        if response_serializer_started s2 \<and> direct_response_mode s3
                        then Some (True, s3)
                        else if consumed = 0 then
                          (if rs_has_error rp1 then Some (True, close_session s3)
                           else Some (False, s3))
                        else response_loop eng chain (drop consumed raw) s3))))"
  by pat_completeness auto
termination
  by (relation "measure (\<lambda>(eng, chain, raw, s). length raw)") auto

declare response_loop.simps [simp del]

definition process_upstream_chunk ::
  "'e llhttp_engine \<Rightarrow> 'v FilterChain \<Rightarrow> byte_list \<Rightarrow> ('e, 'v) HttpSession
     \<Rightarrow> ('e, 'v) HttpSession option" where
  "process_upstream_chunk eng chain raw s =
     do {
       (returned, s1) \<leftarrow> response_loop eng chain raw s;
       if returned then Some s1
       else if \<not> response_serializer_started s1 then read_response_chunk s1
       else do {
         rp \<leftarrow> response_parser s1;
         s2 \<leftarrow> (if rs_message_done rp \<and> \<not> response_final_body_provided s1
               then do { ser \<leftarrow> response_serializer s1;
                         Some (s1\<lparr>response_final_body_provided := True,
                                  response_serializer :=
                                    Some (ResponseSerializer_provide_body [] True ser),
                                  io := io s1 @ [ResponseBody [] True]\<rparr>) }
               else Some s1);
         pull_and_write_response_to_downstream eng s2
       }
     }"

section \<open>Request phase\<close>

definition pull_and_write_request_to_upstream ::
  "'e llhttp_engine \<Rightarrow> ('e, 'v) HttpSession \<Rightarrow> ('e, 'v) HttpSession option" where
  "pull_and_write_request_to_upstream eng s =
     do {
       ser \<leftarrow> request_serializer s;
       wb \<leftarrow> write_buf s;
       let (out, ser1) = RequestSerializer_pull (length wb) ser;
       let s1 = s\<lparr>request_serializer := Some ser1, write_buf := Some (overwrite wb out)\<rparr>;
       if out = [] then
         if RequestSerializer_done ser1 then start_response_phase eng s1
         else do { rp \<leftarrow> request_parser s1;
                   if \<not> rq_message_done rp then read_request_chunk s1
                   else Some (close_session s1) }
       else
         do {
           let s2 = (if \<not> upstream_wrote_once s1 \<and> RequestSerializer_done ser1
                     then s1\<lparr>upstream_whole_request_snapshot := out,
                             upstream_whole_request_captured := True\<rparr>
                     else s1);
           k \<leftarrow> upstream s2;
           Some (s2\<lparr>pending := pending s2 @ [AwaitRequestWrite (length out)],
                    io := io s2 @ [UpstreamWrite k out]\<rparr>)
         }
     }"

text \<open>The callback of \<open>acquire_connection\<close>.\<close>

definition on_acquire ::
  "'e llhttp_engine \<Rightarrow> Error \<Rightarrow> socket_id option \<Rightarrow> ('e, 'v) HttpSession
     \<Rightarrow> ('e, 'v) HttpSession option" where
  "on_acquire eng err sock s =
     (case sock of
        Some k \<Rightarrow>
          if \<not> Error_ok err
          then Some (close_session (s\<lparr>metrics := (metrics s)
                 \<lparr>upstream_connect_errors := upstream_connect_errors (metrics s) + 1\<rparr>\<rparr>))
          else pull_and_write_request_to_upstream eng (set_upstream k s)
      | None \<Rightarrow> Some (close_session (s\<lparr>metrics := (metrics s)
                 \<lparr>upstream_connect_errors := upstream_connect_errors (metrics s) + 1\<rparr>\<rparr>)))"

definition connect_upstream ::
  "'e llhttp_engine \<Rightarrow> ('e, 'v) HttpSession \<Rightarrow> ('e, 'v) HttpSession option" where
  "connect_upstream eng s =
     do {
       (idx, um1) \<leftarrow> select_endpoint (upstream_manager s);
       (acq, um2) \<leftarrow> acquire_connection idx um1;
       let s1 = s\<lparr>endpoint_index := idx, upstream_manager := um2\<rparr>;
       case acq of
         Pooled k \<Rightarrow> on_acquire eng Error_none (Some k) s1
       | Connecting ep timeout \<Rightarrow>
           Some (s1\<lparr>pending := pending s1 @ [AwaitAcquire],
                    io := io s1 @ [UpstreamConnect ep timeout]\<rparr>)
     }"

definition process_request_data_chunk ::
  "'e llhttp_engine \<Rightarrow> 'v FilterChain \<Rightarrow> byte_list \<Rightarrow> bool \<Rightarrow> ('e, 'v) HttpSession
     \<Rightarrow> (bool \<times> ('e, 'v) HttpSession) option" where
  "process_request_data_chunk eng chain chunk end_stream s =
     (let (result, gate, ctx) = gate_apply_request chain chunk end_stream (body_filter_gate s)
                                  (filter_ctx s);
          s1 = s\<lparr>body_filter_gate := gate, filter_ctx := ctx\<rparr>
      in case result of
           kReject head body \<Rightarrow> map_option (Pair False) (respond_directly eng head body s1)
         | kStillBuffering \<Rightarrow> Some (True, s1)
         | kForward data \<Rightarrow>
             do { ser \<leftarrow> request_serializer s1;
                  Some (True, s1\<lparr>request_final_body_provided :=
                                   (end_stream \<or> request_final_body_provided s1),
                                 request_serializer :=
                                   Some (RequestSerializer_provide_body data end_stream ser),
                                 io := io s1 @ [RequestBody data end_stream]\<rparr>) })"

definition unread_request :: "('e, 'v) HttpSession \<Rightarrow> nat" where
  "unread_request s =
     (case request_parser s of None \<Rightarrow> 0 | Some rp \<Rightarrow> length (rq_scratch rp))"

lemma process_request_data_chunk_keeps_parser:
  assumes "process_request_data_chunk eng chain c e s = Some (True, s')"
  shows "request_parser s' = request_parser s"
  using assms by (auto simp: process_request_data_chunk_def Let_def split_beta
      split: GateResult.splits bind_splits)

lemma rq_read_body_progress:
  "rq_read_body cap rp = (out, rp1) \<Longrightarrow> out \<noteq> [] \<Longrightarrow> length (rq_scratch rp1) < length (rq_scratch rp)"
  by (auto simp: rq_read_body_def Let_def split: if_splits)

function drain_request_loop ::
  "'e llhttp_engine \<Rightarrow> 'v FilterChain \<Rightarrow> byte_list option \<Rightarrow> ('e, 'v) HttpSession
     \<Rightarrow> ('e, 'v) HttpSession option" where
  "drain_request_loop eng chain pend s =
     (case request_parser s of
        None \<Rightarrow> None
      | Some rp \<Rightarrow>
          (case rq_read_body body_scratch_size rp of (out, rp1) \<Rightarrow>
             if out = [] then
               (case pend of
                  None \<Rightarrow> Some s
                | Some c \<Rightarrow> map_option snd
                    (process_request_data_chunk eng chain c (rq_message_done rp) s))
             else
               (case pend of
                  None \<Rightarrow> drain_request_loop eng chain (Some out) (s\<lparr>request_parser := Some rp1\<rparr>)
                | Some c \<Rightarrow>
                    (case process_request_data_chunk eng chain c False
                            (s\<lparr>request_parser := Some rp1\<rparr>) of
                       None \<Rightarrow> None
                     | Some (goon, s2) \<Rightarrow>
                         if goon = False then Some s2
                         else drain_request_loop eng chain (Some out) s2))))"
  by pat_completeness auto
termination
  by (relation "measure (\<lambda>(eng, chain, pend, s). unread_request s)")
    (auto simp: unread_request_def
      dest!: rq_read_body_progress[OF sym] process_request_data_chunk_keeps_parser)

declare drain_request_loop.simps [simp del]

definition drain_request_body_into_serializer ::
  "'e llhttp_engine \<Rightarrow> 'v FilterChain \<Rightarrow> ('e, 'v) HttpSession \<Rightarrow> ('e, 'v) HttpSession option" where
  "drain_request_body_into_serializer eng chain s = drain_request_loop eng chain None s"

text \<open>Lines 74-99 of \<open>process_downstream_chunk\<close>, once per request.\<close>

definition filter_request_head ::
  "'e llhttp_engine \<Rightarrow> 'v FilterChain \<Rightarrow> ('e, 'v) HttpSession
     \<Rightarrow> (bool \<times> ('e, 'v) HttpSession) option" where
  "filter_request_head eng chain s =
     do {
       rp \<leftarrow> request_parser s;
       if \<not> request_filtered s \<and> rq_header_done rp then
         (let (result, head, ctx) = apply_request chain (rq_head rp) (filter_ctx s);
              s1 = s\<lparr>request_filtered := True,
                     metrics := (metrics s)\<lparr>requests_handled := requests_handled (metrics s) + 1\<rparr>,
                     downstream_wants_keep_alive := rq_should_keep_alive rp, filter_ctx := ctx\<rparr>
          in case result of
               fh_respond d \<Rightarrow>
                 map_option (Pair True) (respond_directly eng (dr_head d) (dr_body d) s1)
             | fh_continue \<Rightarrow>
                 do {
                   ser \<leftarrow> request_serializer s1;
                   let head1 = head\<lparr>req_headers :=
                                  set_header (req_headers head) ''Connection'' ''keep-alive''\<rparr>;
                   Some (False, s1\<lparr>request_serializer := Some (RequestSerializer_start head1 ser),
                                   request_serializer_started := True,
                                   io := io s1 @ [RequestStarted head1]\<rparr>)
                 })
       else Some (False, s)
     }"

function request_loop ::
  "'e llhttp_engine \<Rightarrow> 'v FilterChain \<Rightarrow> byte_list \<Rightarrow> ('e, 'v) HttpSession
     \<Rightarrow> (bool \<times> ('e, 'v) HttpSession) option" where
  "request_loop eng chain raw s =
     (if raw = [] then Some (False, s)
      else case request_parser s of
        None \<Rightarrow> None
      | Some rp \<Rightarrow>
          (case rq_feed eng raw rp of (consumed, rp1) \<Rightarrow>
            (case filter_request_head eng chain (s\<lparr>request_parser := Some rp1\<rparr>) of
               None \<Rightarrow> None
             | Some (returned, s2) \<Rightarrow>
                 if returned then Some (True, s2)
                 else
                   (case (if request_serializer_started s2
                          then drain_request_body_into_serializer eng chain s2 else Some s2) of
                      None \<Rightarrow> None
                    | Some s3 \<Rightarrow>
                        if request_serializer_started s2 \<and> direct_response_mode s3
                        then Some (True, s3)
                        else if consumed = 0 then
                          (if rq_has_error rp1 then Some (True, close_session s3)
                           else Some (False, s3))
                        else request_loop eng chain (drop consumed raw) s3))))"
  by pat_completeness auto
termination
  by (relation "measure (\<lambda>(eng, chain, raw, s). length raw)") auto

declare request_loop.simps [simp del]

definition process_downstream_chunk ::
  "'e llhttp_engine \<Rightarrow> 'v FilterChain \<Rightarrow> byte_list \<Rightarrow> ('e, 'v) HttpSession
     \<Rightarrow> ('e, 'v) HttpSession option" where
  "process_downstream_chunk eng chain raw s =
     do {
       (returned, s1) \<leftarrow> request_loop eng chain raw s;
       if returned then Some s1
       else if \<not> request_serializer_started s1 then read_request_chunk s1
       else do {
         rp \<leftarrow> request_parser s1;
         s2 \<leftarrow> (if rq_message_done rp \<and> \<not> request_final_body_provided s1
               then do { ser \<leftarrow> request_serializer s1;
                         Some (s1\<lparr>request_final_body_provided := True,
                                  request_serializer :=
                                    Some (RequestSerializer_provide_body [] True ser),
                                  io := io s1 @ [RequestBody [] True]\<rparr>) }
               else Some s1);
         if \<not> upstream_connecting s2
         then connect_upstream eng (s2\<lparr>upstream_connecting := True\<rparr>)
         else (case upstream s2 of
                 Some _ \<Rightarrow> pull_and_write_request_to_upstream eng s2
               | None \<Rightarrow> Some s2)
       }
     }"

section \<open>Retries\<close>

text \<open>The common beginning of both retries: the dead connection is closed, not pooled.\<close>

definition drop_upstream :: "('e, 'v) HttpSession \<Rightarrow> ('e, 'v) HttpSession" where
  "drop_upstream s =
     s\<lparr>metrics := (metrics s)\<lparr>upstream_retries := upstream_retries (metrics s) + 1\<rparr>,
       upstream := None,
       io := io s @ (case upstream s of None \<Rightarrow> [] | Some k \<Rightarrow> [UpstreamClosed k])\<rparr>"

definition retry_upstream_write_once ::
  "nat \<Rightarrow> ('e, 'v) HttpSession \<Rightarrow> ('e, 'v) HttpSession option" where
  "retry_upstream_write_once n s =
     do {
       let s1 = drop_upstream s;
       (acq, um) \<leftarrow> acquire_fresh_connection (endpoint_index s1) (upstream_manager s1);
       case acq of
         Connecting ep timeout \<Rightarrow>
           Some (s1\<lparr>upstream_manager := um, pending := pending s1 @ [AwaitRetryAcquire n],
                    io := io s1 @ [UpstreamConnect ep timeout]\<rparr>)
       | Pooled k \<Rightarrow> None
     }"

definition retry_upstream_after_read_failure ::
  "('e, 'v) HttpSession \<Rightarrow> ('e, 'v) HttpSession option" where
  "retry_upstream_after_read_failure s =
     do {
       let s1 = drop_upstream s;
       (acq, um) \<leftarrow> acquire_fresh_connection (endpoint_index s1) (upstream_manager s1);
       case acq of
         Connecting ep timeout \<Rightarrow>
           Some (s1\<lparr>upstream_manager := um, pending := pending s1 @ [AwaitSnapshotAcquire],
                    io := io s1 @ [UpstreamConnect ep timeout]\<rparr>)
       | Pooled k \<Rightarrow> None
     }"

section \<open>Completion handlers\<close>

definition on_request_read ::
  "'e llhttp_engine \<Rightarrow> 'v FilterChain \<Rightarrow> Error \<Rightarrow> byte_list \<Rightarrow> ('e, 'v) HttpSession
     \<Rightarrow> ('e, 'v) HttpSession option" where
  "on_request_read eng chain err bytes s =
     (if \<not> Error_ok err then Some (close_session s)
      else do { rb \<leftarrow> read_buf s;
                process_downstream_chunk eng chain bytes (s\<lparr>read_buf := Some (overwrite rb bytes)\<rparr>) })"

definition count_upstream_bytes :: "nat \<Rightarrow> ('e, 'v) HttpSession \<Rightarrow> ('e, 'v) HttpSession" where
  "count_upstream_bytes written s =
     s\<lparr>metrics := (metrics s)\<lparr>bytes_downstream_to_upstream :=
         bytes_downstream_to_upstream (metrics s) + of_nat written\<rparr>\<rparr>"

definition on_request_written ::
  "'e llhttp_engine \<Rightarrow> nat \<Rightarrow> Error \<Rightarrow> nat \<Rightarrow> ('e, 'v) HttpSession
     \<Rightarrow> ('e, 'v) HttpSession option" where
  "on_request_written eng n err written s =
     (if \<not> Error_ok err then
        if \<not> upstream_wrote_once s \<and> \<not> upstream_retry_used s
        then retry_upstream_write_once n (s\<lparr>upstream_retry_used := True\<rparr>)
        else Some (close_session s)
      else pull_and_write_request_to_upstream eng
             (count_upstream_bytes written (s\<lparr>upstream_wrote_once := True\<rparr>)))"

definition on_retry_acquire ::
  "nat \<Rightarrow> Error \<Rightarrow> socket_id option \<Rightarrow> ('e, 'v) HttpSession \<Rightarrow> ('e, 'v) HttpSession option" where
  "on_retry_acquire n err sock s =
     (if \<not> Error_ok err \<or> sock = None
      then Some (close_session (s\<lparr>metrics := (metrics s)
             \<lparr>upstream_connect_errors := upstream_connect_errors (metrics s) + 1\<rparr>\<rparr>))
      else do { k \<leftarrow> sock;
                wb \<leftarrow> write_buf s;
                let s1 = set_upstream k s;
                Some (s1\<lparr>pending := pending s1 @ [AwaitRetryWrite],
                         io := io s1 @ [UpstreamWrite k (take n wb)]\<rparr>) })"

definition on_retry_written ::
  "'e llhttp_engine \<Rightarrow> Error \<Rightarrow> nat \<Rightarrow> ('e, 'v) HttpSession \<Rightarrow> ('e, 'v) HttpSession option" where
  "on_retry_written eng err written s =
     (if \<not> Error_ok err then Some (close_session s)
      else pull_and_write_request_to_upstream eng
             (count_upstream_bytes written (s\<lparr>upstream_wrote_once := True\<rparr>)))"

definition on_snapshot_acquire ::
  "Error \<Rightarrow> socket_id option \<Rightarrow> ('e, 'v) HttpSession \<Rightarrow> ('e, 'v) HttpSession option" where
  "on_snapshot_acquire err sock s =
     (if \<not> Error_ok err \<or> sock = None
      then Some (close_session (s\<lparr>metrics := (metrics s)
             \<lparr>upstream_connect_errors := upstream_connect_errors (metrics s) + 1\<rparr>\<rparr>))
      else do { k \<leftarrow> sock;
                let s1 = set_upstream k s;
                Some (s1\<lparr>pending := pending s1 @ [AwaitSnapshotWrite],
                         io := io s1 @ [UpstreamWrite k (upstream_whole_request_snapshot s1)]\<rparr>) })"

definition on_snapshot_written ::
  "'e llhttp_engine \<Rightarrow> Error \<Rightarrow> nat \<Rightarrow> ('e, 'v) HttpSession \<Rightarrow> ('e, 'v) HttpSession option" where
  "on_snapshot_written eng err written s =
     (if \<not> Error_ok err then Some (close_session s)
      else start_response_phase eng (count_upstream_bytes written s))"

definition on_response_read ::
  "'e llhttp_engine \<Rightarrow> 'v FilterChain \<Rightarrow> Error \<Rightarrow> byte_list \<Rightarrow> ('e, 'v) HttpSession
     \<Rightarrow> ('e, 'v) HttpSession option" where
  "on_response_read eng chain err bytes s =
     (if \<not> Error_ok err then
        if \<not> upstream_response_read_any s \<and> upstream_whole_request_captured s \<and>
           \<not> upstream_retry_used s
        then retry_upstream_after_read_failure (s\<lparr>upstream_retry_used := True\<rparr>)
        else Some (close_session s)
      else do { rb \<leftarrow> read_buf s;
                process_upstream_chunk eng chain bytes
                  (s\<lparr>upstream_response_read_any := True, read_buf := Some (overwrite rb bytes)\<rparr>) })"

definition on_response_written ::
  "'e llhttp_engine \<Rightarrow> Error \<Rightarrow> nat \<Rightarrow> ('e, 'v) HttpSession \<Rightarrow> ('e, 'v) HttpSession option" where
  "on_response_written eng err written s =
     (if \<not> Error_ok err then Some (close_session s)
      else pull_and_write_response_to_downstream eng
             (s\<lparr>metrics := (metrics s)\<lparr>bytes_upstream_to_downstream :=
                 bytes_upstream_to_downstream (metrics s) + of_nat written\<rparr>\<rparr>))"

end
