(* ===== verification/Http_Session_Proofs.thy ===== *)
theory Http_Session_Proofs
  imports Http_Session
begin

text \<open>
  The event loop around \<open>HttpSession\<close> as a step relation, its invariant, and the properties of
  the session: every completion finds the objects it needs, exactly one operation is outstanding
  until the session closes, nothing reaches an upstream before the filters let the request
  pass, and at most one retry is made per request.
\<close>

section \<open>The event loop\<close>

datatype completion =
    ReadDone Error byte_list | WriteDone Error nat | AcquireDone Error "socket_id option"

fun completion_error :: "completion \<Rightarrow> Error" where
  "completion_error (ReadDone err bs) = err"
| "completion_error (WriteDone err n) = err"
| "completion_error (AcquireDone err k) = err"

text \<open>Which handler the completion of an operation runs; a completion of another kind never
  arrives for it.\<close>

fun complete ::
  "'e llhttp_engine \<Rightarrow> 'v FilterChain \<Rightarrow> continuation \<Rightarrow> completion \<Rightarrow> ('e, 'v) HttpSession
     \<Rightarrow> ('e, 'v) HttpSession option" where
  "complete eng chain AwaitRequestRead (ReadDone err b) s = on_request_read eng chain err b s"
| "complete eng chain AwaitAcquire (AcquireDone err k) s = on_acquire eng err k s"
| "complete eng chain (AwaitRequestWrite n) (WriteDone err w) s = on_request_written eng n err w s"
| "complete eng chain (AwaitRetryAcquire n) (AcquireDone err k) s = on_retry_acquire n err k s"
| "complete eng chain AwaitRetryWrite (WriteDone err w) s = on_retry_written eng err w s"
| "complete eng chain AwaitSnapshotAcquire (AcquireDone err k) s = on_snapshot_acquire err k s"
| "complete eng chain AwaitSnapshotWrite (WriteDone err w) s = on_snapshot_written eng err w s"
| "complete eng chain AwaitResponseRead (ReadDone err b) s = on_response_read eng chain err b s"
| "complete eng chain AwaitResponseWrite (WriteDone err w) s = on_response_written eng err w s"
| "complete eng chain _ _ s = None"

fun fits :: "('e, 'v) HttpSession \<Rightarrow> continuation \<Rightarrow> completion \<Rightarrow> bool" where
  "fits s AwaitRequestRead (ReadDone err b) =
     (\<exists>rb. read_buf s = Some rb \<and> length b \<le> length rb)"
| "fits s AwaitResponseRead (ReadDone err b) =
     (\<exists>rb. read_buf s = Some rb \<and> length b \<le> length rb)"
| "fits s AwaitAcquire (AcquireDone err k) = True"
| "fits s (AwaitRetryAcquire n) (AcquireDone err k) = True"
| "fits s AwaitSnapshotAcquire (AcquireDone err k) = True"
| "fits s (AwaitRequestWrite n) (WriteDone err w) = True"
| "fits s AwaitRetryWrite (WriteDone err w) = True"
| "fits s AwaitSnapshotWrite (WriteDone err w) = True"
| "fits s AwaitResponseWrite (WriteDone err w) = True"
| "fits s _ _ = False"

text \<open>A session moves when one of its operations completes; in between, other sessions of the
  shard change the shared manager, pool and counters within their invariants.\<close>

inductive session_step ::
  "'e llhttp_engine \<Rightarrow> 'v FilterChain \<Rightarrow> ('e, 'v) HttpSession \<Rightarrow> ('e, 'v) HttpSession \<Rightarrow> bool"
  for eng chain where
  completion:
    "\<lbrakk>pending s = xs @ c # ys; fits s c r;
      complete eng chain c r (s\<lparr>pending := xs @ ys\<rparr>) = Some s'\<rbrakk> \<Longrightarrow> session_step eng chain s s'"
| others:
    "\<lbrakk>um_invar um; length (endpoints um) = length (endpoints (upstream_manager s));
      pool_invar pool; buffer_size pool = buffer_size (buffer_pool s)\<rbrakk> \<Longrightarrow>
     session_step eng chain s
       (s\<lparr>upstream_manager := um, buffer_pool := pool, metrics := m\<rparr>)"

inductive session_reachable ::
  "'e llhttp_engine \<Rightarrow> 'v FilterChain \<Rightarrow> ('e, 'v) HttpSession \<Rightarrow> ('e, 'v) HttpSession \<Rightarrow> bool"
  for eng chain s0 where
  start: "session_start eng s0 = Some s \<Longrightarrow> session_reachable eng chain s0 s"
| step: "\<lbrakk>session_reachable eng chain s0 s; session_step eng chain s s'\<rbrakk> \<Longrightarrow>
     session_reachable eng chain s0 s'"

inductive_cases session_stepE: "session_step eng chain s s'"

section \<open>Invariant\<close>

definition shared_ok :: "('e, 'v) HttpSession \<Rightarrow> bool" where
  "shared_ok s \<longleftrightarrow> um_invar (upstream_manager s) \<and> pool_invar (buffer_pool s) \<and>
     request_parser s \<noteq> None \<and> request_serializer s \<noteq> None"

definition buffers_ok :: "('e, 'v) HttpSession \<Rightarrow> bool" where
  "buffers_ok s \<longleftrightarrow>
     (\<exists>rb wb. read_buf s = Some rb \<and> write_buf s = Some wb \<and>
        length rb = buffer_size (buffer_pool s) \<and> length wb = buffer_size (buffer_pool s))"

text \<open>What a session's handler may change of the shard as its other sessions see it: the counters
  of connections (accepted, active, closed) when a connection ends, but never the number of
  endpoints or the size of the buffers.\<close>

type_synonym shard_view = "(64 word \<times> 64 word \<times> 64 word) \<times> nat \<times> nat"

definition conns :: "LocalMetrics \<Rightarrow> 64 word \<times> 64 word \<times> 64 word" where
  "conns m = (connections_accepted m, connections_active m, connections_closed m)"

definition view :: "('e, 'v) HttpSession \<Rightarrow> shard_view" where
  "view s = (conns (metrics s), length (endpoints (upstream_manager s)), buffer_size (buffer_pool s))"

definition view_closed :: "shard_view \<Rightarrow> shard_view" where
  "view_closed k = (case k of ((a, n, c), e, b) \<Rightarrow> ((a, n - 1, c + 1), e, b))"

text \<open>Inside a handler: the operation that completed was the only one; \<open>used\<close> says whether the
  request's retry has been used, \<open>k\<close> is how the shard looked before.\<close>

definition running ::
  "bool \<Rightarrow> shard_view \<Rightarrow> ('e, 'v) HttpSession \<Rightarrow> bool" where
  "running used k s \<longleftrightarrow> upstream_retry_used s = used \<and> view s = k \<and> shared_ok s \<and> buffers_ok s \<and> \<not> closing s \<and> pending s = [] \<and>
     count_list (io s) DownstreamClosed = 0"

text \<open>The request has passed the filters and an endpoint is chosen.\<close>

definition relaying :: "('e, 'v) HttpSession \<Rightarrow> bool" where
  "relaying s \<longleftrightarrow> \<not> direct_response_mode s \<and> upstream_connecting s \<and> request_filtered s \<and>
     request_serializer_started s \<and> endpoint_index s < length (endpoints (upstream_manager s))"

definition on_hop :: "('e, 'v) HttpSession \<Rightarrow> bool" where
  "on_hop s \<longleftrightarrow> relaying s \<and> upstream s \<noteq> None"

definition responding :: "('e, 'v) HttpSession \<Rightarrow> bool" where
  "responding s \<longleftrightarrow> on_hop s \<and> response_parser s \<noteq> None \<and> response_serializer s \<noteq> None"

definition requesting :: "('e, 'v) HttpSession \<Rightarrow> bool" where
  "requesting s \<longleftrightarrow> \<not> direct_response_mode s \<and> (upstream_connecting s \<longrightarrow> on_hop s) \<and>
     (request_serializer_started s \<longrightarrow> request_filtered s)"

fun awaits :: "continuation \<Rightarrow> ('e, 'v) HttpSession \<Rightarrow> bool" where
  "awaits AwaitRequestRead s = requesting s"
| "awaits AwaitAcquire s = relaying s"
| "awaits (AwaitRequestWrite n) s = on_hop s"
| "awaits (AwaitRetryAcquire n) s = (relaying s \<and> upstream_retry_used s)"
| "awaits AwaitRetryWrite s = (on_hop s \<and> upstream_retry_used s)"
| "awaits AwaitSnapshotAcquire s =
     (relaying s \<and> upstream_retry_used s \<and> upstream_whole_request_captured s)"
| "awaits AwaitSnapshotWrite s =
     (on_hop s \<and> upstream_retry_used s \<and> upstream_whole_request_captured s)"
| "awaits AwaitResponseRead s = responding s"
| "awaits AwaitResponseWrite s =
     (response_serializer s \<noteq> None \<and> (direct_response_mode s \<or> responding s))"

definition hs_invar :: "('e, 'v) HttpSession \<Rightarrow> bool" where
  "hs_invar s \<longleftrightarrow> shared_ok s \<and>
     (if closing s
      then pending s = [] \<and> read_buf s = None \<and> write_buf s = None \<and>
           count_list (io s) DownstreamClosed = 1
      else buffers_ok s \<and> count_list (io s) DownstreamClosed = 0 \<and>
           (\<exists>c. pending s = [c] \<and> awaits c s))"

text \<open>A state between two requests.\<close>

definition fresh_request :: "'e llhttp_engine \<Rightarrow> ('e, 'v) HttpSession \<Rightarrow> bool" where
  "fresh_request eng s \<longleftrightarrow> pending s = [AwaitRequestRead] \<and> \<not> request_filtered s \<and>
     request_parser s = Some (RequestParser_new eng)"

fun retrying :: "continuation \<Rightarrow> bool" where
  "retrying (AwaitRetryAcquire n) = True"
| "retrying AwaitSnapshotAcquire = True"
| "retrying _ = False"

text \<open>Where a method other than the two retries leaves the session: the invariant holds, no retry
  was started, the record of a used retry is kept until the next request, and the connection
  counters change exactly if the session closed.\<close>

definition counted :: "shard_view \<Rightarrow> ('e, 'v) HttpSession \<Rightarrow> bool" where
  "counted k s \<longleftrightarrow> view s = (if closing s then view_closed k else k)"

definition settled ::
  "'e llhttp_engine \<Rightarrow> bool \<Rightarrow> shard_view \<Rightarrow> ('e, 'v) HttpSession \<Rightarrow> bool" where
  "settled eng used k s \<longleftrightarrow> hs_invar s \<and> counted k s \<and> (\<forall>c \<in> set (pending s). \<not> retrying c) \<and>
     (upstream_retry_used s = used \<or> fresh_request eng s)"

definition ends_ok ::
  "'e llhttp_engine \<Rightarrow> bool \<Rightarrow> shard_view \<Rightarrow> ('e, 'v) HttpSession option \<Rightarrow> bool" where
  "ends_ok eng used k r \<longleftrightarrow> (\<exists>s'. r = Some s' \<and> settled eng used k s')"

lemma ends_ok_Some [simp]: "ends_ok eng u k (Some s) = settled eng u k s"
  by (simp add: ends_ok_def)

lemmas settled_defs = settled_def hs_invar_def counted_def view_closed_def

lemmas phase_defs =
  running_def view_def conns_def shared_ok_def buffers_ok_def relaying_def on_hop_def responding_def requesting_def

section \<open>Closing and starting operations\<close>

lemma pull_length: "length (fst (RequestSerializer_pull cap ser)) \<le> cap"
  by (auto simp: RequestSerializer_pull_def pull_head_def pull_body_def Let_def split_beta)

lemma length_overwrite_pull [simp]:
  "length (overwrite wb (fst (RequestSerializer_pull (length wb) ser))) = length wb"
  using pull_length[of "length wb" ser] by (simp add: overwrite_def)

lemma close_session_invar: "running u cn s \<Longrightarrow> settled eng u cn (close_session s)"
  using bp.release_invar bp.release_consts
  by (auto simp: phase_defs settled_defs close_session_def on_close_def Let_def split: option.splits)

lemma read_request_chunk_ok: "running u cn s \<Longrightarrow> requesting s \<Longrightarrow> ends_ok eng u cn (read_request_chunk s)"
  by (auto simp: phase_defs settled_defs read_request_chunk_def)

lemma read_response_chunk_ok: "running u cn s \<Longrightarrow> responding s \<Longrightarrow> ends_ok eng u cn (read_response_chunk s)"
  by (auto simp: phase_defs settled_defs read_response_chunk_def)

lemma reset_for_next_request_ok: "running u cn s \<Longrightarrow> ends_ok eng u cn (reset_for_next_request eng s)"
  by (auto simp: reset_for_next_request_def read_request_chunk_def phase_defs settled_defs
      fresh_request_def)

lemma session_start_ok:
  assumes "um_invar um" "pool_invar pool"
  shows "ends_ok eng False (conns (on_accept m), length (endpoints um), buffer_size pool) (session_start eng (HttpSession_new hw um pool m))"
proof -
  obtain rb p1 where a1: "BufferPool_acquire pool = (rb, p1)" by (cases "BufferPool_acquire pool")
  obtain wb p2 where a2: "BufferPool_acquire p1 = (wb, p2)" by (cases "BufferPool_acquire p1")
  note bp.acquire_invar[OF assms(2)] bp.acquire_size[OF assms(2)] bp.acquire_consts[of pool]
  moreover from this a1 have "pool_invar p1" by simp
  moreover note bp.acquire_invar[OF this] bp.acquire_size[OF this] bp.acquire_consts[of p1]
  ultimately show ?thesis
    using assms(1) a1 a2
    by (auto simp: session_start_def HttpSession_new_def intro!: read_request_chunk_ok)
      (auto simp: phase_defs)
qed

lemma release_upstream_ok:
  assumes "running u cn s" "\<not> direct_response_mode s \<Longrightarrow> relaying s"
  shows "\<exists>s'. release_upstream s = Some s' \<and> running u cn s' \<and>
     direct_response_mode s' = direct_response_mode s"
proof (cases "\<exists>rp k. response_parser s = Some rp \<and> upstream s = Some k \<and>
    \<not> direct_response_mode s \<and> rs_should_keep_alive rp")
  case True
  then obtain rp k where k: "response_parser s = Some rp" "upstream s = Some k"
    "\<not> direct_response_mode s" "rs_should_keep_alive rp" by blast
  then obtain um full where
    "release_connection (endpoint_index s) k (upstream_manager s) = Some (um, full)" "um_invar um"
    "length (endpoints um) = length (endpoints (upstream_manager s))"
    using um_pool.release_ok[of "upstream_manager s" "endpoint_index s" k] assms
    by (auto simp: phase_defs um_count_def)
  with k assms(1) show ?thesis
    by (auto simp: release_upstream_def phase_defs split: option.splits)
qed (use assms(1) in \<open>auto simp: release_upstream_def split: option.splits\<close>)

section \<open>Response direction\<close>

lemma pull_response_ok:
  assumes "running u cn s" "response_serializer s \<noteq> None" "direct_response_mode s \<or> responding s"
  shows "ends_ok eng u cn (pull_and_write_response_to_downstream eng s)"
proof -
  from assms obtain ser wb where so: "response_serializer s = Some ser" "write_buf s = Some wb"
    by (auto simp: phase_defs)
  obtain out ser1 where p: "ResponseSerializer_pull (length wb) ser = (out, ser1)"
    by (cases "ResponseSerializer_pull (length wb) ser")
  have len: "length (overwrite wb out) = length wb"
    using pull_length[of "length wb" ser] p by (simp add: ResponseSerializer_pull_eq overwrite_def)
  let ?s1 = "s\<lparr>response_serializer := Some ser1, write_buf := Some (overwrite wb out)\<rparr>"
  have r1: "running u cn ?s1" using assms(1) so len by (auto simp: phase_defs)
  have d1: "direct_response_mode ?s1 \<or> responding ?s1" using assms(3) by (auto simp: phase_defs)
  have rel: "\<not> direct_response_mode ?s1 \<Longrightarrow> relaying ?s1" using d1 by (auto simp: phase_defs)
  obtain s2 where s2: "release_upstream ?s1 = Some s2" "running u cn s2"
    "direct_response_mode s2 = direct_response_mode ?s1"
    using release_upstream_ok[OF r1 rel] by blast
  have w: "settled eng u cn (?s1\<lparr>pending := [AwaitResponseWrite], io := io s @ [DownstreamWrite out]\<rparr>)"
    using r1 d1 by (auto simp: phase_defs settled_defs)
  have pd: "pending s = []" using assms(1) by (simp add: running_def)
  show ?thesis
    using so p s2 r1 d1 w pd
    by (auto simp: pull_and_write_response_to_downstream_def Let_def close_session_invar
        reset_for_next_request_ok intro!: read_response_chunk_ok)
qed

lemma direct_mode_kept:
  assumes "pull_and_write_response_to_downstream eng s = Some s'" "direct_response_mode s"
  shows "direct_response_mode s'"
  using assms
  by (auto simp: pull_and_write_response_to_downstream_def Let_def release_upstream_def
      close_session_def split: option.splits bind_splits if_splits prod.splits)

lemma respond_directly_ok:
  assumes "running u cn s"
  shows "\<exists>s'. respond_directly eng head body s = Some s' \<and> settled eng u cn s' \<and> direct_response_mode s'"
proof -
  let ?s = "s\<lparr>direct_response_mode := True, response_serializer_started := True,
      io := io s @ [ResponseStarted True head, ResponseBody body True],
      response_serializer := Some (ResponseSerializer_provide_body body True
         (ResponseSerializer_start head serializer_init))\<rparr>"
  have "ends_ok eng u cn (pull_and_write_response_to_downstream eng ?s)"
    using assms by (intro pull_response_ok) (auto simp: phase_defs)
  with direct_mode_kept[of eng ?s] show ?thesis
    by (auto simp: ends_ok_def respond_directly_def)
qed

lemma start_response_phase_ok:
  "running u cn s \<Longrightarrow> on_hop s \<Longrightarrow> ends_ok eng u cn (start_response_phase eng s)"
  unfolding start_response_phase_def
  by (rule read_response_chunk_ok) (auto simp: phase_defs)

lemma process_response_data_chunk_ok:
  assumes "running u cn s" "responding s"
  shows "\<exists>b s'. process_response_data_chunk eng chain c e s = Some (b, s') \<and>
     (if b then running u cn s' \<and> responding s' else settled eng u cn s' \<and> direct_response_mode s')"
proof -
  obtain r g ctx where g:
    "gate_apply_response chain c e (body_filter_gate s) (filter_ctx s) = (r, g, ctx)"
    by (metis prod_cases3)
  let ?s1 = "s\<lparr>body_filter_gate := g, filter_ctx := ctx\<rparr>"
  have r1: "running u cn ?s1" and p1: "responding ?s1" using assms by (auto simp: phase_defs)
  show ?thesis
  proof (cases r)
    case (kReject head body)
    with g respond_directly_ok[OF r1, of eng head body] show ?thesis
      by (auto simp: process_response_data_chunk_def)
  next
    case kStillBuffering
    with g r1 p1 show ?thesis by (auto simp: process_response_data_chunk_def)
  next
    case (kForward data)
    obtain ser where ser: "response_serializer s = Some ser" using assms(2) by (auto simp: responding_def)
    let ?s2 = "?s1\<lparr>response_final_body_provided := (e \<or> response_final_body_provided s),
        response_serializer := Some (ResponseSerializer_provide_body data e ser),
        io := io s @ [ResponseBody data e]\<rparr>"
    have "running u cn ?s2" "responding ?s2" using r1 p1 by (simp_all add: phase_defs)
    with g kForward ser show ?thesis by (auto simp: process_response_data_chunk_def)
  qed
qed

lemma drain_response_ok:
  assumes "running u cn s" "responding s"
  shows "\<exists>s'. drain_response_loop eng chain pend s = Some s' \<and>
     (if direct_response_mode s' then settled eng u cn s' else running u cn s' \<and> responding s')"
  using assms
proof (induction eng chain pend s rule: drain_response_loop.induct)
  case (1 eng chain pend s)
  obtain rp where rp: "response_parser s = Some rp" using 1(4) by (auto simp: phase_defs)
  obtain out rp1 where rd: "rs_read_body body_scratch_size rp = (out, rp1)"
    by (cases "rs_read_body body_scratch_size rp")
  let ?s1 = "s\<lparr>response_parser := Some rp1\<rparr>"
  have s1: "running u cn ?s1" "responding ?s1" using 1(3,4) by (auto simp: phase_defs)
  have nd: "responding t \<Longrightarrow> \<not> direct_response_mode t" for t :: "('a, 'b) HttpSession"
    by (simp add: phase_defs)
  show ?case
  proof (cases pend)
    case None
    with 1(1)[OF rp rd[symmetric]] rp rd s1 1(3,4) nd show ?thesis
      by (auto simp: drain_response_loop.simps[of _ _ _ s])
  next
    case (Some c)
    show ?thesis
    proof (cases "out = []")
      case True
      with process_response_data_chunk_ok[OF 1(3,4), of eng chain c "rs_message_done rp"] nd rp rd Some
      show ?thesis by (fastforce simp: drain_response_loop.simps[of _ _ _ s] split: if_splits)
    next
      case False
      obtain b s2 where p: "process_response_data_chunk eng chain c False ?s1 = Some (b, s2)"
        "if b then running u cn s2 \<and> responding s2 else settled eng u cn s2 \<and> direct_response_mode s2"
        using process_response_data_chunk_ok[OF s1, of eng chain c False] by blast
      with 1(2)[OF rp rd[symmetric] False Some p(1) refl] rp rd Some False show ?thesis
        by (auto simp: drain_response_loop.simps[of _ _ _ s] split: if_splits)
    qed
  qed
qed

lemma responding_not_direct: "responding s \<Longrightarrow> \<not> direct_response_mode s"
  by (simp add: phase_defs)

lemma filter_response_head_ok:
  assumes "running u cn s" "responding s"
  shows "\<exists>b s'. filter_response_head eng chain s = Some (b, s') \<and>
     (if b then settled eng u cn s' else running u cn s' \<and> responding s')"
proof -
  obtain rp ser where o: "response_parser s = Some rp" "response_serializer s = Some ser"
    using assms(2) by (auto simp: responding_def)
  obtain r head ctx where f: "apply_response chain (rs_head rp) (filter_ctx s) = (r, head, ctx)"
    by (metis prod_cases3)
  let ?s1 = "s\<lparr>response_filtered := True, filter_ctx := ctx\<rparr>"
  have s1: "running u cn ?s1" using assms(1) by (simp add: phase_defs)
  have s2: "running u cn (?s1\<lparr>downstream_keep_alive_effective := k, response_serializer := Some x,
       response_serializer_started := True, io := io s @ [ResponseStarted False h]\<rparr>)"
    "responding (?s1\<lparr>downstream_keep_alive_effective := k, response_serializer := Some x,
       response_serializer_started := True, io := io s @ [ResponseStarted False h]\<rparr>)" for k x h
    using assms by (simp_all add: phase_defs)
  show ?thesis
  proof (cases r)
    case (fh_respond d)
    with o f respond_directly_ok[OF s1, of eng "dr_head d" "dr_body d"] assms show ?thesis
      by (auto simp: filter_response_head_def)
  next
    case fh_continue
    with o f s2 assms show ?thesis by (simp add: filter_response_head_def Let_def ex_bool_eq)
  qed
qed

lemma maybe_drain_response_ok:
  assumes "running u cn s" "responding s"
  shows "\<exists>s'. (if response_serializer_started s
       then drain_response_body_into_serializer eng chain s else Some s) = Some s' \<and>
     (if direct_response_mode s' then settled eng u cn s' \<and> response_serializer_started s
      else running u cn s' \<and> responding s')"
  using drain_response_ok[OF assms, of eng chain None] assms responding_not_direct[OF assms(2)]
  by (cases "response_serializer_started s") (auto simp: drain_response_body_into_serializer_def)

lemma response_loop_ok:
  assumes "running u cn s" "responding s"
  shows "\<exists>b s'. response_loop eng chain raw s = Some (b, s') \<and>
     (if b then settled eng u cn s' else running u cn s' \<and> responding s')"
  using assms
proof (induction eng chain raw s rule: response_loop.induct)
  case (1 eng chain raw s)
  show ?case
  proof (cases "raw = []")
    case True
    with 1(2,3) show ?thesis by (simp add: response_loop.simps[of _ _ _ s] ex_bool_eq)
  next
    case False
    obtain rp where rp: "response_parser s = Some rp" using 1(3) by (auto simp: responding_def)
    obtain n rp1 where fd: "rs_feed eng raw rp = (n, rp1)" by (cases "rs_feed eng raw rp")
    have s1: "running u cn (s\<lparr>response_parser := Some rp1\<rparr>)" "responding (s\<lparr>response_parser := Some rp1\<rparr>)"
      using 1(2,3) by (simp_all add: phase_defs)
    obtain b s2 where f: "filter_response_head eng chain (s\<lparr>response_parser := Some rp1\<rparr>) = Some (b, s2)"
      "if b then settled eng u cn s2 else running u cn s2 \<and> responding s2"
      using filter_response_head_ok[OF s1, of eng chain] by blast
    show ?thesis
    proof (cases b)
      case True
      with f rp fd False show ?thesis by (simp add: response_loop.simps[of _ _ _ s] ex_bool_eq)
    next
      case nb: False
      with f have s2: "running u cn s2" "responding s2" by simp_all
      obtain s3 where d: "(if response_serializer_started s2
          then drain_response_body_into_serializer eng chain s2 else Some s2) = Some s3"
        "if direct_response_mode s3 then settled eng u cn s3 \<and> response_serializer_started s2
         else running u cn s3 \<and> responding s3"
        using maybe_drain_response_ok[OF s2, of eng chain] by blast
      note IH = 1(1)[OF False rp fd[symmetric] f(1) refl nb d(1)]
      have eq: "response_loop eng chain raw s =
          (if response_serializer_started s2 \<and> direct_response_mode s3 then Some (True, s3)
           else if n = 0 then (if rs_has_error rp1 then Some (True, close_session s3) else Some (False, s3))
           else response_loop eng chain (drop n raw) s3)"
        using False rp fd f(1) nb d(1) by (simp add: response_loop.simps[of eng chain raw s])
      show ?thesis
      proof (cases "direct_response_mode s3")
        case True
        with d(2) show ?thesis unfolding eq by (simp add: ex_bool_eq)
      next
        case nd: False
        with d(2) have s3: "running u cn s3" "responding s3" by simp_all
        show ?thesis
        proof (cases "n = 0")
          case True
          with s3 nd show ?thesis unfolding eq by (simp add: close_session_invar ex_bool_eq)
        next
          case False
          with IH s3 nd show ?thesis unfolding eq by simp
        qed
      qed
    qed
  qed
qed

lemma process_upstream_chunk_ok:
  assumes "running u cn s" "responding s"
  shows "ends_ok eng u cn (process_upstream_chunk eng chain raw s)"
proof -
  obtain b s1 where l: "response_loop eng chain raw s = Some (b, s1)"
    "if b then settled eng u cn s1 else running u cn s1 \<and> responding s1"
    using response_loop_ok[OF assms, of eng chain raw] by blast
  show ?thesis
  proof (cases b)
    case True
    with l show ?thesis by (simp add: process_upstream_chunk_def)
  next
    case False
    with l have s1: "running u cn s1" "responding s1" by simp_all
    obtain rp ser where o: "response_parser s1 = Some rp" "response_serializer s1 = Some ser"
      using s1(2) by (auto simp: responding_def)
    let ?s2 = "s1\<lparr>response_final_body_provided := True,
        response_serializer := Some (ResponseSerializer_provide_body [] True ser),
        io := io s1 @ [ResponseBody [] True]\<rparr>"
    have s2: "running u cn ?s2" "responding ?s2" using s1 by (simp_all add: phase_defs)
    have pull: "ends_ok eng u cn (pull_and_write_response_to_downstream eng t)"
      if "running u cn t" "responding t" for t :: "('a, 'b) HttpSession"
      using that by (intro pull_response_ok) (auto simp: responding_def)
    show ?thesis
      using l(1) False o s1 s2 pull[OF s1] pull[OF s2] read_response_chunk_ok[OF s1]
      by (simp add: process_upstream_chunk_def)
  qed
qed

section \<open>Request direction\<close>

lemma pull_request_ok:
  assumes "running u cn s" "on_hop s"
  shows "ends_ok eng u cn (pull_and_write_request_to_upstream eng s)"
proof -
  from assms obtain ser wb rp k where so: "request_serializer s = Some ser" "write_buf s = Some wb"
    "request_parser s = Some rp" "upstream s = Some k"
    by (auto simp: phase_defs)
  obtain out ser1 where p: "RequestSerializer_pull (length wb) ser = (out, ser1)"
    by (cases "RequestSerializer_pull (length wb) ser")
  have len: "length (overwrite wb out) = length wb"
    using pull_length[of "length wb" ser] p by (simp add: overwrite_def)
  let ?s1 = "s\<lparr>request_serializer := Some ser1, write_buf := Some (overwrite wb out)\<rparr>"
  have s1: "running u cn ?s1" "on_hop ?s1" "requesting ?s1"
    using assms so len by (auto simp: phase_defs)
  have w: "settled eng u cn (?s1\<lparr>upstream_whole_request_snapshot := x, upstream_whole_request_captured := y,
       pending := [AwaitRequestWrite n], io := io s @ [UpstreamWrite k out]\<rparr>)" 
    "settled eng u cn (?s1\<lparr>pending := [AwaitRequestWrite n], io := io s @ [UpstreamWrite k out]\<rparr>)" for x y n
    using s1 so by (auto simp: phase_defs settled_defs)
  have pd: "pending s = []" using assms(1) by (simp add: running_def)
  show ?thesis
    using so p s1 w pd
    by (auto simp: pull_and_write_request_to_upstream_def Let_def close_session_invar
        start_response_phase_ok read_request_chunk_ok)
qed

lemma set_upstream_ok: "running u cn s \<Longrightarrow> relaying s \<Longrightarrow> running u cn (set_upstream k s) \<and> on_hop (set_upstream k s)"
  by (auto simp: set_upstream_def phase_defs split: option.splits)

lemma running_metrics [simp]:
  "running u cn (s\<lparr>metrics := (metrics s)\<lparr>upstream_connect_errors := x\<rparr>\<rparr>) = running u cn s"
  "running u cn (s\<lparr>metrics := (metrics s)\<lparr>bytes_upstream_to_downstream := x\<rparr>\<rparr>) = running u cn s"
  "running u cn (s\<lparr>upstream_wrote_once := b,
     metrics := (metrics s)\<lparr>bytes_downstream_to_upstream := x\<rparr>\<rparr>) = running u cn s"
  "running u cn (s\<lparr>metrics := (metrics s)\<lparr>bytes_downstream_to_upstream := x\<rparr>\<rparr>) = running u cn s"
  by (simp_all add: phase_defs)

lemma on_acquire_ok:
  "running u cn s \<Longrightarrow> relaying s \<Longrightarrow> ends_ok eng u cn (on_acquire eng err sock s)"
  by (auto simp: on_acquire_def close_session_invar set_upstream_ok intro!: pull_request_ok
      split: option.split)

lemma connect_upstream_ok:
  assumes "running u cn s" "\<not> direct_response_mode s" "upstream_connecting s" "request_filtered s"
    "request_serializer_started s"
  shows "ends_ok eng u cn (connect_upstream eng s)"
proof -
  let ?um = "upstream_manager s"
  have inv: "um_invar ?um" using assms(1) by (simp add: phase_defs)
  obtain um1 where s1: "select_endpoint ?um = Some (next_endpoint ?um, um1)" "um_invar um1"
    "next_endpoint ?um < length (endpoints um1)" "endpoints um1 = endpoints ?um"
    using select_endpoint_invar[OF inv] by blast
  obtain a um2 where a: "acquire_connection (next_endpoint ?um) um1 = Some (a, um2)"
    "um_invar um2" "um_count um2 = um_count um1"
    using um_pool.acquire_ok[OF s1(2), of "next_endpoint ?um"] s1(3) by (auto simp: um_count_def)
  let ?s = "s\<lparr>endpoint_index := next_endpoint ?um, upstream_manager := um2\<rparr>"
  have r: "running u cn ?s" "relaying ?s"
    using assms a(2,3) s1(3,4) by (auto simp: phase_defs um_count_def)
  then have "settled eng u cn (?s\<lparr>pending := [AwaitAcquire], io := io s @ [UpstreamConnect ep t]\<rparr>)" for ep t
    by (simp add: phase_defs settled_defs)
  moreover have "pending s = []" using assms(1) by (simp add: running_def)
  ultimately show ?thesis
    using s1(1) a(1) on_acquire_ok[OF r]
    by (auto simp: connect_upstream_def Let_def split: acquisition.split)
qed

lemma process_request_data_chunk_ok:
  assumes "running u cn s" "requesting s"
  shows "\<exists>b s'. process_request_data_chunk eng chain c e s = Some (b, s') \<and>
     (if b then running u cn s' \<and> requesting s' else settled eng u cn s' \<and> direct_response_mode s')"
proof -
  obtain r g ctx where g:
    "gate_apply_request chain c e (body_filter_gate s) (filter_ctx s) = (r, g, ctx)"
    by (metis prod_cases3)
  let ?s1 = "s\<lparr>body_filter_gate := g, filter_ctx := ctx\<rparr>"
  have r1: "running u cn ?s1" and p1: "requesting ?s1" using assms by (simp_all add: phase_defs)
  show ?thesis
  proof (cases r)
    case (kReject head body)
    with g respond_directly_ok[OF r1, of eng head body] show ?thesis
      by (auto simp: process_request_data_chunk_def)
  next
    case kStillBuffering
    with g r1 p1 show ?thesis by (auto simp: process_request_data_chunk_def)
  next
    case (kForward data)
    obtain ser where ser: "request_serializer s = Some ser"
      using assms(1) by (auto simp: running_def shared_ok_def)
    let ?s2 = "?s1\<lparr>request_final_body_provided := (e \<or> request_final_body_provided s),
        request_serializer := Some (RequestSerializer_provide_body data e ser),
        io := io s @ [RequestBody data e]\<rparr>"
    have "running u cn ?s2" "requesting ?s2" using r1 p1 by (simp_all add: phase_defs)
    with g kForward ser show ?thesis by (auto simp: process_request_data_chunk_def)
  qed
qed

lemma requesting_not_direct: "requesting s \<Longrightarrow> \<not> direct_response_mode s"
  by (simp add: requesting_def)

lemma drain_request_ok:
  assumes "running u cn s" "requesting s"
  shows "\<exists>s'. drain_request_loop eng chain pend s = Some s' \<and>
     (if direct_response_mode s' then settled eng u cn s' else running u cn s' \<and> requesting s')"
  using assms
proof (induction eng chain pend s rule: drain_request_loop.induct)
  case (1 eng chain pend s)
  obtain rp where rp: "request_parser s = Some rp"
    using 1(3) by (auto simp: running_def shared_ok_def)
  obtain out rp1 where rd: "rq_read_body body_scratch_size rp = (out, rp1)"
    by (cases "rq_read_body body_scratch_size rp")
  let ?s1 = "s\<lparr>request_parser := Some rp1\<rparr>"
  have s1: "running u cn ?s1" "requesting ?s1" using 1(3,4) by (simp_all add: phase_defs)
  show ?case
  proof (cases pend)
    case None
    with 1(1)[OF rp rd[symmetric]] rp rd s1 1(3,4) requesting_not_direct show ?thesis
      by (auto simp: drain_request_loop.simps[of _ _ _ s])
  next
    case (Some c)
    show ?thesis
    proof (cases "out = []")
      case True
      with process_request_data_chunk_ok[OF 1(3,4), of eng chain c "rq_message_done rp"]
        requesting_not_direct rp rd Some
      show ?thesis by (fastforce simp: drain_request_loop.simps[of _ _ _ s] split: if_splits)
    next
      case False
      obtain b s2 where p: "process_request_data_chunk eng chain c False ?s1 = Some (b, s2)"
        "if b then running u cn s2 \<and> requesting s2 else settled eng u cn s2 \<and> direct_response_mode s2"
        using process_request_data_chunk_ok[OF s1, of eng chain c False] by blast
      with 1(2)[OF rp rd[symmetric] False Some p(1) refl] rp rd Some False show ?thesis
        by (auto simp: drain_request_loop.simps[of _ _ _ s] split: if_splits)
    qed
  qed
qed

lemma maybe_drain_request_ok:
  assumes "running u cn s" "requesting s"
  shows "\<exists>s'. (if request_serializer_started s
       then drain_request_body_into_serializer eng chain s else Some s) = Some s' \<and>
     (if direct_response_mode s' then settled eng u cn s' \<and> request_serializer_started s
      else running u cn s' \<and> requesting s')"
  using drain_request_ok[OF assms, of eng chain None] assms requesting_not_direct[OF assms(2)]
  by (cases "request_serializer_started s") (auto simp: drain_request_body_into_serializer_def)

lemma filter_request_head_ok:
  assumes "running u cn s" "requesting s"
  shows "\<exists>b s'. filter_request_head eng chain s = Some (b, s') \<and>
     (if b then settled eng u cn s' else running u cn s' \<and> requesting s')"
proof -
  obtain rp ser where o: "request_parser s = Some rp" "request_serializer s = Some ser"
    using assms(1) by (auto simp: running_def shared_ok_def)
  obtain r head ctx where f: "apply_request chain (rq_head rp) (filter_ctx s) = (r, head, ctx)"
    by (metis prod_cases3)
  let ?s1 = "s\<lparr>request_filtered := True,
      metrics := (metrics s)\<lparr>requests_handled := requests_handled (metrics s) + 1\<rparr>,
      downstream_wants_keep_alive := rq_should_keep_alive rp, filter_ctx := ctx\<rparr>"
  have s1: "running u cn ?s1" using assms(1) by (simp add: phase_defs)
  have s2: "running u cn (?s1\<lparr>request_serializer := Some x, request_serializer_started := True,
       io := io s @ [RequestStarted h]\<rparr>)"
    "requesting (?s1\<lparr>request_serializer := Some x, request_serializer_started := True,
       io := io s @ [RequestStarted h]\<rparr>)" for x h
    using assms by (simp_all add: phase_defs)
  show ?thesis
  proof (cases r)
    case (fh_respond d)
    with o f respond_directly_ok[OF s1, of eng "dr_head d" "dr_body d"] assms show ?thesis
      by (auto simp: filter_request_head_def)
  next
    case fh_continue
    with o f s2 assms show ?thesis by (simp add: filter_request_head_def Let_def ex_bool_eq)
  qed
qed

lemma request_loop_ok:
  assumes "running u cn s" "requesting s"
  shows "\<exists>b s'. request_loop eng chain raw s = Some (b, s') \<and>
     (if b then settled eng u cn s' else running u cn s' \<and> requesting s')"
  using assms
proof (induction eng chain raw s rule: request_loop.induct)
  case (1 eng chain raw s)
  show ?case
  proof (cases "raw = []")
    case True
    with 1(2,3) show ?thesis by (simp add: request_loop.simps[of _ _ _ s] ex_bool_eq)
  next
    case False
    obtain rp where rp: "request_parser s = Some rp"
      using 1(2) by (auto simp: running_def shared_ok_def)
    obtain n rp1 where fd: "rq_feed eng raw rp = (n, rp1)" by (cases "rq_feed eng raw rp")
    have s1: "running u cn (s\<lparr>request_parser := Some rp1\<rparr>)" "requesting (s\<lparr>request_parser := Some rp1\<rparr>)"
      using 1(2,3) by (simp_all add: phase_defs)
    obtain b s2 where f: "filter_request_head eng chain (s\<lparr>request_parser := Some rp1\<rparr>) = Some (b, s2)"
      "if b then settled eng u cn s2 else running u cn s2 \<and> requesting s2"
      using filter_request_head_ok[OF s1, of eng chain] by blast
    show ?thesis
    proof (cases b)
      case True
      with f rp fd False show ?thesis by (simp add: request_loop.simps[of _ _ _ s] ex_bool_eq)
    next
      case nb: False
      with f have s2: "running u cn s2" "requesting s2" by simp_all
      obtain s3 where d: "(if request_serializer_started s2
          then drain_request_body_into_serializer eng chain s2 else Some s2) = Some s3"
        "if direct_response_mode s3 then settled eng u cn s3 \<and> request_serializer_started s2
         else running u cn s3 \<and> requesting s3"
        using maybe_drain_request_ok[OF s2, of eng chain] by blast
      note IH = 1(1)[OF False rp fd[symmetric] f(1) refl nb d(1)]
      have eq: "request_loop eng chain raw s =
          (if request_serializer_started s2 \<and> direct_response_mode s3 then Some (True, s3)
           else if n = 0 then (if rq_has_error rp1 then Some (True, close_session s3) else Some (False, s3))
           else request_loop eng chain (drop n raw) s3)"
        using False rp fd f(1) nb d(1) by (simp add: request_loop.simps[of eng chain raw s])
      show ?thesis
      proof (cases "direct_response_mode s3")
        case True
        with d(2) show ?thesis unfolding eq by (simp add: ex_bool_eq)
      next
        case nd: False
        with d(2) have s3: "running u cn s3" "requesting s3" by simp_all
        show ?thesis
        proof (cases "n = 0")
          case True
          with s3 nd show ?thesis unfolding eq by (simp add: close_session_invar ex_bool_eq)
        next
          case False
          with IH s3 nd show ?thesis unfolding eq by simp
        qed
      qed
    qed
  qed
qed

lemma process_downstream_chunk_ok:
  assumes "running u cn s" "requesting s"
  shows "ends_ok eng u cn (process_downstream_chunk eng chain raw s)"
proof -
  obtain b s1 where l: "request_loop eng chain raw s = Some (b, s1)"
    "if b then settled eng u cn s1 else running u cn s1 \<and> requesting s1"
    using request_loop_ok[OF assms, of eng chain raw] by blast
  show ?thesis
  proof (cases "b \<or> \<not> request_serializer_started s1")
    case True
    with l show ?thesis
      by (auto simp: process_downstream_chunk_def read_request_chunk_ok split: if_splits)
  next
    case False
    with l have s1: "running u cn s1" "requesting s1" by simp_all
    obtain rp ser where o: "request_parser s1 = Some rp" "request_serializer s1 = Some ser"
      using s1(1) by (auto simp: running_def shared_ok_def)
    define s2 where "s2 = (if rq_message_done rp \<and> \<not> request_final_body_provided s1
        then s1\<lparr>request_final_body_provided := True,
                request_serializer := Some (RequestSerializer_provide_body [] True ser),
                io := io s1 @ [RequestBody [] True]\<rparr>
        else s1)"
    have s2: "running u cn s2" "requesting s2" "request_serializer_started s2"
      using s1 False by (simp_all add: s2_def phase_defs)
    have eq: "process_downstream_chunk eng chain raw s =
        (if \<not> upstream_connecting s2
         then connect_upstream eng (s2\<lparr>upstream_connecting := True\<rparr>)
         else (case upstream s2 of Some _ \<Rightarrow> pull_and_write_request_to_upstream eng s2 | None \<Rightarrow> Some s2))"
      using l False o by (auto simp: process_downstream_chunk_def s2_def split: option.split)
    show ?thesis
    proof (cases "upstream_connecting s2")
      case True
      with s2 have "on_hop s2" by (simp add: requesting_def)
      with True pull_request_ok[OF s2(1) this, of eng] show ?thesis
        unfolding eq by (auto simp: on_hop_def)
    next
      case False
      have "running u cn (s2\<lparr>upstream_connecting := True\<rparr>)" using s2(1) by (simp add: phase_defs)
      with False s2 show ?thesis unfolding eq
        by (auto intro!: connect_upstream_ok simp: requesting_def)
    qed
  qed
qed

section \<open>Retries and handlers\<close>

lemma drop_upstream_ok: "running u cn s \<Longrightarrow> relaying s \<Longrightarrow> running u cn (drop_upstream s) \<and> relaying (drop_upstream s)"
  by (auto simp: drop_upstream_def phase_defs split: option.splits)

lemma fresh_connection:
  assumes "running u cn s" "relaying s"
  shows "\<exists>ep t. acquire_fresh_connection (endpoint_index s) (upstream_manager s) =
     Some (Connecting ep t, upstream_manager s)"
  using um_pool.fresh_ok[of "upstream_manager s" "endpoint_index s"] assms
  by (auto simp: phase_defs um_count_def)

text \<open>What the completion of an operation leads to: as \<open>settled\<close>, or a retry is under way that had
  not been used before.\<close>

definition step_ok ::
  "'e llhttp_engine \<Rightarrow> bool \<Rightarrow> shard_view \<Rightarrow> ('e, 'v) HttpSession option \<Rightarrow> bool" where
  "step_ok eng used k r \<longleftrightarrow>
     (\<exists>s'. r = Some s' \<and> hs_invar s' \<and> counted k s' \<and>
        (if \<exists>c \<in> set (pending s'). retrying c then \<not> used \<and> upstream_retry_used s'
         else upstream_retry_used s' = used \<or> fresh_request eng s'))"

lemma ends_step_ok: "ends_ok eng u cn r \<Longrightarrow> step_ok eng u cn r"
  by (auto simp: ends_ok_def step_ok_def settled_def)

lemma retry_pending_ok:
  assumes "running True cn t" "relaying t"
  shows "step_ok eng False cn (Some (t\<lparr>upstream_manager := upstream_manager t,
       pending := pending t @ [AwaitRetryAcquire n], io := io t @ [UpstreamConnect ep tm]\<rparr>))"
    and "upstream_whole_request_captured t \<Longrightarrow>
      step_ok eng False cn (Some (t\<lparr>upstream_manager := upstream_manager t,
       pending := pending t @ [AwaitSnapshotAcquire], io := io t @ [UpstreamConnect ep tm]\<rparr>))"
  using assms by (simp_all add: step_ok_def phase_defs hs_invar_def counted_def)

lemma retry_write_ok:
  assumes "running True cn s" "relaying s"
  shows "step_ok eng False cn (retry_upstream_write_once n s)"
proof -
  have d: "running True cn (drop_upstream s)" "relaying (drop_upstream s)"
    using drop_upstream_ok[OF assms] by simp_all
  obtain ep tm where "acquire_fresh_connection (endpoint_index (drop_upstream s))
      (upstream_manager (drop_upstream s)) = Some (Connecting ep tm, upstream_manager (drop_upstream s))"
    using fresh_connection[OF d] by blast
  with retry_pending_ok(1)[OF d, where n = n and ep = ep and tm = tm and eng = eng] show ?thesis
    by (simp add: retry_upstream_write_once_def Let_def)
qed

lemma retry_snapshot_ok:
  assumes "running True cn s" "relaying s" "upstream_whole_request_captured s"
  shows "step_ok eng False cn (retry_upstream_after_read_failure s)"
proof -
  have d: "running True cn (drop_upstream s)" "relaying (drop_upstream s)"
    using drop_upstream_ok[OF assms(1,2)] by simp_all
  obtain ep tm where "acquire_fresh_connection (endpoint_index (drop_upstream s))
      (upstream_manager (drop_upstream s)) = Some (Connecting ep tm, upstream_manager (drop_upstream s))"
    using fresh_connection[OF d] by blast
  moreover have "upstream_whole_request_captured (drop_upstream s)"
    using assms(3) by (simp add: drop_upstream_def)
  ultimately show ?thesis using retry_pending_ok(2)[OF d, where ep = ep and tm = tm and eng = eng]
    by (simp add: retry_upstream_after_read_failure_def Let_def)
qed

lemma retry_starts: "running u cn s \<Longrightarrow> running True cn (s\<lparr>upstream_retry_used := True\<rparr>)"
  by (simp add: phase_defs)

lemma relaying_frame [simp]:
  "relaying (s\<lparr>metrics := m\<rparr>) = relaying s" "on_hop (s\<lparr>metrics := m\<rparr>) = on_hop s"
  "responding (s\<lparr>metrics := m\<rparr>) = responding s"
  "relaying (s\<lparr>upstream_retry_used := v\<rparr>) = relaying s"
  "running u cn (s\<lparr>upstream_wrote_once := v\<rparr>) = running u cn s"
  "on_hop (s\<lparr>upstream_wrote_once := v\<rparr>) = on_hop s"
  by (simp_all add: phase_defs)

lemma on_hop_relaying: "on_hop s \<Longrightarrow> relaying s"
  by (simp add: on_hop_def)

lemma responding_relaying: "responding s \<Longrightarrow> relaying s"
  by (simp add: responding_def on_hop_def)

lemma read_into_buffer:
  assumes "running u cn s" "read_buf s = Some rb" "length b \<le> length rb"
  shows "running u cn (s\<lparr>read_buf := Some (overwrite rb b)\<rparr>)"
  using assms by (auto simp: phase_defs overwrite_def)

lemma write_pending_ok:
  assumes "running True cn t" "on_hop t"
  shows "ends_ok eng True cn (Some (t\<lparr>pending := pending t @ [AwaitRetryWrite], io := io t @ [UpstreamWrite x y]\<rparr>))"
    and "upstream_whole_request_captured t \<Longrightarrow>
      ends_ok eng True cn (Some (t\<lparr>pending := pending t @ [AwaitSnapshotWrite], io := io t @ [UpstreamWrite x y]\<rparr>))"
  using assms by (simp_all add: phase_defs settled_defs)

lemma on_retry_acquire_ok:
  assumes "running True cn s" "relaying s"
  shows "ends_ok eng True cn (on_retry_acquire n err sock s)"
proof -
  obtain wb where "write_buf s = Some wb" using assms(1) by (auto simp: running_def buffers_ok_def)
  with assms set_upstream_ok[OF assms] show ?thesis
    by (cases sock) (simp_all add: on_retry_acquire_def Let_def close_session_invar
        write_pending_ok(1)[unfolded ends_ok_Some])
qed

lemma on_snapshot_acquire_ok:
  assumes "running True cn s" "relaying s" "upstream_whole_request_captured s"
  shows "ends_ok eng True cn (on_snapshot_acquire err sock s)"
proof -
  have "upstream_whole_request_captured (set_upstream k s)" for k
    using assms(3) by (simp add: set_upstream_def)
  with assms set_upstream_ok[OF assms(1,2)] show ?thesis
    by (cases sock) (simp_all add: on_snapshot_acquire_def Let_def close_session_invar
        write_pending_ok(2)[unfolded ends_ok_Some])
qed

lemma on_request_read_ok:
  assumes "running u cn s" "requesting s" "read_buf s = Some rb" "length b \<le> length rb"
  shows "ends_ok eng u cn (on_request_read eng chain err b s)"
proof -
  have "requesting (s\<lparr>read_buf := Some (overwrite rb b)\<rparr>)" using assms(2) by (simp add: phase_defs)
  with assms read_into_buffer[OF assms(1,3,4)] show ?thesis
    by (simp add: on_request_read_def close_session_invar process_downstream_chunk_ok)
qed

lemma on_response_read_ok:
  assumes "running u cn s" "responding s" "read_buf s = Some rb" "length b \<le> length rb"
  shows "step_ok eng u cn (on_response_read eng chain err b s)"
proof -
  let ?s = "s\<lparr>upstream_response_read_any := True, read_buf := Some (overwrite rb b)\<rparr>"
  have "responding ?s" using assms(2) by (simp add: phase_defs)
  moreover have "running u cn ?s" using read_into_buffer[OF assms(1,3,4)] by (simp add: phase_defs)
  ultimately have ok: "ends_ok eng u cn (process_upstream_chunk eng chain b ?s)"
    by (intro process_upstream_chunk_ok)
  have u: "upstream_retry_used s = u" using assms(1) by (simp add: running_def)
  have r: "running True cn (s\<lparr>upstream_retry_used := True\<rparr>)" "relaying (s\<lparr>upstream_retry_used := True\<rparr>)"
    using retry_starts[OF assms(1)] responding_relaying[OF assms(2)] by simp_all
  have cl: "ends_ok eng u cn (Some (close_session s))" using assms(1) by (simp add: close_session_invar)
  show ?thesis
    using assms(3) u ends_step_ok[OF ok] ends_step_ok[OF cl] retry_snapshot_ok[OF r, of eng]
    by (auto simp: on_response_read_def)
qed

lemma on_request_written_ok:
  assumes "running u cn s" "on_hop s"
  shows "step_ok eng u cn (on_request_written eng n err w s)"
proof -
  have r: "running True cn (s\<lparr>upstream_retry_used := True\<rparr>)" "relaying (s\<lparr>upstream_retry_used := True\<rparr>)"
    using retry_starts[OF assms(1)] on_hop_relaying[OF assms(2)] by simp_all
  have cl: "ends_ok eng u cn (Some (close_session s))" using assms(1) by (simp add: close_session_invar)
  have "ends_ok eng u cn (pull_and_write_request_to_upstream eng
      (count_upstream_bytes w (s\<lparr>upstream_wrote_once := True\<rparr>)))"
    using assms by (intro pull_request_ok) (simp_all add: count_upstream_bytes_def)
  moreover have "upstream_retry_used s = u" using assms(1) by (simp add: running_def)
  ultimately show ?thesis
    using ends_step_ok[OF cl] retry_write_ok[OF r, of eng n]
    by (auto simp: on_request_written_def ends_step_ok)
qed

lemma complete_ok:
  assumes "running u cn s" "awaits c s" "fits s c r"
  shows "step_ok eng u cn (complete eng chain c r s)"
proof (cases "(eng, chain, c, r, s)" rule: complete.cases)
  case (1 _ _ err b _)
  with assms show ?thesis by (auto intro!: ends_step_ok on_request_read_ok)
next
  case (2 _ _ err k _)
  with assms show ?thesis by (simp add: on_acquire_ok ends_step_ok)
next
  case (3 _ _ n err w _)
  with assms show ?thesis by (simp add: on_request_written_ok)
next
  case (4 _ _ n err k _)
  with assms have "u" by (simp add: running_def)
  with 4 assms show ?thesis by (simp add: on_retry_acquire_ok ends_step_ok)
next
  case (5 _ _ err w _)
  with assms show ?thesis
    by (simp add: on_retry_written_def count_upstream_bytes_def close_session_invar pull_request_ok
        ends_step_ok)
next
  case (6 _ _ err k _)
  with assms have "u" by (simp add: running_def)
  with 6 assms show ?thesis by (simp add: on_snapshot_acquire_ok ends_step_ok)
next
  case (7 _ _ err w _)
  with assms show ?thesis
    by (simp add: on_snapshot_written_def count_upstream_bytes_def close_session_invar
        start_response_phase_ok ends_step_ok)
next
  case (8 _ _ err b _)
  with assms show ?thesis by (auto intro!: on_response_read_ok)
next
  case (9 _ _ err w _)
  with assms show ?thesis
    by (auto simp: on_response_written_def close_session_invar intro!: ends_step_ok pull_response_ok)
qed (use assms(3) in auto)

lemma awaits_others:
  "\<lbrakk>awaits c s; length (endpoints um) = length (endpoints (upstream_manager s))\<rbrakk> \<Longrightarrow>
     awaits c (s\<lparr>upstream_manager := um, buffer_pool := pool, metrics := m\<rparr>)"
  by (cases c) (auto simp: phase_defs)

text \<open>The only outstanding operation of an open session can complete.\<close>

lemma invar_pending:
  assumes "hs_invar s" "pending s = xs @ c # ys"
  shows "\<not> closing s \<and> xs = [] \<and> ys = [] \<and> awaits c (s\<lparr>pending := []\<rparr>) \<and>
     running (upstream_retry_used s) (view s) (s\<lparr>pending := []\<rparr>)"
proof -
  from assms have c: "\<not> closing s" "xs = []" "ys = []" "awaits c s"
    by (auto simp: hs_invar_def append_eq_Cons_conv Cons_eq_append_conv split: if_splits)
  then have "awaits c (s\<lparr>pending := []\<rparr>)" by (cases c) (auto simp: phase_defs)
  with c assms show ?thesis by (simp add: hs_invar_def phase_defs)
qed

lemma fits_pending [simp]: "fits (s\<lparr>pending := p\<rparr>) c r = fits s c r"
  by (cases c; cases r) auto

lemma step_completion_ok:
  assumes "hs_invar s" "pending s = xs @ c # ys" "fits s c r"
  shows "step_ok eng (upstream_retry_used s) (view s) (complete eng chain c r (s\<lparr>pending := xs @ ys\<rparr>))"
  using invar_pending[OF assms(1,2)] complete_ok[of "upstream_retry_used s" "view s" "s\<lparr>pending := []\<rparr>" c r]
    assms(3) by auto

lemma step_invar:
  assumes "session_step eng chain s s'" "hs_invar s"
  shows "hs_invar s'"
  using assms
proof (cases rule: session_step.cases)
  case (completion xs c ys r)
  from step_completion_ok[OF assms(2) completion(1,2), of eng chain] completion(3)
  show ?thesis by (simp add: step_ok_def)
next
  case (others um pool m)
  with assms(2) show ?thesis
    by (auto simp: hs_invar_def shared_ok_def buffers_ok_def awaits_others)
qed

lemma reachable_invar:
  assumes "session_reachable eng chain (HttpSession_new hw um pool m) s"
    and "um_invar um" "pool_invar pool"
  shows "hs_invar s"
  using assms(1)
proof (induction rule: session_reachable.induct)
  case (start s)
  then show ?case using session_start_ok[OF assms(2,3)] by (metis ends_ok_Some settled_def)
next
  case (step s s')
  then show ?case using step_invar by blast
qed

end
