(* ===== verification/Relay_Spec.thy ===== *)
theory Relay_Spec
  imports Http_Session_Proofs "HOL-Library.Sublist"
begin

text \<open>
  What a session promises to both sides of the wire, as an automaton over its log, and the proof
  that \<open>HttpSession\<close> refines it: upstream connections receive the serialized request and nothing
  else, a response begins only after the whole request has been handed over, the client receives
  the serialized response and nothing else, and the next request begins, or the connection is
  pooled, only when the exchange is complete.
\<close>

section \<open>The specification\<close>

text \<open>A message being sent: its bytes on the wire so far, whether its body is chunked, and whether
  the last piece of its body is known.\<close>

record outgoing =
  wire :: byte_list
  framing :: bool
  ended :: bool

text \<open>One exchange on a client connection. \<open>hop\<close> is the upstream connection written to,
  \<open>hop_sent\<close> what it was sent, \<open>down_sent\<close> what the client was sent of the response.\<close>

record relay =
  request :: "outgoing option"
  hop :: "socket_id option"
  hop_sent :: byte_list
  response :: "outgoing option"
  down_sent :: byte_list
  relay_closed :: bool

definition relay_init :: relay where
  "relay_init = \<lparr>request = None, hop = None, hop_sent = [], response = None, down_sent = [],
     relay_closed = False\<rparr>"

definition extend :: "byte_list \<Rightarrow> bool \<Rightarrow> outgoing \<Rightarrow> outgoing" where
  "extend d l q = q\<lparr>wire := wire q @ frame (framing q) d l, ended := ended q \<or> l\<rparr>"

definition handed_over :: "relay \<Rightarrow> bool" where
  "handed_over r \<longleftrightarrow> (case request r of None \<Rightarrow> False | Some q \<Rightarrow> ended q \<and> hop_sent r = wire q)"

definition answered :: "relay \<Rightarrow> bool" where
  "answered r \<longleftrightarrow> (case response r of None \<Rightarrow> False | Some p \<Rightarrow> ended p \<and> down_sent r = wire p)"

fun relay_step :: "io_event \<Rightarrow> relay \<Rightarrow> relay option" where
  "relay_step (RequestStarted h) r =
     (if request r = None \<and> response r = None then
        Some (r\<lparr>request := Some \<lparr>wire = request_head_bytes h,
                 framing = has_chunked_encoding (req_headers h), ended = False\<rparr>\<rparr>)
      else None)"
| "relay_step (RequestBody d l) r =
     (case request r of None \<Rightarrow> None | Some q \<Rightarrow> Some (r\<lparr>request := Some (extend d l q)\<rparr>))"
| "relay_step (UpstreamConnect ep t) r =
     (if request r \<noteq> None \<and> response r = None then Some (r\<lparr>hop := None, hop_sent := []\<rparr>) else None)"
| "relay_step (UpstreamWrite k b) r =
     (case request r of
        None \<Rightarrow> None
      | Some q \<Rightarrow>
          if response r = None \<and> (hop r = None \<or> hop r = Some k) \<and> prefix (hop_sent r @ b) (wire q)
          then Some (r\<lparr>hop := Some k, hop_sent := hop_sent r @ b\<rparr>) else None)"
| "relay_step (UpstreamClosed k) r = Some r"
| "relay_step (UpstreamReleased k) r =
     (if handed_over r \<and> answered r then Some r else None)"
| "relay_step (ResponseStarted direct h) r =
     (if direct \<or> handed_over r \<and> response r = None then
        Some (r\<lparr>response := Some \<lparr>wire = response_head_bytes h,
                 framing = has_chunked_encoding (resp_headers h), ended = False\<rparr>, down_sent := []\<rparr>)
      else None)"
| "relay_step (ResponseBody d l) r =
     (case response r of None \<Rightarrow> None | Some p \<Rightarrow> Some (r\<lparr>response := Some (extend d l p)\<rparr>))"
| "relay_step (DownstreamWrite b) r =
     (case response r of
        None \<Rightarrow> None
      | Some p \<Rightarrow> if prefix (down_sent r @ b) (wire p) then Some (r\<lparr>down_sent := down_sent r @ b\<rparr>)
                  else None)"
| "relay_step NextRequest r = (if handed_over r \<and> answered r then Some relay_init else None)"
| "relay_step DownstreamClosed r = Some (r\<lparr>relay_closed := True\<rparr>)"

text \<open>After the client connection is closed, only the upstream connection may be closed.\<close>

fun ends_hop :: "io_event \<Rightarrow> bool" where
  "ends_hop (UpstreamClosed k) = True"
| "ends_hop _ = False"

fun relay_run :: "io_event list \<Rightarrow> relay \<Rightarrow> relay option" where
  "relay_run [] r = Some r"
| "relay_run (e # es) r =
     (if relay_closed r \<and> \<not> ends_hop e then None
      else do { r1 \<leftarrow> relay_step e r; relay_run es r1 })"

lemma relay_run_append [simp]:
  "relay_run (xs @ ys) r = do { r1 \<leftarrow> relay_run xs r; relay_run ys r1 }"
  by (induction xs arbitrary: r) (auto split: bind_splits)

section \<open>Messages and serializers\<close>

text \<open>A serializer holds what is still to be sent of a message.\<close>

definition sends :: "outgoing \<Rightarrow> byte_list \<Rightarrow> serializer \<Rightarrow> bool" where
  "sends q sent ser \<longleftrightarrow> ser_invar ser \<and> chunked ser = framing q \<and> is_last_provided ser = ended q \<and>
     sent @ ser_unsent ser = wire q"

lemma provide_unsent_open:
  assumes "ser_invar ser" "stage ser \<noteq> kDone"
  shows "ser_unsent (RequestSerializer_provide_body c l ser) = ser_unsent ser @ frame (chunked ser) c l \<and>
     ser_invar (RequestSerializer_provide_body c l ser)"
  using assms
  by (auto simp: RequestSerializer_provide_body_def ser_unsent_def ser_invar_def frame_def Let_def
      append_chunk_append[of "pending_bytes ser"])

lemma sends_start_request:
  "sends \<lparr>wire = request_head_bytes h, framing = has_chunked_encoding (req_headers h), ended = False\<rparr> []
     (RequestSerializer_start h ser)"
  using RequestSerializer_start_spec[of h ser] by (simp add: sends_def)

lemma sends_start_response:
  "sends \<lparr>wire = response_head_bytes h, framing = has_chunked_encoding (resp_headers h), ended = False\<rparr> []
     (ResponseSerializer_start h ser)"
  using ResponseSerializer_start_spec[of h ser] by (simp add: sends_def)

lemma sends_provide:
  assumes "sends q sent ser" "stage ser \<noteq> kDone"
  shows "sends (extend d l q) sent (RequestSerializer_provide_body d l ser)"
    and "stage (RequestSerializer_provide_body d l ser) \<noteq> kDone"
    and "sends (extend d l q) sent (ResponseSerializer_provide_body d l ser)"
    and "stage (ResponseSerializer_provide_body d l ser) \<noteq> kDone"
  using assms provide_unsent_open[of ser d l]
  by (auto simp: sends_def extend_def provide_spec ResponseSerializer_provide_body_eq)

lemma sends_prefix: "sends q sent ser \<Longrightarrow> prefix sent (wire q)"
  unfolding sends_def by (metis prefixI)

lemma sends_pull:
  assumes "sends q sent ser" "RequestSerializer_pull n ser = (out, ser1)"
  shows "sends q (sent @ out) ser1" "prefix (sent @ out) (wire q)"
proof -
  show "sends q (sent @ out) ser1"
    using assms pull_spec[of ser n] pull_keeps[of n ser] by (simp add: sends_def)
  then show "prefix (sent @ out) (wire q)" by (rule sends_prefix)
qed

lemma sends_done: "sends q sent ser \<Longrightarrow> stage ser = kDone \<Longrightarrow> sent = wire q \<and> ended q"
  using done_unsent[of ser] by (auto simp: sends_def RequestSerializer_done_def)

section \<open>The refinement relation\<close>

text \<open>The request is on its way: \<open>sent\<close> of it has been pulled from the serializer.\<close>

definition carries :: "relay \<Rightarrow> byte_list \<Rightarrow> ('e, 'v) HttpSession \<Rightarrow> bool" where
  "carries r sent s \<longleftrightarrow> response r = None \<and> \<not> direct_response_mode s \<and> request_serializer_started s \<and>
     request_filtered s \<and> upstream_connecting s \<and> \<not> response_serializer_started s \<and> \<not> response_filtered s \<and>
     (\<exists>q ser. request r = Some q \<and> request_serializer s = Some ser \<and> sends q sent ser \<and>
        (upstream_whole_request_captured s \<longrightarrow>
           upstream_whole_request_snapshot s = wire q \<and> ended q \<and> stage ser = kDone))"

definition same_hop :: "relay \<Rightarrow> ('e, 'v) HttpSession \<Rightarrow> bool" where
  "same_hop r s \<longleftrightarrow> hop r = None \<or> hop r = upstream s"

definition reading_link :: "relay \<Rightarrow> ('e, 'v) HttpSession \<Rightarrow> bool" where
  "reading_link r s \<longleftrightarrow> response r = None \<and> \<not> direct_response_mode s \<and> \<not> upstream_whole_request_captured s \<and>
     \<not> response_serializer_started s \<and> \<not> response_filtered s \<and>
     (request_serializer_started s \<longrightarrow> request_filtered s) \<and>
     (upstream_connecting s \<longrightarrow> request_serializer_started s) \<and>
     (if request_serializer_started s
      then \<exists>q ser. request r = Some q \<and> request_serializer s = Some ser \<and> sends q (hop_sent r) ser \<and>
             stage ser \<noteq> kDone
      else request r = None) \<and>
     (if upstream_connecting s then same_hop r s else hop r = None \<and> \<not> upstream_wrote_once s) \<and>
     (\<not> upstream_wrote_once s \<longrightarrow> hop_sent r = [])"

definition writing_link :: "relay \<Rightarrow> ('e, 'v) HttpSession \<Rightarrow> bool" where
  "writing_link r s \<longleftrightarrow> carries r (hop_sent r) s \<and> same_hop r s \<and>
     (\<not> upstream_wrote_once s \<longrightarrow> hop_sent r = [])"

text \<open>The whole request has been handed over; the response may have begun.\<close>

definition answering_link :: "relay \<Rightarrow> ('e, 'v) HttpSession \<Rightarrow> bool" where
  "answering_link r s \<longleftrightarrow> \<not> direct_response_mode s \<and> handed_over r \<and>
     (upstream_whole_request_captured s \<longrightarrow>
        (\<exists>q. request r = Some q \<and> upstream_whole_request_snapshot s = wire q)) \<and>
     (response_filtered s \<longleftrightarrow> response_serializer_started s) \<and>
     (if response_serializer_started s
      then upstream_response_read_any s \<and>
           (\<exists>p ser. response r = Some p \<and> response_serializer s = Some ser \<and> sends p (down_sent r) ser)
      else response r = None)"

definition direct_link :: "relay \<Rightarrow> ('e, 'v) HttpSession \<Rightarrow> bool" where
  "direct_link r s \<longleftrightarrow> direct_response_mode s \<and>
     (\<exists>p ser. response r = Some p \<and> response_serializer s = Some ser \<and> sends p (down_sent r) ser)"

definition unfinished :: "serializer option \<Rightarrow> bool" where
  "unfinished so \<longleftrightarrow> (\<forall>ser. so = Some ser \<longrightarrow> stage ser \<noteq> kDone)"

definition snapshot_link :: "relay \<Rightarrow> ('e, 'v) HttpSession \<Rightarrow> bool" where
  "snapshot_link r s \<longleftrightarrow> response r = None \<and> \<not> direct_response_mode s \<and> \<not> response_serializer_started s \<and>
     \<not> response_filtered s \<and> hop r = None \<and> hop_sent r = [] \<and>
     (\<exists>q. request r = Some q \<and> ended q \<and> upstream_whole_request_snapshot s = wire q)"

fun link :: "continuation \<Rightarrow> relay \<Rightarrow> ('e, 'v) HttpSession \<Rightarrow> bool" where
  "link AwaitRequestRead r s = reading_link r s"
| "link AwaitAcquire r s = (writing_link r s \<and> hop r = None)"
| "link (AwaitRequestWrite n) r s =
     (carries r (hop_sent r) s \<and> same_hop r s \<and>
      (\<not> upstream_wrote_once s \<longrightarrow> (\<exists>wb. write_buf s = Some wb \<and> hop_sent r = take n wb)))"
| "link (AwaitRetryAcquire n) r s =
     (\<exists>wb. write_buf s = Some wb \<and> carries r (take n wb) s \<and> hop r = None \<and> hop_sent r = [])"
| "link AwaitRetryWrite r s = (carries r (hop_sent r) s \<and> same_hop r s)"
| "link AwaitSnapshotAcquire r s = snapshot_link r s"
| "link AwaitSnapshotWrite r s = (answering_link r s \<and> \<not> response_serializer_started s)"
| "link AwaitResponseRead r s =
     (answering_link r s \<and> (response_serializer_started s \<longrightarrow> unfinished (response_serializer s)))"
| "link AwaitResponseWrite r s =
     (direct_link r s \<or> answering_link r s \<and> response_serializer_started s)"

definition logged :: "('e, 'v) HttpSession \<Rightarrow> relay \<Rightarrow> bool" where
  "logged s r \<longleftrightarrow> relay_run (io s) relay_init = Some r \<and> \<not> relay_closed r \<and> \<not> closing s \<and> pending s = []"

definition linked :: "('e, 'v) HttpSession \<Rightarrow> bool" where
  "linked s \<longleftrightarrow> (\<exists>r. relay_run (io s) relay_init = Some r \<and> relay_closed r = closing s \<and>
     (\<forall>c \<in> set (pending s). link c r s))"

lemmas link_defs = reading_link_def writing_link_def answering_link_def direct_link_def carries_def
  same_hop_def snapshot_link_def unfinished_def

text \<open>The relation does not depend on the log, the operation that is started, or the shard's
  resources.\<close>

lemma handed_over_frame [simp]:
  "handed_over (r\<lparr>down_sent := b\<rparr>) = handed_over r" "handed_over (r\<lparr>response := p\<rparr>) = handed_over r"
  by (simp_all add: handed_over_def split: option.split)

lemma link_frame [simp]:
  "reading_link r (s\<lparr>pending := x\<rparr>) = reading_link r s"
  "writing_link r (s\<lparr>pending := x\<rparr>) = writing_link r s"
  "answering_link r (s\<lparr>pending := x\<rparr>) = answering_link r s"
  "direct_link r (s\<lparr>pending := x\<rparr>) = direct_link r s"
  "snapshot_link r (s\<lparr>pending := x\<rparr>) = snapshot_link r s"
  "carries r b (s\<lparr>pending := x\<rparr>) = carries r b s"
  "same_hop r (s\<lparr>pending := x\<rparr>) = same_hop r s"
  "reading_link r (s\<lparr>io := y\<rparr>) = reading_link r s"
  "writing_link r (s\<lparr>io := y\<rparr>) = writing_link r s"
  "answering_link r (s\<lparr>io := y\<rparr>) = answering_link r s"
  "direct_link r (s\<lparr>io := y\<rparr>) = direct_link r s"
  "snapshot_link r (s\<lparr>io := y\<rparr>) = snapshot_link r s"
  "carries r b (s\<lparr>io := y\<rparr>) = carries r b s"
  "same_hop r (s\<lparr>io := y\<rparr>) = same_hop r s"
  by (simp_all add: link_defs)

lemma link_shared [simp]:
  "link c r (s\<lparr>upstream_manager := um, buffer_pool := pool, metrics := m\<rparr>) = link c r s"
  "link c r (s\<lparr>pending := x\<rparr>) = link c r s"
  by (cases c; simp add: link_defs)+

end
