(* ===== verification/Message_Stream.thy ===== *)
theory Message_Stream
  imports Relay_Spec
begin

text \<open>
  Two ways to read a message, to compare the session with. \<open>receive_request\<close> and \<open>receive_response\<close>
  are what a peer sent: its reads given to a parser that is never drained, so that the parser's
  scratch buffer is the whole body, and the head as it was when it first was complete.
  \<open>request_of\<close> and \<open>response_of\<close> are what the session passed on: the head and the body pieces it gave to
  its serializer since the last \<open>NextRequest\<close>.
\<close>

section \<open>What was received\<close>

text \<open>Feeding one read as the loops of the session do: what \<open>g\<close> has not consumed is fed again, until it
  consumes nothing.\<close>

function feed_all :: "(byte_list \<Rightarrow> 'x \<Rightarrow> nat \<times> 'x) \<Rightarrow> byte_list \<Rightarrow> 'x \<Rightarrow> 'x" where
  "feed_all g raw x =
     (if raw = [] then x
      else case g raw x of (n, x1) \<Rightarrow> if n = 0 then x1 else feed_all g (drop n raw) x1)"
  by pat_completeness auto
termination by (relation "measure (\<lambda>(g, raw, x). length raw)") auto

declare feed_all.simps [simp del]

lemma feed_all_Nil [simp]: "feed_all g [] x = x"
  by (simp add: feed_all.simps)

lemma feed_all_step:
  "raw \<noteq> [] \<Longrightarrow> g raw x = (n, x1) \<Longrightarrow> feed_all g raw x = (if n = 0 then x1 else feed_all g (drop n raw) x1)"
  by (subst feed_all.simps) simp

definition request_feed ::
  "'e llhttp_engine \<Rightarrow> byte_list \<Rightarrow> RequestHead option \<times> 'e RequestParser
     \<Rightarrow> nat \<times> RequestHead option \<times> 'e RequestParser" where
  "request_feed eng raw x =
     (let (n, p) = rq_feed eng raw (snd x)
      in (n, if fst x = None \<and> rq_header_done p then Some (rq_head p) else fst x, p))"

definition receive_request ::
  "'e llhttp_engine \<Rightarrow> byte_list list \<Rightarrow> RequestHead option \<times> 'e RequestParser" where
  "receive_request eng raws = fold (feed_all (request_feed eng)) raws (None, RequestParser_new eng)"

definition response_feed ::
  "'e llhttp_engine \<Rightarrow> byte_list \<Rightarrow> ResponseHead option \<times> 'e ResponseParser
     \<Rightarrow> nat \<times> ResponseHead option \<times> 'e ResponseParser" where
  "response_feed eng raw x =
     (let (n, p) = rs_feed eng raw (snd x)
      in (n, if fst x = None \<and> rs_header_done p then Some (rs_head p) else fst x, p))"

definition receive_response ::
  "'e llhttp_engine \<Rightarrow> byte_list list \<Rightarrow> ResponseHead option \<times> 'e ResponseParser" where
  "receive_response eng raws = fold (feed_all (response_feed eng)) raws (None, ResponseParser_new eng)"

lemma receive_simps [simp]:
  "receive_request eng [] = (None, RequestParser_new eng)"
  "receive_request eng (raws @ [raw]) = feed_all (request_feed eng) raw (receive_request eng raws)"
  "receive_response eng [] = (None, ResponseParser_new eng)"
  "receive_response eng (raws @ [raw]) = feed_all (response_feed eng) raw (receive_response eng raws)"
  by (simp_all add: receive_request_def receive_response_def)

text \<open>A parser does not look at the body it has collected: draining it commutes with feeding it.\<close>

abbreviation rq_undrained :: "byte_list \<Rightarrow> 'e RequestParser \<Rightarrow> 'e RequestParser" where
  "rq_undrained b p \<equiv> p\<lparr>rq_scratch := b @ rq_scratch p\<rparr>"

abbreviation rs_undrained :: "byte_list \<Rightarrow> 'e ResponseParser \<Rightarrow> 'e ResponseParser" where
  "rs_undrained b p \<equiv> p\<lparr>rs_scratch := b @ rs_scratch p\<rparr>"

lemma rq_callback_undrained: "rq_callback e (rq_undrained b p) = rq_undrained b (rq_callback e p)"
  by (cases "(e, p)" rule: rq_callback.cases) (simp_all add: rq_callback_defs)

lemma rs_callback_undrained: "rs_callback e (rs_undrained b p) = rs_undrained b (rs_callback e p)"
  by (cases "(e, p)" rule: rs_callback.cases) (simp_all add: rs_callback_defs)

lemma fold_undrained:
  "fold rq_callback evs (rq_undrained b p) = rq_undrained b (fold rq_callback evs p)"
  "fold rs_callback evs (rs_undrained b q) = rs_undrained b (fold rs_callback evs q)"
  by (induction evs arbitrary: p q)
    (simp_all add: rq_callback_undrained rs_callback_undrained del: rq_callback_scratch rs_callback_scratch)

lemma rq_feed_undrained:
  "rq_feed eng raw p = (n, p1) \<Longrightarrow> rq_feed eng raw (rq_undrained b p) = (n, rq_undrained b p1)"
  by (auto simp: rq_feed_def Let_def fold_undrained split: prod.splits if_splits)

lemma rs_feed_undrained:
  "rs_feed eng raw p = (n, p1) \<Longrightarrow> rs_feed eng raw (rs_undrained b p) = (n, rs_undrained b p1)"
  by (auto simp: rs_feed_def Let_def fold_undrained split: prod.splits if_splits)

section \<open>What was passed on\<close>

fun note_request :: "io_event \<Rightarrow> (RequestHead \<times> ser_op list) option \<Rightarrow> (RequestHead \<times> ser_op list) option" where
  "note_request (RequestStarted h) m = Some (h, [])"
| "note_request (RequestBody d l) m = map_option (\<lambda>(h, ps). (h, ps @ [Provide d l])) m"
| "note_request NextRequest m = None"
| "note_request _ m = m"

definition request_of :: "io_event list \<Rightarrow> (RequestHead \<times> ser_op list) option" where
  "request_of es = fold note_request es None"

fun note_response :: "io_event \<Rightarrow> (ResponseHead \<times> ser_op list) option \<Rightarrow> (ResponseHead \<times> ser_op list) option" where
  "note_response (ResponseStarted direct h) m = Some (h, [])"
| "note_response (ResponseBody d l) m = map_option (\<lambda>(h, ps). (h, ps @ [Provide d l])) m"
| "note_response NextRequest m = None"
| "note_response _ m = m"

definition response_of :: "io_event list \<Rightarrow> (ResponseHead \<times> ser_op list) option" where
  "response_of es = fold note_response es None"

lemma log_simps [simp]:
  "request_of [] = None" "request_of (es @ [e]) = note_request e (request_of es)"
  "response_of [] = None" "response_of (es @ [e]) = note_response e (response_of es)"
  by (simp_all add: request_of_def response_of_def)

lemma log_append: "request_of (es @ fs) = fold note_request fs (request_of es)"
  "response_of (es @ fs) = fold note_response fs (response_of es)"
  by (simp_all add: request_of_def response_of_def)

lemma ops_append [simp]:
  "body_wire ch (xs @ ys) = body_wire ch xs @ body_wire ch ys"
  "provided (xs @ ys) = provided xs @ provided ys"
  "gives_last (xs @ ys) \<longleftrightarrow> gives_last xs \<or> gives_last ys"
  by (induction xs rule: provided.induct) simp_all

lemma one_last_snoc: "one_last xs \<Longrightarrow> \<not> gives_last xs \<Longrightarrow> one_last (xs @ [x])"
proof (induction xs rule: one_last.induct)
  case 1
  then show ?case by (cases x) simp_all
qed (auto split: if_splits)

text \<open>The automaton of \<open>Relay_Spec\<close> sees the same messages: what it calls the request is the head and
  the pieces of the log, on the wire.\<close>

lemma relay_request:
  assumes "relay_run es relay_init = Some r"
  shows "case request_of es of
       None \<Rightarrow> request r = None
     | Some (h, ps) \<Rightarrow> \<exists>q. request r = Some q \<and> framing q = has_chunked_encoding (req_headers h) \<and>
         ended q = gives_last ps \<and> wire q = request_head_bytes h @ body_wire (framing q) ps"
  using assms
proof (induction es arbitrary: r rule: rev_induct)
  case (snoc e es)
  then obtain r1 where "relay_run es relay_init = Some r1" "relay_step e r1 = Some r"
    by (auto split: bind_splits if_splits)
  with snoc.IH[of r1] show ?case
    by (cases e) (auto simp: extend_def relay_init_def split: option.splits if_splits)
qed (simp add: relay_init_def)

lemma relay_response:
  assumes "relay_run es relay_init = Some r"
  shows "case response_of es of
       None \<Rightarrow> response r = None
     | Some (h, ps) \<Rightarrow> \<exists>q. response r = Some q \<and> framing q = has_chunked_encoding (resp_headers h) \<and>
         ended q = gives_last ps \<and> wire q = response_head_bytes h @ body_wire (framing q) ps"
  using assms
proof (induction es arbitrary: r rule: rev_induct)
  case (snoc e es)
  then obtain r1 where "relay_run es relay_init = Some r1" "relay_step e r1 = Some r"
    by (auto split: bind_splits if_splits)
  with snoc.IH[of r1] show ?case
    by (cases e) (auto simp: extend_def relay_init_def split: option.splits if_splits)
qed (simp add: relay_init_def)

end
