(* ===== verification/Session_Rules.thy ===== *)
theory Session_Rules
  imports Http_Session
begin

text \<open>
  Rules for the four loops of \<open>HttpSession\<close>. In the rules \<open>_steps\<close> the invariant \<open>I\<close> follows the
  loop: for a drain loop it depends on the piece held back, for a parse loop on the input that is left. In
  the rules \<open>_rule\<close> it does not: what the body of a loop keeps, the loop keeps. \<open>Q\<close> holds when the relay
  has ended because the session answered directly or closed. The simulation of \<open>Relay_Refinement\<close>, the
  accounting of \<open>Connection_Ownership\<close> and the theories on forwarding use them.
\<close>

section \<open>Draining a parser\<close>

lemma drain_response_steps:
  assumes "drain_response_loop eng chain pend s = Some s'" "I pend s"
    and take: "\<And>t rp out rp1. \<lbrakk>I None t; response_parser t = Some rp; rs_read_body body_scratch_size rp = (out, rp1);
      out \<noteq> []\<rbrakk> \<Longrightarrow> I (Some out) (t\<lparr>response_parser := Some rp1\<rparr>)"
    and pass: "\<And>c t rp out rp1 b t'. \<lbrakk>I (Some c) t; response_parser t = Some rp;
      rs_read_body body_scratch_size rp = (out, rp1); out \<noteq> [];
      process_response_data_chunk eng chain c False (t\<lparr>response_parser := Some rp1\<rparr>) = Some (b, t')\<rbrakk> \<Longrightarrow>
      if b then I (Some out) t' else Q t'"
    and last: "\<And>c t rp b t'. \<lbrakk>I (Some c) t; response_parser t = Some rp; rs_scratch rp = [];
      process_response_data_chunk eng chain c (rs_message_done rp) t = Some (b, t')\<rbrakk> \<Longrightarrow>
      if b then I None t' else Q t'"
  shows "I None s' \<and> unread_response s' = 0 \<or> Q s'"
  using assms(1,2)
proof (induction "unread_response s" arbitrary: pend s rule: less_induct)
  case less
  note loop = drain_response_loop.simps[of _ _ _ s]
  obtain rp where rp: "response_parser s = Some rp"
    using less.prems(1) by (auto simp: loop split: option.splits)
  obtain out rp1 where rd: "rs_read_body body_scratch_size rp = (out, rp1)" by fastforce
  have empty: "rs_scratch rp = []" if "out = []"
    using that rd by (auto simp: rs_read_body_def Let_def body_scratch_size_def min_def split: if_splits)
  show ?case
  proof (cases pend)
    case None
    show ?thesis
    proof (cases "out = []")
      case True
      with less.prems(1,2) rp rd None empty show ?thesis by (simp add: loop unread_response_def)
    next
      case False
      with less.prems(1) None rp rd have "drain_response_loop eng chain (Some out) (s\<lparr>response_parser := Some rp1\<rparr>) = Some s'"
        by (simp add: loop)
      moreover have "unread_response (s\<lparr>response_parser := Some rp1\<rparr>) < unread_response s"
        using rs_read_body_progress[OF rd False] rp by (simp add: unread_response_def)
      ultimately show ?thesis using less.hyps take[OF _ rp rd False] less.prems(2) None by blast
    qed
  next
    case (Some c)
    show ?thesis
    proof (cases "out = []")
      case True
      with less.prems(1) rp rd Some obtain b where
        p: "process_response_data_chunk eng chain c (rs_message_done rp) s = Some (b, s')"
        by (auto simp: loop)
      then have "b \<Longrightarrow> unread_response s' = 0"
        using process_response_data_chunk_keeps_parser rp empty[OF True] by (fastforce simp: unread_response_def)
      with last[OF _ rp empty[OF True] p] less.prems(2) Some show ?thesis by (auto split: if_splits)
    next
      case False
      with less.prems(1) rp rd Some obtain b s2 where
        p: "process_response_data_chunk eng chain c False (s\<lparr>response_parser := Some rp1\<rparr>) = Some (b, s2)"
        "if b then drain_response_loop eng chain (Some out) s2 = Some s' else s' = s2"
        by (auto simp: loop split: option.splits if_splits)
      from pass[OF _ rp rd False p(1)] less.prems(2) Some have "if b then I (Some out) s2 else Q s2" by simp
      moreover have "b \<Longrightarrow> unread_response s2 < unread_response s"
        using process_response_data_chunk_keeps_parser p(1) rs_read_body_progress[OF rd False] rp
        by (fastforce simp: unread_response_def)
      ultimately show ?thesis using less.hyps p(2) by (cases b) auto
    qed
  qed
qed

lemma drain_response_rule:
  assumes "drain_response_loop eng chain pend s = Some s'" "I s"
    and "\<And>c e t b t'. I t \<Longrightarrow> process_response_data_chunk eng chain c e t = Some (b, t') \<Longrightarrow>
      if b then I t' else Q t'"
    and parser: "\<And>t rp. I t \<Longrightarrow> I (t\<lparr>response_parser := Some rp\<rparr>)"
  shows "I s' \<or> Q s'"
  using drain_response_steps[OF assms(1), of "\<lambda>_. I" Q] assms(2-4) by blast

lemma drain_request_steps:
  assumes "drain_request_loop eng chain pend s = Some s'" "I pend s"
    and take: "\<And>t rp out rp1. \<lbrakk>I None t; request_parser t = Some rp; rq_read_body body_scratch_size rp = (out, rp1);
      out \<noteq> []\<rbrakk> \<Longrightarrow> I (Some out) (t\<lparr>request_parser := Some rp1\<rparr>)"
    and pass: "\<And>c t rp out rp1 b t'. \<lbrakk>I (Some c) t; request_parser t = Some rp;
      rq_read_body body_scratch_size rp = (out, rp1); out \<noteq> [];
      process_request_data_chunk eng chain c False (t\<lparr>request_parser := Some rp1\<rparr>) = Some (b, t')\<rbrakk> \<Longrightarrow>
      if b then I (Some out) t' else Q t'"
    and last: "\<And>c t rp b t'. \<lbrakk>I (Some c) t; request_parser t = Some rp; rq_scratch rp = [];
      process_request_data_chunk eng chain c (rq_message_done rp) t = Some (b, t')\<rbrakk> \<Longrightarrow>
      if b then I None t' else Q t'"
  shows "I None s' \<and> unread_request s' = 0 \<or> Q s'"
  using assms(1,2)
proof (induction "unread_request s" arbitrary: pend s rule: less_induct)
  case less
  note loop = drain_request_loop.simps[of _ _ _ s]
  obtain rp where rp: "request_parser s = Some rp"
    using less.prems(1) by (auto simp: loop split: option.splits)
  obtain out rp1 where rd: "rq_read_body body_scratch_size rp = (out, rp1)" by fastforce
  have empty: "rq_scratch rp = []" if "out = []"
    using that rd by (auto simp: rq_read_body_def Let_def body_scratch_size_def min_def split: if_splits)
  show ?case
  proof (cases pend)
    case None
    show ?thesis
    proof (cases "out = []")
      case True
      with less.prems(1,2) rp rd None empty show ?thesis by (simp add: loop unread_request_def)
    next
      case False
      with less.prems(1) None rp rd have "drain_request_loop eng chain (Some out) (s\<lparr>request_parser := Some rp1\<rparr>) = Some s'"
        by (simp add: loop)
      moreover have "unread_request (s\<lparr>request_parser := Some rp1\<rparr>) < unread_request s"
        using rq_read_body_progress[OF rd False] rp by (simp add: unread_request_def)
      ultimately show ?thesis using less.hyps take[OF _ rp rd False] less.prems(2) None by blast
    qed
  next
    case (Some c)
    show ?thesis
    proof (cases "out = []")
      case True
      with less.prems(1) rp rd Some obtain b where
        p: "process_request_data_chunk eng chain c (rq_message_done rp) s = Some (b, s')"
        by (auto simp: loop)
      then have "b \<Longrightarrow> unread_request s' = 0"
        using process_request_data_chunk_keeps_parser rp empty[OF True] by (fastforce simp: unread_request_def)
      with last[OF _ rp empty[OF True] p] less.prems(2) Some show ?thesis by (auto split: if_splits)
    next
      case False
      with less.prems(1) rp rd Some obtain b s2 where
        p: "process_request_data_chunk eng chain c False (s\<lparr>request_parser := Some rp1\<rparr>) = Some (b, s2)"
        "if b then drain_request_loop eng chain (Some out) s2 = Some s' else s' = s2"
        by (auto simp: loop split: option.splits if_splits)
      from pass[OF _ rp rd False p(1)] less.prems(2) Some have "if b then I (Some out) s2 else Q s2" by simp
      moreover have "b \<Longrightarrow> unread_request s2 < unread_request s"
        using process_request_data_chunk_keeps_parser p(1) rq_read_body_progress[OF rd False] rp
        by (fastforce simp: unread_request_def)
      ultimately show ?thesis using less.hyps p(2) by (cases b) auto
    qed
  qed
qed

lemma drain_request_rule:
  assumes "drain_request_loop eng chain pend s = Some s'" "I s"
    and "\<And>c e t b t'. I t \<Longrightarrow> process_request_data_chunk eng chain c e t = Some (b, t') \<Longrightarrow>
      if b then I t' else Q t'"
    and parser: "\<And>t rp. I t \<Longrightarrow> I (t\<lparr>request_parser := Some rp\<rparr>)"
  shows "I s' \<or> Q s'"
  using drain_request_steps[OF assms(1), of "\<lambda>_. I" Q] assms(2-4) by blast

section \<open>Feeding a parser\<close>

lemma response_loop_steps:
  assumes "response_loop eng chain raw s = Some (b, s')" "I raw s"
    and exit: "\<And>t. I [] t \<Longrightarrow> E t"
    and returns: "\<And>raw t rp n rp1 t'. \<lbrakk>I raw t; raw \<noteq> []; response_parser t = Some rp; rs_feed eng raw rp = (n, rp1);
      filter_response_head eng chain (t\<lparr>response_parser := Some rp1\<rparr>) = Some (True, t')\<rbrakk> \<Longrightarrow> Q t'"
    and turn: "\<And>raw t rp n rp1 t2 t3. \<lbrakk>I raw t; raw \<noteq> []; response_parser t = Some rp; rs_feed eng raw rp = (n, rp1);
      filter_response_head eng chain (t\<lparr>response_parser := Some rp1\<rparr>) = Some (False, t2);
      (if response_serializer_started t2 then drain_response_body_into_serializer eng chain t2 else Some t2) = Some t3\<rbrakk> \<Longrightarrow>
      if response_serializer_started t2 \<and> direct_response_mode t3 then Q t3
      else if n = 0 then E t3 else I (drop n raw) t3"
    and close: "\<And>t. E t \<Longrightarrow> Q (close_session t)"
  shows "if b then Q s' else E s'"
  using assms(1,2)
proof (induction "length raw" arbitrary: raw s rule: less_induct)
  case less
  note loop = response_loop.simps[of _ _ _ s]
  show ?case
  proof (cases "raw = []")
    case True
    with less.prems(1,2) exit show ?thesis by (simp add: loop)
  next
    case False
    then obtain rp where rp: "response_parser s = Some rp"
      using less.prems(1) by (auto simp: loop split: option.splits)
    obtain n rp1 where f: "rs_feed eng raw rp = (n, rp1)" by fastforce
    obtain r s2 where h: "filter_response_head eng chain (s\<lparr>response_parser := Some rp1\<rparr>) = Some (r, s2)"
      using less.prems(1) False rp f by (auto simp: loop split: option.splits)
    show ?thesis
    proof (cases r)
      case True
      with returns[OF less.prems(2) False rp f] less.prems(1) False rp f h show ?thesis by (simp add: loop)
    next
      case r: False
      let ?d = "if response_serializer_started s2 then drain_response_body_into_serializer eng chain s2 else Some s2"
      obtain s3 where d: "?d = Some s3"
        using less.prems(1) False rp f h r by (auto simp: loop split: option.splits)
      have k3: "if response_serializer_started s2 \<and> direct_response_mode s3 then Q s3
          else if n = 0 then E s3 else I (drop n raw) s3"
        using turn[OF less.prems(2) False rp f _ d] h r by simp
      have eq: "(if response_serializer_started s2 \<and> direct_response_mode s3 then Some (True, s3)
          else if n = 0 then if rs_has_error rp1 then Some (True, close_session s3) else Some (False, s3)
          else response_loop eng chain (drop n raw) s3) = Some (b, s')"
        using less.prems(1) False rp f h r d unfolding loop by simp
      show ?thesis
      proof (cases "response_serializer_started s2 \<and> direct_response_mode s3 \<or> n = 0")
        case True
        with eq k3 close show ?thesis by (auto split: if_splits)
      next
        case go: False
        with eq have "response_loop eng chain (drop n raw) s3 = Some (b, s')" by auto
        with less.hyps[of "drop n raw" s3] go k3 False show ?thesis by auto
      qed
    qed
  qed
qed

lemma response_loop_rule:
  assumes "response_loop eng chain raw s = Some (b, s')" "I s"
    and head: "\<And>t r t'. I t \<Longrightarrow> filter_response_head eng chain t = Some (r, t') \<Longrightarrow> if r then Q t' else I t'"
    and drain: "\<And>t t'. I t \<Longrightarrow> response_serializer_started t \<Longrightarrow> drain_response_body_into_serializer eng chain t = Some t' \<Longrightarrow>
      if direct_response_mode t' then Q t' else I t'"
    and parser: "\<And>t rp. I t \<Longrightarrow> I (t\<lparr>response_parser := Some rp\<rparr>)"
    and close: "\<And>t. I t \<Longrightarrow> Q (close_session t)"
  shows "if b then Q s' else I s'"
proof (rule response_loop_steps[where I = "\<lambda>_. I" and E = I, OF assms(1,2)])
  show "Q t'" if "I t" "filter_response_head eng chain (t\<lparr>response_parser := Some rp1\<rparr>) = Some (True, t')" for t rp1 t'
    using head[OF parser[OF that(1)] that(2)] by simp
  show "if response_serializer_started t2 \<and> direct_response_mode t3 then Q t3 else if n = 0 then I t3 else I t3"
    if "I t" "filter_response_head eng chain (t\<lparr>response_parser := Some rp1\<rparr>) = Some (False, t2)"
      "(if response_serializer_started t2 then drain_response_body_into_serializer eng chain t2 else Some t2) = Some t3"
    for t n rp1 t2 t3
    using head[OF parser[OF that(1)] that(2)] drain[of t2 t3] that(3) by (auto split: if_splits)
qed (use close in auto)

lemma request_loop_steps:
  assumes "request_loop eng chain raw s = Some (b, s')" "I raw s"
    and exit: "\<And>t. I [] t \<Longrightarrow> E t"
    and returns: "\<And>raw t rp n rp1 t'. \<lbrakk>I raw t; raw \<noteq> []; request_parser t = Some rp; rq_feed eng raw rp = (n, rp1);
      filter_request_head eng chain (t\<lparr>request_parser := Some rp1\<rparr>) = Some (True, t')\<rbrakk> \<Longrightarrow> Q t'"
    and turn: "\<And>raw t rp n rp1 t2 t3. \<lbrakk>I raw t; raw \<noteq> []; request_parser t = Some rp; rq_feed eng raw rp = (n, rp1);
      filter_request_head eng chain (t\<lparr>request_parser := Some rp1\<rparr>) = Some (False, t2);
      (if request_serializer_started t2 then drain_request_body_into_serializer eng chain t2 else Some t2) = Some t3\<rbrakk> \<Longrightarrow>
      if request_serializer_started t2 \<and> direct_response_mode t3 then Q t3
      else if n = 0 then E t3 else I (drop n raw) t3"
    and close: "\<And>t. E t \<Longrightarrow> Q (close_session t)"
  shows "if b then Q s' else E s'"
  using assms(1,2)
proof (induction "length raw" arbitrary: raw s rule: less_induct)
  case less
  note loop = request_loop.simps[of _ _ _ s]
  show ?case
  proof (cases "raw = []")
    case True
    with less.prems(1,2) exit show ?thesis by (simp add: loop)
  next
    case False
    then obtain rp where rp: "request_parser s = Some rp"
      using less.prems(1) by (auto simp: loop split: option.splits)
    obtain n rp1 where f: "rq_feed eng raw rp = (n, rp1)" by fastforce
    obtain r s2 where h: "filter_request_head eng chain (s\<lparr>request_parser := Some rp1\<rparr>) = Some (r, s2)"
      using less.prems(1) False rp f by (auto simp: loop split: option.splits)
    show ?thesis
    proof (cases r)
      case True
      with returns[OF less.prems(2) False rp f] less.prems(1) False rp f h show ?thesis by (simp add: loop)
    next
      case r: False
      let ?d = "if request_serializer_started s2 then drain_request_body_into_serializer eng chain s2 else Some s2"
      obtain s3 where d: "?d = Some s3"
        using less.prems(1) False rp f h r by (auto simp: loop split: option.splits)
      have k3: "if request_serializer_started s2 \<and> direct_response_mode s3 then Q s3
          else if n = 0 then E s3 else I (drop n raw) s3"
        using turn[OF less.prems(2) False rp f _ d] h r by simp
      have eq: "(if request_serializer_started s2 \<and> direct_response_mode s3 then Some (True, s3)
          else if n = 0 then if rq_has_error rp1 then Some (True, close_session s3) else Some (False, s3)
          else request_loop eng chain (drop n raw) s3) = Some (b, s')"
        using less.prems(1) False rp f h r d unfolding loop by simp
      show ?thesis
      proof (cases "request_serializer_started s2 \<and> direct_response_mode s3 \<or> n = 0")
        case True
        with eq k3 close show ?thesis by (auto split: if_splits)
      next
        case go: False
        with eq have "request_loop eng chain (drop n raw) s3 = Some (b, s')" by auto
        with less.hyps[of "drop n raw" s3] go k3 False show ?thesis by auto
      qed
    qed
  qed
qed

lemma request_loop_rule:
  assumes "request_loop eng chain raw s = Some (b, s')" "I s"
    and head: "\<And>t r t'. I t \<Longrightarrow> filter_request_head eng chain t = Some (r, t') \<Longrightarrow> if r then Q t' else I t'"
    and drain: "\<And>t t'. I t \<Longrightarrow> request_serializer_started t \<Longrightarrow> drain_request_body_into_serializer eng chain t = Some t' \<Longrightarrow>
      if direct_response_mode t' then Q t' else I t'"
    and parser: "\<And>t rp. I t \<Longrightarrow> I (t\<lparr>request_parser := Some rp\<rparr>)"
    and close: "\<And>t. I t \<Longrightarrow> Q (close_session t)"
  shows "if b then Q s' else I s'"
proof (rule request_loop_steps[where I = "\<lambda>_. I" and E = I, OF assms(1,2)])
  show "Q t'" if "I t" "filter_request_head eng chain (t\<lparr>request_parser := Some rp1\<rparr>) = Some (True, t')" for t rp1 t'
    using head[OF parser[OF that(1)] that(2)] by simp
  show "if request_serializer_started t2 \<and> direct_response_mode t3 then Q t3 else if n = 0 then I t3 else I t3"
    if "I t" "filter_request_head eng chain (t\<lparr>request_parser := Some rp1\<rparr>) = Some (False, t2)"
      "(if request_serializer_started t2 then drain_request_body_into_serializer eng chain t2 else Some t2) = Some t3"
    for t n rp1 t2 t3
    using head[OF parser[OF that(1)] that(2)] drain[of t2 t3] that(3) by (auto split: if_splits)
qed (use close in auto)

end
