(* ===== verification/Exchange_Frames.thy ===== *)
theory Exchange_Frames
  imports Message_Stream Session_Rules
begin

text \<open>
  What the methods of \<open>HttpSession\<close> leave alone. The members that say how far the current request and
  the current response have come are the two sides of an exchange. Methods that connect, write or retry
  change neither side (\<open>quiet\<close>); the response writer keeps both or begins the next exchange (\<open>renewed\<close>); the
  loop of one direction keeps the side of the other. From the moment the session closes or
  answers on its own account, nothing is forwarded any more and nothing is claimed.
\<close>

section \<open>Two sides\<close>

text \<open>The turns to a next request so far.\<close>

definition turns :: "('e, 'v) HttpSession \<Rightarrow> nat" where
  "turns s = count_list (io s) NextRequest"

definition request_side where
  "request_side s = (request_parser s, request_filtered s, request_serializer_started s, request_final_body_provided s,
     request_state (body_filter_gate s), high_watermark_bytes (body_filter_gate s), request_of (io s), turns s,
     if request_serializer_started s then Map.empty else filter_ctx s)"

definition response_side where
  "response_side s = (response_filtered s, response_serializer_started s, response_final_body_provided s,
     response_state (body_filter_gate s), high_watermark_bytes (body_filter_gate s), response_of (io s), turns s,
     upstream_response_read_any s, downstream_keep_alive_effective s)"

definition local_end :: "('e, 'v) HttpSession \<Rightarrow> bool" where
  "local_end s \<longleftrightarrow> closing s \<or> direct_response_mode s"

lemmas side_defs = request_side_def response_side_def local_end_def turns_def

definition quiet :: "'e llhttp_engine \<Rightarrow> ('e, 'v) HttpSession \<Rightarrow> ('e, 'v) HttpSession \<Rightarrow> bool" where
  "quiet eng s s' \<longleftrightarrow> local_end s' \<or>
     \<not> local_end s \<and> request_side s' = request_side s \<and> response_side s' = response_side s \<and>
     (response_parser s' = response_parser s \<or> response_parser s' = Some (ResponseParser_new eng))"

lemma turns_shared [simp]:
  "turns (s\<lparr>pending := p\<rparr>) = turns s" "turns (s\<lparr>read_buf := b\<rparr>) = turns s"
  "turns (s\<lparr>upstream_manager := um, buffer_pool := pool, metrics := m\<rparr>) = turns s"
  by (simp_all add: turns_def)

text \<open>The exchange begins anew.\<close>

definition renewed :: "'e llhttp_engine \<Rightarrow> ('e, 'v) HttpSession \<Rightarrow> ('e, 'v) HttpSession \<Rightarrow> bool" where
  "renewed eng s s' \<longleftrightarrow> \<not> local_end s' \<and> response_parser s' = None \<and>
     request_side s' = (Some (RequestParser_new eng), False, False, False, DataIterationState_init,
       high_watermark_bytes (body_filter_gate s), None, Suc (turns s), Map.empty) \<and>
     response_side s' = (False, False, False, DataIterationState_init, high_watermark_bytes (body_filter_gate s), None,
       Suc (turns s), False, False)"

lemma quiet_refl: "\<not> local_end s \<Longrightarrow> quiet eng s s"
  by (simp add: quiet_def)

lemma quiet_trans: "quiet eng s t \<Longrightarrow> quiet eng t u \<Longrightarrow> quiet eng s u"
  unfolding quiet_def by auto

lemma local_end_close [simp]: "local_end (close_session s)"
  by (simp add: local_end_def close_session_def Let_def split: option.split)

lemma quiet_close [simp]: "quiet eng s (close_session t)"
  by (simp add: quiet_def)

section \<open>Methods that change no side\<close>

lemma read_chunk_quiet:
  "read_request_chunk s = Some s' \<Longrightarrow> \<not> local_end s \<Longrightarrow> quiet eng s s'"
  "read_response_chunk s = Some s' \<Longrightarrow> \<not> local_end s \<Longrightarrow> quiet eng s s'"
  by (auto simp: read_request_chunk_def read_response_chunk_def quiet_def side_defs split: bind_splits)

lemma start_response_quiet:
  assumes "start_response_phase eng s = Some s'" "\<not> local_end s"
  shows "quiet eng s s'"
  using assms by (auto simp: start_response_phase_def read_response_chunk_def quiet_def side_defs split: bind_splits)

lemma pull_request_quiet:
  assumes "pull_and_write_request_to_upstream eng s = Some s'" "\<not> local_end s"
  shows "quiet eng s s'"
proof -
  have frame: "quiet eng s (s\<lparr>request_serializer := x, write_buf := y\<rparr>)"
    "\<not> local_end (s\<lparr>request_serializer := x, write_buf := y\<rparr>)" for x y
    using assms(2) by (auto simp: quiet_def side_defs)
  show ?thesis
    using assms
    by (auto simp: pull_and_write_request_to_upstream_def Let_def split: bind_splits if_splits prod.splits
        dest!: start_response_quiet[OF _ frame(2)] read_chunk_quiet(1)[OF _ frame(2), of _ _ _ eng]
        intro: quiet_trans[OF frame(1)])
      (auto simp: quiet_def side_defs)
qed

lemma set_upstream_quiet: "\<not> local_end s \<Longrightarrow> quiet eng s (set_upstream k s)" "\<not> local_end s \<Longrightarrow> \<not> local_end (set_upstream k s)"
  by (auto simp: set_upstream_def quiet_def side_defs log_append split: option.splits)

lemma on_acquire_quiet:
  assumes "on_acquire eng err sock s = Some s'" "\<not> local_end s"
  shows "quiet eng s s'"
  using assms quiet_trans[OF set_upstream_quiet(1) pull_request_quiet[OF _ set_upstream_quiet(2)]]
  by (auto simp: on_acquire_def split: option.splits if_splits)

lemma connect_upstream_quiet:
  assumes "connect_upstream eng s = Some s'" "\<not> local_end s"
  shows "quiet eng s s'"
proof -
  have frame: "quiet eng s (s\<lparr>endpoint_index := i, upstream_manager := um\<rparr>)"
    "\<not> local_end (s\<lparr>endpoint_index := i, upstream_manager := um\<rparr>)" for i um
    using assms(2) by (auto simp: quiet_def side_defs)
  show ?thesis
    using assms
    by (auto simp: connect_upstream_def Let_def split: bind_splits acquisition.splits prod.splits
        dest!: on_acquire_quiet[OF _ frame(2)] intro: quiet_trans[OF frame(1)])
      (auto simp: quiet_def side_defs)
qed

lemma retry_quiet:
  "retry_upstream_write_once n s = Some s' \<Longrightarrow> \<not> local_end s \<Longrightarrow> quiet eng s s'"
  "retry_upstream_after_read_failure s = Some s' \<Longrightarrow> \<not> local_end s \<Longrightarrow> quiet eng s s'"
  by (auto simp: retry_upstream_write_once_def retry_upstream_after_read_failure_def drop_upstream_def Let_def
      split: bind_splits acquisition.splits)
    (auto simp: quiet_def side_defs log_append split: option.split)

lemma retry_acquire_quiet:
  "on_retry_acquire n err sock s = Some s' \<Longrightarrow> \<not> local_end s \<Longrightarrow> quiet eng s s'"
  "on_snapshot_acquire err sock s = Some s' \<Longrightarrow> \<not> local_end s \<Longrightarrow> quiet eng s s'"
  by (auto simp: on_retry_acquire_def on_snapshot_acquire_def set_upstream_def Let_def split: bind_splits if_splits)
    (auto simp: quiet_def side_defs log_append split: option.split)

section \<open>The response writer\<close>

lemma reset_renews: "reset_for_next_request eng s = Some s' \<Longrightarrow> \<not> local_end s \<Longrightarrow> renewed eng s s'"
  by (auto simp: reset_for_next_request_def read_request_chunk_def BodyFilterGate_reset_def renewed_def side_defs
      split: bind_splits)

lemma release_upstream_frame:
  assumes "release_upstream s = Some s'"
  shows "request_side s' = request_side s" "response_side s' = response_side s"
    "response_parser s' = response_parser s" "local_end s' = local_end s"
    "body_filter_gate s' = body_filter_gate s" "turns s' = turns s"
  using assms by (auto simp: release_upstream_def side_defs log_append split: option.splits if_splits bind_splits)

definition response_phase :: "('e, 'v) HttpSession \<Rightarrow> bool" where
  "response_phase s \<longleftrightarrow> set (pending s) \<subseteq> {AwaitResponseRead, AwaitResponseWrite}"

lemma pull_response_frame:
  fixes s :: "('e, 'v) HttpSession"
  assumes "pull_and_write_response_to_downstream eng s = Some s'" "\<not> local_end s"
  shows "quiet eng s s' \<and>
     (local_end s' \<or> response_parser s' = response_parser s \<and> (pending s = [] \<longrightarrow> response_phase s')) \<or> renewed eng s s'"
proof -
  let ?t = "\<lambda>x y. s\<lparr>response_serializer := x, write_buf := y\<rparr>"
  have frame: "quiet eng s (?t x y)" "\<not> local_end (?t x y)" "turns (?t x y) = turns s" for x y
    using assms(2) by (auto simp: quiet_def side_defs)
  have renew: "renewed eng s s'" if "release_upstream (?t x y) = Some t" "reset_for_next_request eng t = Some s'" for x y t
    using reset_renews[OF that(2)] release_upstream_frame[OF that(1)] frame(2,3)[of y x]
    by (simp add: renewed_def)
  show ?thesis
    using assms
    by (auto simp: pull_and_write_response_to_downstream_def Let_def read_response_chunk_def
        split: bind_splits if_splits prod.splits dest!: renew) (auto simp: quiet_def side_defs response_phase_def)
qed

section \<open>The loop of one direction keeps the other side\<close>

lemma respond_directly_ends: "respond_directly eng head body s = Some s' \<Longrightarrow> local_end s' \<and> direct_response_mode s'"
  by (auto simp: respond_directly_def local_end_def dest!: direct_mode_kept)

definition response_untouched where
  "response_untouched v s \<longleftrightarrow> \<not> local_end s \<and> (response_side s, response_parser s) = v"

definition request_untouched where
  "request_untouched v s \<longleftrightarrow> \<not> local_end s \<and> request_serializer_started s \<and> (request_side s, pending s) = v"

lemma request_loop_frame:
  assumes "request_loop eng chain raw s = Some (b, s')" "\<not> local_end s"
  shows "if b then local_end s' else response_untouched (response_side s, response_parser s) s'"
proof (rule request_loop_rule[where I = "response_untouched (response_side s, response_parser s)", OF assms(1)])
  show "local_end (close_session t)" for t :: "('a, 'b) HttpSession" by simp
next
  fix t t' :: "('a, 'b) HttpSession" and r
  let ?I = "response_untouched (response_side s, response_parser s)"
  assume t: "?I t"
  show "if r then local_end t' else ?I t'" if "filter_request_head eng chain t = Some (r, t')"
    using t that
    by (auto simp: filter_request_head_def Let_def dest!: respond_directly_ends
        split: bind_splits if_splits prod.splits FilterHeaderResult.splits)
      (simp_all add: response_untouched_def side_defs)
  show "if direct_response_mode t' then local_end t' else ?I t'"
    if "drain_request_body_into_serializer eng chain t = Some t'"
  proof -
    have "?I t' \<or> direct_response_mode t'"
    proof (rule drain_request_rule[where I = ?I, OF that[unfolded drain_request_body_into_serializer_def] t])
      fix c e u b u'
      assume "?I u" "process_request_data_chunk eng chain c e u = Some (b, u')"
      moreover obtain r g x where g: "gate_apply_request chain c e (body_filter_gate u) (filter_ctx u) = (r, g, x)"
        by (metis prod_cases3)
      ultimately show "if b then ?I u' else direct_response_mode u'"
        using gate_directions_independent(1)[OF g]
        by (cases r) (auto simp: process_request_data_chunk_def dest!: respond_directly_ends split: bind_splits,
            simp_all add: response_untouched_def side_defs)
    qed (simp add: response_untouched_def side_defs)
    then show ?thesis by (auto simp: response_untouched_def local_end_def)
  qed
qed (use assms(2) in \<open>simp_all add: response_untouched_def side_defs\<close>)

lemma response_loop_frame:
  assumes "response_loop eng chain raw s = Some (b, s')" "\<not> local_end s" "request_serializer_started s"
  shows "if b then local_end s' else request_untouched (request_side s, pending s) s'"
proof (rule response_loop_rule[where I = "request_untouched (request_side s, pending s)", OF assms(1)])
  show "local_end (close_session t)" for t :: "('a, 'b) HttpSession" by simp
next
  fix t t' :: "('a, 'b) HttpSession" and r
  let ?I = "request_untouched (request_side s, pending s)"
  assume t: "?I t"
  show "if r then local_end t' else ?I t'" if "filter_response_head eng chain t = Some (r, t')"
    using t that
    by (auto simp: filter_response_head_def Let_def dest!: respond_directly_ends
        split: bind_splits if_splits prod.splits FilterHeaderResult.splits)
      (auto simp: request_untouched_def side_defs)
  show "if direct_response_mode t' then local_end t' else ?I t'"
    if "drain_response_body_into_serializer eng chain t = Some t'"
  proof -
    have "?I t' \<or> direct_response_mode t'"
    proof (rule drain_response_rule[where I = ?I, OF that[unfolded drain_response_body_into_serializer_def] t])
      fix c e u b u'
      assume "?I u" "process_response_data_chunk eng chain c e u = Some (b, u')"
      moreover obtain r g x where g: "gate_apply_response chain c e (body_filter_gate u) (filter_ctx u) = (r, g, x)"
        by (metis prod_cases3)
      ultimately show "if b then ?I u' else direct_response_mode u'"
        using gate_directions_independent(2)[OF g]
        by (cases r) (auto simp: process_response_data_chunk_def dest!: respond_directly_ends split: bind_splits,
            auto simp: request_untouched_def side_defs)
    qed (auto simp: request_untouched_def side_defs)
    then show ?thesis by (auto simp: request_untouched_def local_end_def)
  qed
qed (use assms(2,3) in \<open>auto simp: request_untouched_def side_defs\<close>)

section \<open>The request side of the response phase\<close>

definition same_request :: "('e, 'v) HttpSession \<Rightarrow> ('e, 'v) HttpSession \<Rightarrow> bool" where
  "same_request s s' \<longleftrightarrow> local_end s' \<or> \<not> local_end s \<and> request_side s' = request_side s"

lemma quiet_same_request: "quiet eng s s' \<Longrightarrow> same_request s s'"
  by (auto simp: quiet_def same_request_def)

lemma renewed_cong:
  "request_side t = request_side s \<Longrightarrow> renewed eng t s' = renewed eng s s'"
  by (simp add: renewed_def request_side_def)

text \<open>The end of \<open>process_upstream_chunk\<close>: the end of the message is passed on if the loop has not, then
  the response is written.\<close>

definition response_end_provided :: "'e ResponseParser \<Rightarrow> ('e, 'v) HttpSession \<Rightarrow> ('e, 'v) HttpSession \<Rightarrow> bool" where
  "response_end_provided rp s t \<longleftrightarrow> response_parser s = Some rp \<and>
     (if rs_message_done rp \<and> \<not> response_final_body_provided s
      then \<exists>ser. t = s\<lparr>response_final_body_provided := True, response_serializer := Some ser,
             io := io s @ [ResponseBody [] True]\<rparr>
      else t = s)"

lemma upstream_tail:
  assumes "process_upstream_chunk eng chain raw s = Some s'" "response_loop eng chain raw s = Some (False, s1)"
    and "response_serializer_started s1"
  shows "\<exists>rp t. pull_and_write_response_to_downstream eng t = Some s' \<and> response_end_provided rp s1 t"
  using assms
  by (auto simp: process_upstream_chunk_def response_end_provided_def bind_eq_Some_conv simp del: not_None_eq
      split: if_splits)

lemma process_upstream_request:
  assumes "process_upstream_chunk eng chain raw s = Some s'" "\<not> local_end s" "request_serializer_started s"
  shows "same_request s s' \<or> renewed eng s s'"
proof -
  obtain b s1 where l: "response_loop eng chain raw s = Some (b, s1)"
    using assms(1) by (auto simp: process_upstream_chunk_def split: bind_splits)
  show ?thesis
  proof (cases b)
    case True
    with l assms response_loop_frame[OF l assms(2,3)] show ?thesis
      by (auto simp: process_upstream_chunk_def same_request_def)
  next
    case False
    with response_loop_frame[OF l assms(2,3)] have s1: "\<not> local_end s1" "request_side s1 = request_side s"
      by (simp_all add: request_untouched_def)
    show ?thesis
    proof (cases "response_serializer_started s1")
      case True
      with False l have "response_loop eng chain raw s = Some (False, s1)" by simp
      from upstream_tail[OF assms(1) this True] obtain rp t where
        t: "pull_and_write_response_to_downstream eng t = Some s'" "response_end_provided rp s1 t" by blast
      with s1 have "\<not> local_end t" "request_side t = request_side s"
        by (auto simp: response_end_provided_def side_defs split: if_splits)
      with pull_response_frame[OF t(1)] assms(2) renewed_cong[of t s eng s'] show ?thesis
        by (auto simp: same_request_def quiet_def)
    next
      case not_started: False
      with assms(1) l False have "read_response_chunk s1 = Some s'" by (simp add: process_upstream_chunk_def)
      with quiet_same_request[OF read_chunk_quiet(2)[OF this s1(1)]] s1(2) assms(2) show ?thesis
        by (auto simp: same_request_def)
    qed
  qed
qed

section \<open>The response side of the request phase\<close>

text \<open>The end of \<open>process_downstream_chunk\<close>: the end of the message is passed on if the loop has not, and the
  rest is quiet.\<close>

definition end_provided :: "'e RequestParser \<Rightarrow> ('e, 'v) HttpSession \<Rightarrow> ('e, 'v) HttpSession \<Rightarrow> bool" where
  "end_provided rp s t \<longleftrightarrow> request_parser s = Some rp \<and>
     (if rq_message_done rp \<and> \<not> request_final_body_provided s
      then \<exists>ser. t = s\<lparr>request_final_body_provided := True, request_serializer := Some ser,
             io := io s @ [RequestBody [] True]\<rparr>
      else t = s)"

lemma downstream_tail:
  assumes "process_downstream_chunk eng chain raw s = Some s'" "request_loop eng chain raw s = Some (False, s1)"
    and "request_serializer_started s1" "\<not> local_end s1"
  shows "\<exists>rp t. quiet eng t s' \<and> end_provided rp s1 t"
proof -
  from assms(1-3) obtain rp t where rp: "request_parser s1 = Some rp"
    and t: "(if rq_message_done rp \<and> \<not> request_final_body_provided s1
        then do { ser \<leftarrow> request_serializer s1;
                  Some (s1\<lparr>request_final_body_provided := True,
                           request_serializer := Some (RequestSerializer_provide_body [] True ser),
                           io := io s1 @ [RequestBody [] True]\<rparr>) }
        else Some s1) = Some t"
    and s': "(if \<not> upstream_connecting t then connect_upstream eng (t\<lparr>upstream_connecting := True\<rparr>)
      else case upstream t of Some _ \<Rightarrow> pull_and_write_request_to_upstream eng t | None \<Rightarrow> Some t) = Some s'"
    by (auto simp: process_downstream_chunk_def bind_eq_Some_conv simp del: not_None_eq)
  have e: "end_provided rp s1 t" using rp t by (auto simp: end_provided_def split: bind_splits)
  with assms(4) have l: "\<not> local_end t" by (auto simp: end_provided_def local_end_def split: if_splits)
  then have "\<not> local_end (t\<lparr>upstream_connecting := True\<rparr>)" "quiet eng t (t\<lparr>upstream_connecting := True\<rparr>)"
    by (auto simp: quiet_def side_defs)
  with s' have "quiet eng t s'"
    using connect_upstream_quiet pull_request_quiet[OF _ l] quiet_refl[OF l] quiet_trans
    by (fastforce split: if_splits option.splits)
  with e show ?thesis by blast
qed

definition same_response :: "'e llhttp_engine \<Rightarrow> ('e, 'v) HttpSession \<Rightarrow> ('e, 'v) HttpSession \<Rightarrow> bool" where
  "same_response eng s s' \<longleftrightarrow> local_end s' \<or>
     \<not> local_end s \<and> response_side s' = response_side s \<and>
     (response_parser s' = response_parser s \<or> response_parser s' = Some (ResponseParser_new eng))"

lemma quiet_same_response: "quiet eng s s' \<Longrightarrow> same_response eng s s'"
  by (auto simp: quiet_def same_response_def)

lemma process_downstream_response:
  assumes "process_downstream_chunk eng chain raw s = Some s'" "\<not> local_end s"
  shows "same_response eng s s'"
proof -
  obtain b s1 where l: "request_loop eng chain raw s = Some (b, s1)"
    using assms(1) by (auto simp: process_downstream_chunk_def split: bind_splits)
  show ?thesis
  proof (cases b)
    case True
    with l assms request_loop_frame[OF l assms(2)] show ?thesis
      by (auto simp: process_downstream_chunk_def same_response_def)
  next
    case False
    with request_loop_frame[OF l assms(2)] have s1: "\<not> local_end s1" "response_side s1 = response_side s"
      "response_parser s1 = response_parser s" by (simp_all add: response_untouched_def)
    have fin: "same_response eng s s'"
      if "quiet eng t s'" "response_side t = response_side s" "response_parser t = response_parser s" for t
      using quiet_same_response[OF that(1)] that(2,3) assms(2) by (auto simp: same_response_def)
    have last: "response_side (s1\<lparr>request_final_body_provided := f, request_serializer := x, io := io s1 @ [RequestBody d e]\<rparr>) =
        response_side s" for f x d e
      using s1 by (simp_all add: side_defs)
    show ?thesis
    proof (cases "request_serializer_started s1")
      case True
      with False l have "request_loop eng chain raw s = Some (False, s1)" by simp
      from downstream_tail[OF assms(1) this True s1(1)] obtain rp t where t: "quiet eng t s'" "end_provided rp s1 t" by blast
      with s1 last(1) have "response_side t = response_side s" "response_parser t = response_parser s"
        by (auto simp: end_provided_def split: if_splits)
      from fin[OF t(1) this] show ?thesis .
    next
      case not_started: False
      with assms(1) l False have "read_request_chunk s1 = Some s'" by (simp add: process_downstream_chunk_def)
      from fin[OF read_chunk_quiet(1)[OF this s1(1)] s1(2,3)] show ?thesis .
    qed
  qed
qed

section \<open>Runs with what was read\<close>

text \<open>\<open>exchange qs ps s\<close>: the session came to \<open>s\<close>, and since the current exchange began it has read \<open>qs\<close>
  from the client and \<open>ps\<close> from the upstream.\<close>

fun client_read :: "continuation \<Rightarrow> completion \<Rightarrow> byte_list list" where
  "client_read AwaitRequestRead (ReadDone err b) = (if Error_ok err then [b] else [])"
| "client_read c r = []"

fun upstream_read :: "continuation \<Rightarrow> completion \<Rightarrow> byte_list list" where
  "upstream_read AwaitResponseRead (ReadDone err b) = (if Error_ok err then [b] else [])"
| "upstream_read c r = []"

inductive exchange ::
  "'e llhttp_engine \<Rightarrow> 'v FilterChain \<Rightarrow> ('e, 'v) HttpSession \<Rightarrow> byte_list list \<Rightarrow> byte_list list
     \<Rightarrow> ('e, 'v) HttpSession \<Rightarrow> bool"
  for eng chain s0 where
  begins: "session_start eng s0 = Some s \<Longrightarrow> exchange eng chain s0 [] [] s"
| goes_on:
    "\<lbrakk>exchange eng chain s0 qs ps s; pending s = xs @ c # ys; fits s c r;
      complete eng chain c r (s\<lparr>pending := xs @ ys\<rparr>) = Some s'; turns s' = turns s\<rbrakk> \<Longrightarrow>
     exchange eng chain s0 (qs @ client_read c r) (ps @ upstream_read c r) s'"
| next_request:
    "\<lbrakk>exchange eng chain s0 qs ps s; pending s = xs @ c # ys; fits s c r;
      complete eng chain c r (s\<lparr>pending := xs @ ys\<rparr>) = Some s'; turns s' \<noteq> turns s\<rbrakk> \<Longrightarrow>
     exchange eng chain s0 [] [] s'"
| others:
    "\<lbrakk>exchange eng chain s0 qs ps s; um_invar um; length (endpoints um) = length (endpoints (upstream_manager s));
      pool_invar pool; buffer_size pool = buffer_size (buffer_pool s)\<rbrakk> \<Longrightarrow>
     exchange eng chain s0 qs ps (s\<lparr>upstream_manager := um, buffer_pool := pool, metrics := m\<rparr>)"

lemma exchange_reachable: "exchange eng chain s0 qs ps s \<Longrightarrow> session_reachable eng chain s0 s"
  by (induction rule: exchange.induct)
    (auto intro: session_reachable.intros session_step.intros)

text \<open>Every run has such a history.\<close>

lemma reachable_exchange:
  assumes "session_reachable eng chain s0 s"
  shows "\<exists>qs ps. exchange eng chain s0 qs ps s"
  using assms
proof (induction rule: session_reachable.induct)
  case (step s s')
  then obtain qs ps where e: "exchange eng chain s0 qs ps s" by blast
  from step(2) show ?case
  proof (cases rule: session_step.cases)
    case (completion xs c ys r)
    with exchange.goes_on[OF e completion] exchange.next_request[OF e completion] show ?thesis by blast
  next
    case (others um pool m)
    with exchange.others[OF e] show ?thesis by blast
  qed
qed (blast intro: exchange.begins)

text \<open>A session that answers on its own account goes on to answer or closes.\<close>

lemma direct_stays:
  assumes "complete eng chain c r s = Some s'" "awaits c s" "direct_response_mode s"
  shows "local_end s'"
  using assms
  by (cases "(eng, chain, c, r, s)" rule: complete.cases)
    (auto simp: phase_defs on_response_written_def dest!: direct_mode_kept split: if_splits,
      auto simp: local_end_def)

text \<open>A step that reads nothing keeps both sides, or begins the next exchange.\<close>

lemma complete_quiet:
  assumes "complete eng chain c r s = Some s'" "awaits c s" "\<not> local_end s" "client_read c r = []" "upstream_read c r = []"
  shows "quiet eng s s' \<or> renewed eng s s'"
proof -
  have used: "quiet eng s (s\<lparr>upstream_retry_used := u\<rparr>)" "\<not> local_end (s\<lparr>upstream_retry_used := u\<rparr>)" for u
    using assms(3) by (auto simp: quiet_def side_defs)
  have once: "quiet eng s (count_upstream_bytes w (s\<lparr>upstream_wrote_once := u\<rparr>))"
    "\<not> local_end (count_upstream_bytes w (s\<lparr>upstream_wrote_once := u\<rparr>))" for u w
    using assms(3) by (auto simp: quiet_def side_defs count_upstream_bytes_def)
  have cnt: "quiet eng s (count_upstream_bytes w s)" "\<not> local_end (count_upstream_bytes w s)" for w
    using assms(3) by (auto simp: quiet_def side_defs count_upstream_bytes_def)
  have met: "\<not> local_end (s\<lparr>metrics := m\<rparr>)" "quiet eng s (s\<lparr>metrics := m\<rparr>)" "renewed eng (s\<lparr>metrics := m\<rparr>) s' = renewed eng s s'" for m
    using assms(3) by (auto simp: quiet_def side_defs renewed_def)
  show ?thesis
    using assms
    by (cases "(eng, chain, c, r, s)" rule: complete.cases)
      (auto simp: on_request_read_def on_request_written_def on_retry_written_def on_snapshot_written_def
        on_response_read_def on_response_written_def met(3) simp del: awaits.simps split: if_splits
        dest!: on_acquire_quiet[where eng = eng] retry_acquire_quiet[where eng = eng] retry_quiet[OF _ used(2), where eng = eng]
          pull_request_quiet[OF _ once(2)] start_response_quiet[OF _ cnt(2)] pull_response_frame[OF _ met(1)]
        intro: quiet_trans[OF used(1)] quiet_trans[OF once(1)] quiet_trans[OF cnt(1)] quiet_trans[OF met(2)])
qed

end
