(* ===== verification/Relay_Refinement.thy ===== *)
theory Relay_Refinement
  imports Relay_Spec Session_Rules
begin

text \<open>
  \<open>HttpSession\<close> refines the relay automaton of \<open>Relay_Spec\<close>: every method, given a state that is
  related to the automaton's, extends the log by events the automaton accepts and leaves a
  related state. The lemmas follow the order of the methods in \<open>Http_Session\<close>.
\<close>

section \<open>Closing and starting operations\<close>

lemma loggedD: "logged s r \<Longrightarrow> relay_run (io s) relay_init = Some r" "logged s r \<Longrightarrow> \<not> relay_closed r"
  "logged s r \<Longrightarrow> \<not> closing s" "logged s r \<Longrightarrow> pending s = []"
  by (simp_all add: logged_def)

lemma logged_append:
  "logged s r \<Longrightarrow> relay_run es r = Some r' \<Longrightarrow> relay_run (io s @ es) relay_init = Some r'"
  by (simp add: logged_def)

lemma close_linked:
  assumes "logged s r"
  shows "linked (close_session s)"
  using assms
  by (auto simp: logged_def linked_def close_session_def Let_def split: option.splits)

lemma read_request_linked:
  assumes "logged s r" "reading_link r s" "read_request_chunk s = Some s'"
  shows "linked s'"
  using assms by (auto simp: logged_def linked_def read_request_chunk_def split: bind_splits)

lemma read_response_linked:
  assumes "logged s r" "answering_link r s"
    and "response_serializer_started s \<longrightarrow> unfinished (response_serializer s)"
    and "read_response_chunk s = Some s'"
  shows "linked s'"
  using assms by (auto simp: logged_def linked_def read_response_chunk_def split: bind_splits)

lemma reset_linked:
  assumes "logged s r" "handed_over r" "answered r" "reset_for_next_request eng s = Some s'"
  shows "linked s'"
proof -
  have run: "relay_run (io s @ [NextRequest]) relay_init = Some relay_init" "\<not> relay_closed relay_init"
    using assms(1-3) by (simp_all add: logged_def relay_init_def)
  have "\<exists>t. reset_for_next_request eng s = read_request_chunk t \<and> logged t relay_init \<and>
      reading_link relay_init t"
    unfolding reset_for_next_request_def
    by (intro exI conjI, rule refl)
      (use run assms(1) in \<open>simp_all add: logged_def link_defs relay_init_def del: relay_run_append\<close>)
  with assms(4) show ?thesis by (auto intro: read_request_linked)
qed

section \<open>Response direction\<close>

lemma release_upstream_logged:
  assumes "logged s r" "\<not> direct_response_mode s \<Longrightarrow> handed_over r \<and> answered r"
    and "release_upstream s = Some s'"
  shows "logged s' r \<and> direct_response_mode s' = direct_response_mode s"
  using assms
  by (auto simp: release_upstream_def logged_def split: option.splits if_splits bind_splits)

text \<open>Both ways to send a response: relayed, or a filter's own.\<close>

definition sending :: "relay \<Rightarrow> ('e, 'v) HttpSession \<Rightarrow> bool" where
  "sending r s \<longleftrightarrow> direct_link r s \<or> answering_link r s \<and> response_serializer_started s"

lemma sendingE:
  assumes "sending r s"
  obtains p ser where "response r = Some p" "response_serializer s = Some ser" "sends p (down_sent r) ser"
  using assms by (auto simp: sending_def link_defs)

lemma sending_pull:
  assumes "sending r s" "response_serializer s = Some ser" "sends p (down_sent r @ out) ser1"
    "response r = Some p"
  shows "sending (r\<lparr>down_sent := down_sent r @ out\<rparr>)
     (s\<lparr>response_serializer := Some ser1, write_buf := wb\<rparr>)"
  using assms by (auto simp: sending_def link_defs)

lemma pull_response_linked:
  assumes "logged s r" "sending r s" "pull_and_write_response_to_downstream eng s = Some s'"
  shows "linked s'"
proof -
  obtain p ser where ser: "response r = Some p" "response_serializer s = Some ser" "sends p (down_sent r) ser"
    by (rule sendingE[OF assms(2)])
  from assms(3) ser obtain wb where wb: "write_buf s = Some wb"
    by (auto simp: pull_and_write_response_to_downstream_def split: bind_splits)
  obtain out ser1 where p: "ResponseSerializer_pull (length wb) ser = (out, ser1)" by fastforce
  note pl = sends_pull[OF ser(3) p[unfolded ResponseSerializer_pull_eq]]
  let ?s1 = "s\<lparr>response_serializer := Some ser1, write_buf := Some (overwrite wb out)\<rparr>"
  have snd1: "sending (r\<lparr>down_sent := down_sent r @ out\<rparr>) ?s1"
    by (rule sending_pull[OF assms(2) ser(2) pl(1) ser(1)])
  have l1: "logged ?s1 r" using assms(1) by (simp add: logged_def)
  show ?thesis
  proof (cases "out = []")
    case False
    then have "s' = ?s1\<lparr>pending := pending s @ [AwaitResponseWrite], io := io s @ [DownstreamWrite out]\<rparr>"
      using assms(3) ser wb p by (simp add: pull_and_write_response_to_downstream_def)
    moreover have "relay_run (io s @ [DownstreamWrite out]) relay_init =
        Some (r\<lparr>down_sent := down_sent r @ out\<rparr>)"
      using assms(1) ser pl by (simp add: logged_def)
    ultimately show ?thesis
      using assms(1) snd1 by (auto simp: linked_def logged_def sending_def)
  next
    case True
    then have snd: "sending r ?s1" "sends p (down_sent r) ser1" using snd1 pl(1) by simp_all
    show ?thesis
    proof (cases "stage ser1 = kDone")
      case fin: True
      have a: "answered r" using sends_done[OF snd(2) fin] ser(1) by (simp add: answered_def)
      have h: "\<not> direct_response_mode s \<Longrightarrow> handed_over r \<and> answered r"
        using assms(2) a by (auto simp: sending_def link_defs)
      from True fin assms(3) ser wb p obtain s2 where s2: "release_upstream ?s1 = Some s2"
        "if \<not> direct_response_mode s2 \<and> downstream_keep_alive_effective s2
         then reset_for_next_request eng s2 = Some s' else s' = close_session s2"
        by (auto simp: pull_and_write_response_to_downstream_def ResponseSerializer_done_def
            split: bind_splits if_splits)
      have "logged s2 r \<and> direct_response_mode s2 = direct_response_mode ?s1"
        by (rule release_upstream_logged[OF l1 _ s2(1)]) (use h in simp)
      with s2(2) h reset_linked[of s2 r eng s'] show ?thesis
        by (auto split: if_splits intro: close_linked)
    next
      case False
      have "s' = close_session ?s1 \<or> (\<not> direct_response_mode s \<and> read_response_chunk ?s1 = Some s')"
        using True False assms(3) ser wb p
        by (auto simp: pull_and_write_response_to_downstream_def ResponseSerializer_done_def Let_def
            split: if_splits)
      moreover have "linked s'" if "\<not> direct_response_mode s" "read_response_chunk ?s1 = Some s'"
        using read_response_linked[OF l1 _ _ that(2)] snd(1) that(1) False
        by (auto simp: sending_def direct_link_def unfinished_def)
      ultimately show ?thesis using close_linked[OF l1] by auto
    qed
  qed
qed

lemma direct_kept_linked:
  assumes "logged s r" "respond_directly eng head body s = Some s'"
  shows "linked s' \<and> direct_response_mode s'"
proof -
  let ?r = "r\<lparr>response := Some (extend body True \<lparr>wire = response_head_bytes head,
      framing = has_chunked_encoding (resp_headers head), ended = False\<rparr>), down_sent := []\<rparr>"
  let ?s = "s\<lparr>direct_response_mode := True, response_serializer_started := True,
      io := io s @ [ResponseStarted True head, ResponseBody body True],
      response_serializer := Some (ResponseSerializer_provide_body body True
        (ResponseSerializer_start head serializer_init))\<rparr>"
  have st: "stage (ResponseSerializer_start head serializer_init) \<noteq> kDone"
    by (simp add: ResponseSerializer_start_def)
  have "logged ?s ?r" using assms(1) by (simp add: logged_def)
  moreover have "sending ?r ?s"
    using sends_provide(3)[OF sends_start_response[of head serializer_init] st, of body True]
    by (simp add: sending_def direct_link_def)
  ultimately show ?thesis
    using pull_response_linked[of ?s ?r eng s'] direct_mode_kept[of eng ?s s'] assms(2)
    by (simp add: respond_directly_def)
qed

lemma start_response_linked:
  assumes "logged s r" "carries r (hop_sent r) s" "request_serializer s = Some ser" "stage ser = kDone"
    and "start_response_phase eng s = Some s'"
  shows "linked s'"
proof -
  let ?s = "s\<lparr>response_parser := Some (ResponseParser_new eng), response_serializer := Some serializer_init\<rparr>"
  have "answering_link r ?s"
    using assms(2-4) by (auto simp: link_defs handed_over_def dest: sends_done)
  moreover have "\<not> response_serializer_started ?s" using assms(2) by (simp add: carries_def)
  moreover have "logged ?s r" using assms(1) by (simp add: logged_def)
  ultimately show ?thesis
    using assms(5) by (auto simp: start_response_phase_def intro: read_response_linked)
qed

text \<open>A response whose head has been passed on and whose body is being relayed.\<close>

definition relaying_link :: "relay \<Rightarrow> ('e, 'v) HttpSession \<Rightarrow> bool" where
  "relaying_link r s \<longleftrightarrow> answering_link r s \<and>
     (response_serializer_started s \<longrightarrow> unfinished (response_serializer s)) \<and> upstream_response_read_any s"

lemma relaying_link_frame [simp]:
  "relaying_link r (s\<lparr>response_parser := x\<rparr>) = relaying_link r s"
  "relaying_link r (s\<lparr>body_filter_gate := g, filter_ctx := ctx\<rparr>) = relaying_link r s"
  "logged (s\<lparr>response_parser := x\<rparr>) r = logged s r"
  "logged (s\<lparr>request_parser := y\<rparr>) r = logged s r"
  "logged (s\<lparr>body_filter_gate := g, filter_ctx := ctx\<rparr>) r = logged s r"
  by (simp_all add: relaying_link_def link_defs logged_def)

lemma relaying_provide:
  assumes "logged s r" "relaying_link r s" "response_serializer_started s" "response_serializer s = Some ser"
  shows "\<exists>r'. logged (s\<lparr>response_final_body_provided := b,
         response_serializer := Some (ResponseSerializer_provide_body d l ser),
         io := io s @ [ResponseBody d l]\<rparr>) r' \<and>
       relaying_link r' (s\<lparr>response_final_body_provided := b,
         response_serializer := Some (ResponseSerializer_provide_body d l ser),
         io := io s @ [ResponseBody d l]\<rparr>)"
proof -
  obtain p where p: "response r = Some p" "sends p (down_sent r) ser" "stage ser \<noteq> kDone"
    using assms(2-4) by (auto simp: relaying_link_def link_defs)
  show ?thesis
    using assms p sends_provide(3,4)[OF p(2,3), of d l]
    by (intro exI[of _ "r\<lparr>response := Some (extend d l p)\<rparr>"])
      (auto simp: relaying_link_def link_defs logged_def)
qed

lemma response_chunk_linked:
  assumes "logged s r" "relaying_link r s" "response_serializer_started s"
    and "process_response_data_chunk eng chain c e s = Some (b, s')"
  shows "if b then (\<exists>r'. logged s' r' \<and> relaying_link r' s') \<and> response_serializer_started s' \<and>
           \<not> direct_response_mode s'
         else linked s' \<and> direct_response_mode s'"
proof -
  obtain x g ctx where g: "gate_apply_response chain c e (body_filter_gate s) (filter_ctx s) = (x, g, ctx)"
    by (metis prod_cases3)
  let ?s1 = "s\<lparr>body_filter_gate := g, filter_ctx := ctx\<rparr>"
  have s1: "logged ?s1 r" "relaying_link r ?s1" "response_serializer_started ?s1" using assms by simp_all
  have nd: "\<not> direct_response_mode s" using assms(2) by (simp add: relaying_link_def link_defs)
  show ?thesis
  proof (cases x)
    case (kReject head body)
    with assms(4) g direct_kept_linked[OF s1(1), of eng head body] show ?thesis
      by (auto simp: process_response_data_chunk_def)
  next
    case kStillBuffering
    with assms(4) g s1 nd show ?thesis by (auto simp: process_response_data_chunk_def)
  next
    case (kForward data)
    from kForward assms(4) g obtain ser where ser: "response_serializer ?s1 = Some ser"
      by (auto simp: process_response_data_chunk_def split: bind_splits)
    from kForward assms(4) g ser nd show ?thesis
      using relaying_provide[OF s1 ser, where b = "e \<or> response_final_body_provided s" and d = data and l = e] assms(3)
      by (auto simp: process_response_data_chunk_def)
  qed
qed

lemma drain_response_linked:
  assumes "logged s r" "relaying_link r s" "response_serializer_started s"
    and "drain_response_loop eng chain pend s = Some s'"
  shows "if direct_response_mode s' then linked s'
         else (\<exists>r'. logged s' r' \<and> relaying_link r' s') \<and> response_serializer_started s'"
proof -
  let ?I = "\<lambda>t :: ('a, 'b) HttpSession. (\<exists>r. logged t r \<and> relaying_link r t) \<and> response_serializer_started t \<and>
    \<not> direct_response_mode t"
  have "?I s' \<or> linked s' \<and> direct_response_mode s'"
  proof (rule drain_response_rule[where I = ?I, OF assms(4)])
    show "?I s" using assms(1-3) by (auto simp: relaying_link_def link_defs)
    show "if b then ?I t' else linked t' \<and> direct_response_mode t'"
      if "?I t" "process_response_data_chunk eng chain c e t = Some (b, t')" for c e t b t'
      using response_chunk_linked[OF _ _ _ that(2)] that(1) by (cases b) fastforce+
  qed auto
  then show ?thesis by auto
qed

lemma filter_response_head_linked:
  assumes "logged s r" "relaying_link r s" "filter_response_head eng chain s = Some (b, s')"
  shows "if b then linked s' else (\<exists>r'. logged s' r' \<and> relaying_link r' s')"
proof -
  obtain rp where rp: "response_parser s = Some rp"
    using assms(3) by (auto simp: filter_response_head_def split: bind_splits)
  show ?thesis
  proof (cases "\<not> response_filtered s \<and> rs_header_done rp")
    case False
    with assms rp show ?thesis by (auto simp: filter_response_head_def)
  next
    case True
    obtain x head ctx where f: "apply_response chain (rs_head rp) (filter_ctx s) = (x, head, ctx)"
      by (metis prod_cases3)
    let ?s1 = "s\<lparr>response_filtered := True, filter_ctx := ctx\<rparr>"
    have l1: "logged ?s1 r" using assms(1) by (simp add: logged_def)
    have ho: "handed_over r" "response r = None" "upstream_response_read_any s" "\<not> direct_response_mode s"
      "upstream_whole_request_captured s \<longrightarrow>
        (\<exists>q. request r = Some q \<and> upstream_whole_request_snapshot s = wire q)"
      using assms(2) True by (auto simp: relaying_link_def link_defs)
    show ?thesis
    proof (cases x)
      case (fh_respond d)
      with assms(3) rp True f direct_kept_linked[OF l1] show ?thesis
        by (auto simp: filter_response_head_def)
    next
      case fh_continue
      from fh_continue assms(3) rp True f obtain ser h k where
        s': "b = False" "s' = ?s1\<lparr>downstream_keep_alive_effective := k,
            response_serializer := Some (ResponseSerializer_start h ser),
            response_serializer_started := True, io := io s @ [ResponseStarted False h]\<rparr>"
        by (auto simp: filter_response_head_def Let_def split: bind_splits)
      let ?r = "r\<lparr>response := Some \<lparr>wire = response_head_bytes h,
          framing = has_chunked_encoding (resp_headers h), ended = False\<rparr>, down_sent := []\<rparr>"
      have "logged s' ?r" using assms(1) ho by (simp add: s' logged_def)
      moreover have "relaying_link ?r s'"
        using ho sends_start_response[of h ser]
        by (simp add: s' relaying_link_def link_defs ResponseSerializer_start_def)
      ultimately show ?thesis using s'(1) by auto
    qed
  qed
qed

lemma response_loop_linked:
  assumes "logged s r" "relaying_link r s" "response_loop eng chain raw s = Some (b, s')"
  shows "if b then linked s' else (\<exists>r'. logged s' r' \<and> relaying_link r' s')"
proof (rule response_loop_rule[where I = "\<lambda>t. \<exists>r. logged t r \<and> relaying_link r t", OF assms(3)])
  show "if c then linked t' else \<exists>r. logged t' r \<and> relaying_link r t'"
    if "\<exists>r. logged t r \<and> relaying_link r t" "filter_response_head eng chain t = Some (c, t')" for t c t'
    using that filter_response_head_linked[OF _ _ that(2)] by blast
  show "if direct_response_mode t' then linked t' else \<exists>r. logged t' r \<and> relaying_link r t'"
    if "\<exists>r. logged t r \<and> relaying_link r t" "response_serializer_started t"
      "drain_response_body_into_serializer eng chain t = Some t'" for t t'
    using that drain_response_linked[OF _ _ that(2), of _ eng chain None t']
    by (auto simp: drain_response_body_into_serializer_def)
qed (use assms(1,2) close_linked in auto)

lemma process_upstream_linked:
  assumes "logged s r" "relaying_link r s" "process_upstream_chunk eng chain raw s = Some s'"
  shows "linked s'"
proof -
  obtain b s1 where l: "response_loop eng chain raw s = Some (b, s1)"
    using assms(3) by (auto simp: process_upstream_chunk_def split: bind_splits)
  note l' = response_loop_linked[OF assms(1,2) l]
  show ?thesis
  proof (cases b)
    case True
    with l l' assms(3) show ?thesis by (simp add: process_upstream_chunk_def)
  next
    case False
    then obtain r1 where s1: "logged s1 r1" "relaying_link r1 s1" using l' by auto
    have a1: "answering_link r1 s1" using s1(2) by (simp add: relaying_link_def)
    show ?thesis
    proof (cases "response_serializer_started s1")
      case False
      with \<open>\<not> b\<close> l assms(3) read_response_linked[OF s1(1) a1] show ?thesis
        by (simp add: process_upstream_chunk_def)
    next
      case st: True
      have fin: "linked s'" if "logged t r'" "relaying_link r' t" "response_serializer_started t"
        "pull_and_write_response_to_downstream eng t = Some s'" for t r'
        by (rule pull_response_linked[OF that(1) _ that(4)])
          (use that in \<open>simp add: sending_def relaying_link_def\<close>)
      from \<open>\<not> b\<close> st l assms(3) obtain rp where rp: "response_parser s1 = Some rp"
        by (auto simp: process_upstream_chunk_def split: bind_splits)
      show ?thesis
      proof (cases "rs_message_done rp \<and> \<not> response_final_body_provided s1")
        case False
        with \<open>\<not> b\<close> st l assms(3) rp fin[OF s1 st] show ?thesis by (auto simp: process_upstream_chunk_def)
      next
        case True
        with \<open>\<not> b\<close> st l assms(3) rp obtain ser where ser: "response_serializer s1 = Some ser"
          by (auto simp: process_upstream_chunk_def split: bind_splits)
        from True \<open>\<not> b\<close> st l assms(3) rp ser show ?thesis
          using relaying_provide[OF s1 st ser, where b = True and d = "[]" and l = True] fin
          by (auto simp: process_upstream_chunk_def)
      qed
    qed
  qed
qed

section \<open>Request direction\<close>

lemma pull_request_linked:
  assumes "logged s r" "writing_link r s" "pull_and_write_request_to_upstream eng s = Some s'"
  shows "linked s'"
proof -
  obtain q ser where ser: "request r = Some q" "request_serializer s = Some ser" "sends q (hop_sent r) ser"
    "upstream_whole_request_captured s \<Longrightarrow>
       upstream_whole_request_snapshot s = wire q \<and> ended q \<and> stage ser = kDone"
    using assms(2) by (auto simp: link_defs)
  from assms(3) ser obtain wb where wb: "write_buf s = Some wb"
    by (auto simp: pull_and_write_request_to_upstream_def split: bind_splits)
  obtain out ser1 where p: "RequestSerializer_pull (length wb) ser = (out, ser1)" by fastforce
  note pl = sends_pull[OF ser(3) p]
  have kd: "stage ser = kDone \<Longrightarrow> out = [] \<and> stage ser1 = kDone"
    using p ser(3) done_unsent[of ser] pull_spec[of ser "length wb"]
    by (auto simp: sends_def RequestSerializer_done_def)
  let ?s1 = "s\<lparr>request_serializer := Some ser1, write_buf := Some (overwrite wb out)\<rparr>"
  have c1: "carries r (hop_sent r @ out) ?s1"
    using assms(2) ser(1,4) pl(1) kd by (auto simp: link_defs)
  have l1: "logged ?s1 r" using assms(1) by (simp add: logged_def)
  show ?thesis
  proof (cases "out = []")
    case out: True
    have c: "carries r (hop_sent r) ?s1" using c1 out by simp
    show ?thesis
    proof (cases "stage ser1 = kDone")
      case True
      with out assms(3) ser wb p start_response_linked[OF l1 c, of ser1 eng s'] show ?thesis
        by (auto simp: pull_and_write_request_to_upstream_def RequestSerializer_done_def Let_def)
    next
      case False
      have "reading_link r ?s1"
        using False c assms(2) ser(1) by (auto simp: link_defs)
      then have "linked s'" if "read_request_chunk ?s1 = Some s'" by (rule read_request_linked[OF l1 _ that])
      moreover have "s' = close_session ?s1 \<or> read_request_chunk ?s1 = Some s'"
        using out False assms(3) ser wb p
        by (auto simp: pull_and_write_request_to_upstream_def RequestSerializer_done_def Let_def
            split: bind_splits if_splits)
      ultimately show ?thesis using close_linked[OF l1] by auto
    qed
  next
    case False
    let ?cap = "\<not> upstream_wrote_once s \<and> stage ser1 = kDone"
    let ?s2 = "if ?cap then ?s1\<lparr>upstream_whole_request_snapshot := out,
        upstream_whole_request_captured := True\<rparr> else ?s1"
    from False assms(3) ser wb p obtain k where k: "upstream s = Some k"
      "s' = ?s2\<lparr>pending := pending s @ [AwaitRequestWrite (length out)], io := io s @ [UpstreamWrite k out]\<rparr>"
      by (auto simp: pull_and_write_request_to_upstream_def RequestSerializer_done_def Let_def
          split: bind_splits if_splits)
    let ?r = "r\<lparr>hop := Some k, hop_sent := hop_sent r @ out\<rparr>"
    have "relay_run (io s') relay_init = Some ?r"
      using assms(1,2) ser(1) pl(2) k by (auto simp: logged_def link_defs)
    moreover have "carries ?r (hop_sent r @ out) ?s2"
      using c1 ser(1) pl(1) assms(2) sends_done[OF pl(1)] by (auto simp: link_defs)
    moreover have "same_hop ?r ?s2" using k(1) by (simp add: same_hop_def)
    moreover have "\<not> upstream_wrote_once s \<Longrightarrow> hop_sent r = []" using assms(2) by (simp add: writing_link_def)
    ultimately show ?thesis
      using assms(1) k(2) by (auto simp: linked_def logged_def)
  qed
qed

lemma metrics_frame [simp]:
  "logged (s\<lparr>metrics := m\<rparr>) r = logged s r"
  by (simp add: logged_def)

lemma on_acquire_linked:
  assumes "logged s r" "writing_link r s" "hop r = None" "on_acquire eng err sock s = Some s'"
  shows "linked s'"
proof -
  have "linked s'" if "pull_and_write_request_to_upstream eng (set_upstream k s) = Some s'" for k
  proof (rule pull_request_linked[OF _ _ that])
    show "logged (set_upstream k s) r"
      using assms(1) by (auto simp: logged_def set_upstream_def split: option.splits)
    show "writing_link r (set_upstream k s)"
      using assms(2,3) by (auto simp: link_defs set_upstream_def)
  qed
  moreover have "linked (close_session (s\<lparr>metrics := m\<rparr>))" for m using assms(1) by (intro close_linked) simp
  ultimately show ?thesis
    using assms(4) by (auto simp: on_acquire_def split: option.splits if_splits)
qed

lemma connect_linked:
  assumes "logged s r" "writing_link r s" "hop r = None" "hop_sent r = []"
    and "connect_upstream eng s = Some s'"
  shows "linked s'"
proof -
  from assms(5) obtain idx um1 acq um2 where a: "select_endpoint (upstream_manager s) = Some (idx, um1)"
    "acquire_connection idx um1 = Some (acq, um2)"
    by (auto simp: connect_upstream_def split: bind_splits)
  let ?s1 = "s\<lparr>endpoint_index := idx, upstream_manager := um2\<rparr>"
  have s1: "logged ?s1 r" "writing_link r ?s1" using assms(1,2) by (simp_all add: logged_def link_defs)
  show ?thesis
  proof (cases acq)
    case (Pooled k)
    with a assms(5) on_acquire_linked[OF s1 assms(3)] show ?thesis
      by (auto simp: connect_upstream_def)
  next
    case (Connecting ep t)
    have s': "s' = ?s1\<lparr>pending := pending s @ [AwaitAcquire], io := io s @ [UpstreamConnect ep t]\<rparr>"
      using Connecting a assms(5) by (simp add: connect_upstream_def)
    have "r\<lparr>hop := None, hop_sent := []\<rparr> = r" using assms(3,4) by (cases r) simp
    then have "relay_run (io s') relay_init = Some r"
      using assms(1,2) by (auto simp: s' logged_def link_defs)
    with assms(1,3) s' s1(2) show ?thesis by (auto simp: linked_def logged_def)
  qed
qed

lemma reading_frame [simp]:
  "reading_link r (s\<lparr>request_parser := x\<rparr>) = reading_link r s"
  "reading_link r (s\<lparr>body_filter_gate := g, filter_ctx := ctx\<rparr>) = reading_link r s"
  "reading_link r (s\<lparr>read_buf := b\<rparr>) = reading_link r s"
  "logged (s\<lparr>read_buf := b\<rparr>) r = logged s r"
  by (simp_all add: link_defs logged_def)

lemma reading_provide:
  assumes "logged s r" "reading_link r s" "request_serializer_started s" "request_serializer s = Some ser"
  shows "\<exists>r'. logged (s\<lparr>request_final_body_provided := b,
         request_serializer := Some (RequestSerializer_provide_body d l ser),
         io := io s @ [RequestBody d l]\<rparr>) r' \<and>
       reading_link r' (s\<lparr>request_final_body_provided := b,
         request_serializer := Some (RequestSerializer_provide_body d l ser),
         io := io s @ [RequestBody d l]\<rparr>)"
proof -
  obtain q where q: "request r = Some q" "sends q (hop_sent r) ser" "stage ser \<noteq> kDone"
    using assms(2-4) by (auto simp: link_defs)
  show ?thesis
    using assms q sends_provide(1,2)[OF q(2,3), of d l]
    by (intro exI[of _ "r\<lparr>request := Some (extend d l q)\<rparr>"]) (auto simp: link_defs logged_def)
qed

lemma request_chunk_linked:
  assumes "logged s r" "reading_link r s" "request_serializer_started s"
    and "process_request_data_chunk eng chain c e s = Some (b, s')"
  shows "if b then (\<exists>r'. logged s' r' \<and> reading_link r' s') \<and> request_serializer_started s' \<and>
           \<not> direct_response_mode s'
         else linked s' \<and> direct_response_mode s'"
proof -
  obtain x g ctx where g: "gate_apply_request chain c e (body_filter_gate s) (filter_ctx s) = (x, g, ctx)"
    by (metis prod_cases3)
  let ?s1 = "s\<lparr>body_filter_gate := g, filter_ctx := ctx\<rparr>"
  have s1: "logged ?s1 r" "reading_link r ?s1" "request_serializer_started ?s1" using assms by simp_all
  have nd: "\<not> direct_response_mode s" using assms(2) by (simp add: link_defs)
  show ?thesis
  proof (cases x)
    case (kReject head body)
    with assms(4) g direct_kept_linked[OF s1(1), of eng head body] show ?thesis
      by (auto simp: process_request_data_chunk_def)
  next
    case kStillBuffering
    with assms(4) g s1 nd show ?thesis by (auto simp: process_request_data_chunk_def)
  next
    case (kForward data)
    from kForward assms(4) g obtain ser where ser: "request_serializer ?s1 = Some ser"
      by (auto simp: process_request_data_chunk_def split: bind_splits)
    from kForward assms(4) g ser nd show ?thesis
      using reading_provide[OF s1 ser, where b = "e \<or> request_final_body_provided s" and d = data and l = e]
        assms(3)
      by (auto simp: process_request_data_chunk_def)
  qed
qed

lemma drain_request_linked:
  assumes "logged s r" "reading_link r s" "request_serializer_started s"
    and "drain_request_loop eng chain pend s = Some s'"
  shows "if direct_response_mode s' then linked s'
         else (\<exists>r'. logged s' r' \<and> reading_link r' s') \<and> request_serializer_started s'"
proof -
  let ?I = "\<lambda>t :: ('a, 'b) HttpSession. (\<exists>r. logged t r \<and> reading_link r t) \<and> request_serializer_started t \<and>
    \<not> direct_response_mode t"
  have "?I s' \<or> linked s' \<and> direct_response_mode s'"
  proof (rule drain_request_rule[where I = ?I, OF assms(4)])
    show "?I s" using assms(1-3) by (auto simp: link_defs)
    show "if b then ?I t' else linked t' \<and> direct_response_mode t'"
      if "?I t" "process_request_data_chunk eng chain c e t = Some (b, t')" for c e t b t'
      using request_chunk_linked[OF _ _ _ that(2)] that(1) by (cases b) fastforce+
  qed auto
  then show ?thesis by auto
qed

lemma filter_request_head_linked:
  assumes "logged s r" "reading_link r s" "filter_request_head eng chain s = Some (b, s')"
  shows "if b then linked s' else (\<exists>r'. logged s' r' \<and> reading_link r' s')"
proof -
  obtain rp where rp: "request_parser s = Some rp"
    using assms(3) by (auto simp: filter_request_head_def split: bind_splits)
  show ?thesis
  proof (cases "\<not> request_filtered s \<and> rq_header_done rp")
    case False
    with assms rp show ?thesis by (auto simp: filter_request_head_def)
  next
    case True
    obtain x head ctx where f: "apply_request chain (rq_head rp) (filter_ctx s) = (x, head, ctx)"
      by (metis prod_cases3)
    let ?s1 = "s\<lparr>request_filtered := True,
        metrics := (metrics s)\<lparr>requests_handled := requests_handled (metrics s) + 1\<rparr>,
        downstream_wants_keep_alive := rq_should_keep_alive rp, filter_ctx := ctx\<rparr>"
    have l1: "logged ?s1 r" using assms(1) by (simp add: logged_def)
    have ns: "\<not> request_serializer_started s" using assms(2) True by (auto simp: link_defs)
    show ?thesis
    proof (cases x)
      case (fh_respond d)
      with assms(3) rp True f direct_kept_linked[OF l1] show ?thesis
        by (auto simp: filter_request_head_def)
    next
      case fh_continue
      from fh_continue assms(3) rp True f obtain ser h where
        s': "b = False" "s' = ?s1\<lparr>request_serializer := Some (RequestSerializer_start h ser),
            request_serializer_started := True, io := io s @ [RequestStarted h]\<rparr>"
        by (auto simp: filter_request_head_def Let_def split: bind_splits)
      let ?r = "r\<lparr>request := Some \<lparr>wire = request_head_bytes h,
          framing = has_chunked_encoding (req_headers h), ended = False\<rparr>\<rparr>"
      have "logged s' ?r" using assms(1,2) ns by (simp add: s' logged_def link_defs)
      moreover have "reading_link ?r s'"
        using assms(2) ns sends_start_request[of h ser]
        by (simp add: s' link_defs RequestSerializer_start_def)
      ultimately show ?thesis using s'(1) by auto
    qed
  qed
qed

lemma request_loop_linked:
  assumes "logged s r" "reading_link r s" "request_loop eng chain raw s = Some (b, s')"
  shows "if b then linked s' else (\<exists>r'. logged s' r' \<and> reading_link r' s')"
proof (rule request_loop_rule[where I = "\<lambda>t. \<exists>r. logged t r \<and> reading_link r t", OF assms(3)])
  show "if c then linked t' else \<exists>r. logged t' r \<and> reading_link r t'"
    if "\<exists>r. logged t r \<and> reading_link r t" "filter_request_head eng chain t = Some (c, t')" for t c t'
    using that filter_request_head_linked[OF _ _ that(2)] by blast
  show "if direct_response_mode t' then linked t' else \<exists>r. logged t' r \<and> reading_link r t'"
    if "\<exists>r. logged t r \<and> reading_link r t" "request_serializer_started t"
      "drain_request_body_into_serializer eng chain t = Some t'" for t t'
    using that drain_request_linked[OF _ _ that(2), of _ eng chain None t']
    by (auto simp: drain_request_body_into_serializer_def)
qed (use assms(1,2) close_linked in auto)

text \<open>From reading to writing: the first time a connection is needed, later the same one is used.\<close>

lemma reading_to_writing:
  assumes "reading_link r s" "request_serializer_started s"
  shows "writing_link r (s\<lparr>upstream_connecting := True\<rparr>)"
    and "upstream_connecting s \<Longrightarrow> writing_link r s"
  using assms by (auto simp: link_defs split: if_splits)

lemma process_downstream_linked:
  assumes "logged s r" "reading_link r s" "process_downstream_chunk eng chain raw s = Some s'"
    and "\<And>t. upstream_connecting t \<Longrightarrow> request_loop eng chain raw s = Some (False, t) \<Longrightarrow> upstream t \<noteq> None"
  shows "linked s'"
proof -
  obtain b s1 where l: "request_loop eng chain raw s = Some (b, s1)"
    using assms(3) by (auto simp: process_downstream_chunk_def split: bind_splits)
  note l' = request_loop_linked[OF assms(1,2) l]
  show ?thesis
  proof (cases b)
    case True
    with l l' assms(3) show ?thesis by (simp add: process_downstream_chunk_def)
  next
    case False
    then obtain r1 where s1: "logged s1 r1" "reading_link r1 s1" using l' by auto
    show ?thesis
    proof (cases "request_serializer_started s1")
      case False
      with \<open>\<not> b\<close> l assms(3) read_request_linked[OF s1] show ?thesis
        by (simp add: process_downstream_chunk_def)
    next
      case st: True
      have fin: "linked s'" if "logged t r'" "reading_link r' t" "request_serializer_started t"
        "if upstream_connecting t then upstream t \<noteq> None \<and> pull_and_write_request_to_upstream eng t = Some s'
         else connect_upstream eng (t\<lparr>upstream_connecting := True\<rparr>) = Some s'" for t r'
      proof (cases "upstream_connecting t")
        case True
        with that reading_to_writing(2)[OF that(2,3) True] show ?thesis by (auto intro: pull_request_linked)
      next
        case False
        have "logged (t\<lparr>upstream_connecting := True\<rparr>) r'" "hop r' = None" "hop_sent r' = []"
          using that(1,2) False by (auto simp: logged_def link_defs)
        with that(4) False reading_to_writing(1)[OF that(2,3)] show ?thesis by (auto intro: connect_linked)
      qed
      from \<open>\<not> b\<close> st l assms(3) obtain rp where rp: "request_parser s1 = Some rp"
        by (auto simp: process_downstream_chunk_def split: bind_splits)
      have up: "upstream_connecting s1 \<Longrightarrow> upstream s1 \<noteq> None" using assms(4)[of s1] l \<open>\<not> b\<close> by simp
      show ?thesis
      proof (cases "rq_message_done rp \<and> \<not> request_final_body_provided s1")
        case False
        with \<open>\<not> b\<close> st l assms(3) rp up show ?thesis
          by (intro fin[OF s1 st]) (auto simp: process_downstream_chunk_def split: option.splits)
      next
        case True
        with \<open>\<not> b\<close> st l assms(3) rp obtain ser where ser: "request_serializer s1 = Some ser"
          by (auto simp: process_downstream_chunk_def split: bind_splits)
        let ?t = "s1\<lparr>request_final_body_provided := True,
             request_serializer := Some (RequestSerializer_provide_body [] True ser),
             io := io s1 @ [RequestBody [] True]\<rparr>"
        obtain r2 where t: "logged ?t r2" "reading_link r2 ?t"
          using reading_provide[OF s1 st ser, where b = True and d = "[]" and l = True] by blast
        have "if upstream_connecting ?t
              then upstream ?t \<noteq> None \<and> pull_and_write_request_to_upstream eng ?t = Some s'
              else connect_upstream eng (?t\<lparr>upstream_connecting := True\<rparr>) = Some s'"
          using True \<open>\<not> b\<close> st l assms(3) rp ser up
          by (auto simp: process_downstream_chunk_def split: option.splits)
        from fin[OF t _ this] st show ?thesis by simp
      qed
    qed
  qed
qed

section \<open>Completions\<close>

lemma drop_upstream_logged: "logged s r \<Longrightarrow> logged (drop_upstream s) r"
  by (auto simp: logged_def drop_upstream_def split: option.splits)

lemma retry_write_linked:
  assumes "logged s r" "carries r (take n wb) s" "write_buf s = Some wb"
    and "retry_upstream_write_once n s = Some s'"
  shows "linked s'"
proof -
  let ?s1 = "drop_upstream s"
  from assms(4) obtain ep t um where
    s': "s' = ?s1\<lparr>upstream_manager := um, pending := pending ?s1 @ [AwaitRetryAcquire n],
        io := io ?s1 @ [UpstreamConnect ep t]\<rparr>"
    by (auto simp: retry_upstream_write_once_def Let_def split: bind_splits acquisition.splits)
  let ?r = "r\<lparr>hop := None, hop_sent := []\<rparr>"
  have "relay_run (io s') relay_init = Some ?r"
    using drop_upstream_logged[OF assms(1)] assms(2) by (auto simp: s' logged_def carries_def)
  moreover have "carries ?r (take n wb) s'" "write_buf s' = Some wb"
    using assms(2,3) by (auto simp: s' carries_def drop_upstream_def)
  ultimately show ?thesis
    using drop_upstream_logged[OF assms(1)] by (auto simp: linked_def logged_def s')
qed

lemma retry_read_linked:
  assumes "logged s r" "answering_link r s" "\<not> response_serializer_started s"
    and "upstream_whole_request_captured s" "retry_upstream_after_read_failure s = Some s'"
  shows "linked s'"
proof -
  let ?s1 = "drop_upstream s"
  from assms(5) obtain ep t um where
    s': "s' = ?s1\<lparr>upstream_manager := um, pending := pending ?s1 @ [AwaitSnapshotAcquire],
        io := io ?s1 @ [UpstreamConnect ep t]\<rparr>"
    by (auto simp: retry_upstream_after_read_failure_def Let_def split: bind_splits acquisition.splits)
  let ?r = "r\<lparr>hop := None, hop_sent := []\<rparr>"
  have "relay_run (io s') relay_init = Some ?r"
    using drop_upstream_logged[OF assms(1)] assms(2-4)
    by (auto simp: s' logged_def answering_link_def)
  moreover have "snapshot_link ?r s'"
    using assms(2-4) by (auto simp: s' link_defs drop_upstream_def handed_over_def)
  ultimately show ?thesis
    using drop_upstream_logged[OF assms(1)] by (auto simp: linked_def logged_def s')
qed

lemma set_upstream_logged: "logged s r \<Longrightarrow> logged (set_upstream k s) r"
  by (auto simp: logged_def set_upstream_def split: option.splits)

lemma retry_acquire_linked:
  assumes "logged s r" "link (AwaitRetryAcquire n) r s" "on_retry_acquire n err sock s = Some s'"
  shows "linked s'"
proof (cases "\<not> Error_ok err \<or> sock = None")
  case True
  with assms(1,3) show ?thesis by (auto simp: on_retry_acquire_def intro: close_linked)
next
  case False
  from assms(2) obtain wb q where wb: "write_buf s = Some wb" "carries r (take n wb) s" "hop r = None"
    "hop_sent r = []" "request r = Some q" "prefix (take n wb) (wire q)" "response r = None"
    by (auto simp: carries_def intro: sends_prefix)
  from False obtain k where k: "sock = Some k" by auto
  let ?t = "set_upstream k s"
  let ?r = "r\<lparr>hop := Some k, hop_sent := take n wb\<rparr>"
  have s': "s' = ?t\<lparr>pending := pending ?t @ [AwaitRetryWrite], io := io ?t @ [UpstreamWrite k (take n wb)]\<rparr>"
    using False k assms(3) wb(1) by (simp add: on_retry_acquire_def Let_def)
  have "relay_run (io s') relay_init = Some ?r"
    using set_upstream_logged[OF assms(1), of k] wb by (simp add: s' logged_def)
  moreover have "carries ?r (take n wb) ?t" "same_hop ?r ?t"
    using wb(2) by (auto simp: carries_def set_upstream_def same_hop_def)
  ultimately show ?thesis
    using set_upstream_logged[OF assms(1), of k] by (auto simp: linked_def logged_def s')
qed

lemma snapshot_acquire_linked:
  assumes "logged s r" "snapshot_link r s" "on_snapshot_acquire err sock s = Some s'"
  shows "linked s'"
proof (cases "\<not> Error_ok err \<or> sock = None")
  case True
  with assms(1,3) show ?thesis by (auto simp: on_snapshot_acquire_def intro: close_linked)
next
  case False
  from assms(2) obtain q where q: "request r = Some q" "ended q" "upstream_whole_request_snapshot s = wire q"
    "hop r = None" "hop_sent r = []" "response r = None" by (auto simp: snapshot_link_def)
  from False obtain k where k: "sock = Some k" by auto
  let ?t = "set_upstream k s"
  let ?r = "r\<lparr>hop := Some k, hop_sent := wire q\<rparr>"
  have sn: "upstream_whole_request_snapshot ?t = wire q" using q(3) by (simp add: set_upstream_def)
  have s': "s' = ?t\<lparr>pending := pending ?t @ [AwaitSnapshotWrite], io := io ?t @ [UpstreamWrite k (wire q)]\<rparr>"
    using False k assms(3) sn by (simp add: on_snapshot_acquire_def Let_def)
  have "relay_run (io s') relay_init = Some ?r"
    using set_upstream_logged[OF assms(1), of k] q by (simp add: s' logged_def)
  moreover have "answering_link ?r ?t" "\<not> response_serializer_started ?t"
    using assms(2) q sn by (auto simp: link_defs set_upstream_def handed_over_def)
  ultimately show ?thesis
    using set_upstream_logged[OF assms(1), of k] by (auto simp: linked_def logged_def s')
qed

lemma written_linked:
  assumes "logged s r" "carries r (hop_sent r) s" "same_hop r s"
    and "pull_and_write_request_to_upstream eng (count_upstream_bytes w (s\<lparr>upstream_wrote_once := True\<rparr>)) = Some s'"
  shows "linked s'"
  by (rule pull_request_linked[where r = r, OF _ _ assms(4)])
    (use assms(1-3) in \<open>simp_all add: count_upstream_bytes_def logged_def link_defs\<close>)

lemma snapshot_written_linked:
  assumes "logged s r" "answering_link r s" "\<not> response_serializer_started s"
    and "start_response_phase eng (count_upstream_bytes w s) = Some s'"
  shows "linked s'"
proof -
  let ?t = "(count_upstream_bytes w s)\<lparr>response_parser := Some (ResponseParser_new eng),
      response_serializer := Some serializer_init\<rparr>"
  have "logged ?t r" "answering_link r ?t" "\<not> response_serializer_started ?t"
    using assms(1-3) by (auto simp: count_upstream_bytes_def logged_def link_defs)
  with assms(4) show ?thesis by (auto simp: start_response_phase_def intro: read_response_linked)
qed

text \<open>The simulation step: whatever operation completes, and however.\<close>

lemma request_read_linked:
  assumes "logged s r" "reading_link r s" "running u cn s" "requesting s" "fits s AwaitRequestRead (ReadDone err b)"
    and "on_request_read eng chain err b s = Some s'"
  shows "linked s'"
proof (cases "Error_ok err")
  case False
  with assms(1,6) show ?thesis by (auto simp: on_request_read_def intro: close_linked)
next
  case True
  with assms(5,6) obtain rb where rb: "read_buf s = Some rb" "length b \<le> length rb"
    "process_downstream_chunk eng chain b (s\<lparr>read_buf := Some (overwrite rb b)\<rparr>) = Some s'"
    by (auto simp: on_request_read_def split: bind_splits)
  let ?t = "s\<lparr>read_buf := Some (overwrite rb b)\<rparr>"
  have t: "running u cn ?t" "requesting ?t"
    using read_into_buffer[OF assms(3) rb(1,2)] assms(4) by (simp_all add: phase_defs)
  show ?thesis
  proof (rule process_downstream_linked[where r = r, OF _ _ rb(3)])
    fix v assume "upstream_connecting v" "request_loop eng chain b ?t = Some (False, v)"
    then show "upstream v \<noteq> None"
      using request_loop_ok[OF t, of eng chain b] by (auto simp: requesting_def on_hop_def)
  qed (use assms(1,2) in simp_all)
qed

lemma request_written_linked:
  assumes "logged s r" "link (AwaitRequestWrite n) r s" "on_request_written eng n err w s = Some s'"
  shows "linked s'"
proof (cases "Error_ok err \<or> upstream_wrote_once s \<or> upstream_retry_used s")
  case True
  with assms written_linked[of s r eng w s'] show ?thesis
    by (auto simp: on_request_written_def close_linked split: if_splits)
next
  case False
  with assms(2) obtain wb where wb: "write_buf s = Some wb" "hop_sent r = take n wb" "carries r (take n wb) s"
    by auto
  let ?t = "s\<lparr>upstream_retry_used := True\<rparr>"
  have "logged ?t r" "carries r (take n wb) ?t" "write_buf ?t = Some wb"
    using assms(1) wb by (simp_all add: logged_def carries_def)
  from retry_write_linked[OF this, of s'] False assms(3) show ?thesis by (simp add: on_request_written_def)
qed

lemma response_read_linked:
  assumes "logged s r" "link AwaitResponseRead r s" "on_response_read eng chain err b s = Some s'"
  shows "linked s'"
proof (cases "Error_ok err")
  case True
  with assms(3) obtain rb where rb: "process_upstream_chunk eng chain b
      (s\<lparr>upstream_response_read_any := True, read_buf := Some (overwrite rb b)\<rparr>) = Some s'"
    by (auto simp: on_response_read_def split: bind_splits)
  show ?thesis
    by (rule process_upstream_linked[where r = r, OF _ _ rb])
      (use assms(1,2) in \<open>auto simp: logged_def relaying_link_def link_defs\<close>)
next
  case False
  show ?thesis
  proof (cases "\<not> upstream_response_read_any s \<and> upstream_whole_request_captured s \<and> \<not> upstream_retry_used s")
    case True
    let ?t = "s\<lparr>upstream_retry_used := True\<rparr>"
    have "logged ?t r" "answering_link r ?t" "\<not> response_serializer_started ?t"
      "upstream_whole_request_captured ?t"
      using assms(1,2) True by (auto simp: logged_def link_defs)
    from retry_read_linked[OF this, of s'] True False assms(3) show ?thesis by (simp add: on_response_read_def)
  next
    case n: False
    with False assms(1,3) close_linked show ?thesis by (auto simp: on_response_read_def)
  qed
qed

lemma complete_linked:
  assumes "logged s r" "link c r s" "complete eng chain c x s = Some s'"
    and "running u cn s" "awaits c s" "fits s c x"
  shows "linked s'"
proof (cases c)
  case AwaitRequestRead
  with assms request_read_linked[OF assms(1) _ assms(4), of _ _ eng chain s'] show ?thesis by (cases x) auto
next
  case AwaitAcquire
  with assms show ?thesis by (cases x) (auto intro: on_acquire_linked)
next
  case (AwaitRequestWrite n)
  with assms(1-3) request_written_linked[of s r n eng] show ?thesis by (cases x) auto
next
  case (AwaitRetryAcquire n)
  with assms(1-3) retry_acquire_linked[of s r n] show ?thesis by (cases x) auto
next
  case AwaitRetryWrite
  with assms(1-3) written_linked[of s r eng] show ?thesis
    by (cases x) (auto simp: on_retry_written_def close_linked split: if_splits)
next
  case AwaitSnapshotAcquire
  with assms(1-3) snapshot_acquire_linked[of s r] show ?thesis by (cases x) auto
next
  case AwaitSnapshotWrite
  with assms(1-3) snapshot_written_linked[of s r eng] show ?thesis
    by (cases x) (auto simp: on_snapshot_written_def close_linked split: if_splits)
next
  case AwaitResponseRead
  with assms(1-3) response_read_linked[of s r eng chain] show ?thesis by (cases x) auto
next
  case AwaitResponseWrite
  let ?t = "\<lambda>m. s\<lparr>metrics := m\<rparr>"
  have "sending r (?t m)" for m using assms(2) AwaitResponseWrite by (auto simp: sending_def link_defs)
  with AwaitResponseWrite assms(1-3) pull_response_linked[of "?t m" r eng s' for m] show ?thesis
    by (cases x) (auto simp: on_response_written_def close_linked split: if_splits)
qed

lemma session_start_linked:
  assumes "session_start eng (HttpSession_new hw um pool m) = Some s"
  shows "linked s"
proof -
  have "\<exists>t. session_start eng (HttpSession_new hw um pool m) = read_request_chunk t \<and> logged t relay_init \<and>
      reading_link relay_init t"
    unfolding session_start_def split_beta Let_def
    by (intro exI conjI, rule refl)
      (simp_all add: HttpSession_new_def logged_def link_defs relay_init_def)
  with assms show ?thesis by (auto intro: read_request_linked)
qed

lemma session_step_linked:
  assumes "session_step eng chain s s'" "hs_invar s" "linked s"
  shows "linked s'"
  using assms(1)
proof (cases rule: session_step.cases)
  case (completion xs c ys x)
  note p = invar_pending[OF assms(2) completion(1)]
  let ?t = "s\<lparr>pending := []\<rparr>"
  from assms(3) completion(1) p obtain r where "relay_run (io s) relay_init = Some r"
    "relay_closed r = closing s" "link c r s" by (auto simp: linked_def)
  then have "logged ?t r" "link c r ?t" using p by (simp_all add: logged_def)
  moreover have "fits ?t c x" using completion(2) by (cases c; cases x) auto
  ultimately show ?thesis
    using p completion(3)
      complete_linked[of ?t r c eng chain x s' "upstream_retry_used s" "view s"] by auto
next
  case (others um pool m)
  with assms(3) show ?thesis by (simp add: linked_def)
qed

lemma reachable_linked:
  assumes "session_reachable eng chain (HttpSession_new hw um pool m) s" "um_invar um" "pool_invar pool"
  shows "linked s"
  using assms(1)
proof (induction rule: session_reachable.induct)
  case (start s)
  then show ?case by (rule session_start_linked)
next
  case (step s s')
  with reachable_invar[OF step(1) assms(2,3)] show ?case by (auto intro: session_step_linked)
qed

end
