(* ===== verification/Http_Session_Props.thy ===== *)
theory Http_Session_Props
  imports Http_Session_Proofs
begin

text \<open>
  The properties of \<open>HttpSession\<close>, over the invariant of \<open>Http_Session_Proofs\<close>: safety of the
  event loop, the filter-before-connect rule, retries, keep-alive, direct responses, and the two
  places where the relay loses or garbles a message.
\<close>

section \<open>A concrete session\<close>

text \<open>A request without a body, read in one piece; a connection is made, and the first write
  fails. The buffers have four bytes.\<close>

definition sample_session :: "(unit, nat) HttpSession" where
  "sample_session = HttpSession_new 8 (UpstreamManager_new sample_config) (BufferPool_new 4 2)
     LocalMetrics_init"

definition sample_events :: "(llhttp_event \<times> unit llhttp_t) list" where
  "sample_events = [(ev_message_begin, sample_fields), (ev_url ''/'', sample_fields),
     (ev_headers_complete, sample_fields), (ev_message_complete, sample_fields)]"

definition sample_engine :: "unit llhttp_engine" where
  "sample_engine = scripted_engine sample_events"

definition sample_open :: "(unit, nat) HttpSession" where
  "sample_open = the (session_start sample_engine sample_session)"

definition sample_connecting :: "(unit, nat) HttpSession" where
  "sample_connecting = the (complete sample_engine [ViaHeaderFilter] AwaitRequestRead
     (ReadDone Error_none ''GET'') (sample_open\<lparr>pending := []\<rparr>))"

definition sample_writing :: "(unit, nat) HttpSession" where
  "sample_writing = the (complete sample_engine [ViaHeaderFilter] AwaitAcquire
     (AcquireDone Error_none (Some 7)) (sample_connecting\<lparr>pending := []\<rparr>))"

definition sample_parsed :: "unit RequestParser" where
  "sample_parsed = fold rq_callback sample_events (RequestParser_new sample_engine)"

lemma sample_um [simp]: "um_invar (UpstreamManager_new sample_config)"
  by (simp add: um_invar_new sample_config_def)

lemma sample_feed: "rq_feed sample_engine ''GET'' (RequestParser_new sample_engine) = (3, sample_parsed)"
  by (simp add: sample_parsed_def sample_events_def rq_feed_def llhttp_execute_def sample_engine_def
      scripted_engine_def RequestParser_new_def llhttp_init_def rq_callback_defs)

lemma sample_parsed_fields:
  "rq_header_done sample_parsed" "rq_message_done sample_parsed" "rq_scratch sample_parsed = []"
  "req_method (rq_head sample_parsed) = ''GET''"
  by (simp_all add: sample_parsed_def sample_events_def rq_callback_defs RequestParser_new_def
      sample_fields_def)

lemma sample_start: "session_start sample_engine sample_session = Some sample_open"
  by (simp add: sample_open_def session_start_def sample_session_def HttpSession_new_def
      BufferPool_acquire_def BufferPool_new_def read_request_chunk_def)

lemma sample_open_eq:
  "sample_open = sample_session\<lparr>metrics := on_accept LocalMetrics_init,
     read_buf := Some (replicate 4 (CHR 0x00)), write_buf := Some (replicate 4 (CHR 0x00)),
     request_parser := Some (RequestParser_new sample_engine),
     request_serializer := Some serializer_init, pending := [AwaitRequestRead]\<rparr>"
  by (simp add: sample_open_def session_start_def sample_session_def HttpSession_new_def
      BufferPool_acquire_def BufferPool_new_def read_request_chunk_def)

lemmas sample_simps =
  sample_connecting_def sample_open_eq sample_session_def HttpSession_new_def
  on_request_read_def Error_ok_def Error_none_def process_downstream_chunk_def
  request_loop.simps sample_feed sample_parsed_fields filter_request_head_def
  ViaHeaderFilter_def IFilter_default_def drain_request_body_into_serializer_def
  drain_request_loop.simps rq_read_body_def connect_upstream_def select_endpoint_def
  acquire_connection_def connect_fresh_def UpstreamManager_new_def sample_config_def Let_def

lemma sample_connecting_step:
  "complete sample_engine [ViaHeaderFilter] AwaitRequestRead (ReadDone Error_none ''GET'')
     (sample_open\<lparr>pending := []\<rparr>) = Some sample_connecting"
  "pending sample_connecting = [AwaitAcquire]"
  by (simp_all add: sample_simps)

definition sample_head :: RequestHead where
  "sample_head = (rq_head sample_parsed)\<lparr>req_headers :=
     set_header (req_headers (rq_head sample_parsed) @ [via_header]) ''Connection'' ''keep-alive''\<rparr>"

lemma sample_connecting_fields:
  "write_buf sample_connecting = Some (replicate 4 (CHR 0x00))" "upstream sample_connecting = None"
  "\<not> upstream_wrote_once sample_connecting" "\<not> upstream_retry_used sample_connecting"
  "request_serializer sample_connecting =
     Some (RequestSerializer_provide_body [] True (RequestSerializer_start sample_head serializer_init))"
  by (simp_all add: sample_simps sample_head_def)

lemma sample_pull:
  "\<exists>ser. RequestSerializer_pull 4 (RequestSerializer_provide_body [] True
     (RequestSerializer_start sample_head serializer_init)) = (''GET '', ser) \<and> \<not> RequestSerializer_done ser"
proof -
  let ?s = "RequestSerializer_provide_body [] True (RequestSerializer_start sample_head serializer_init)"
  note st = RequestSerializer_start_spec[of sample_head serializer_init]
  have u: "ser_invar ?s" "ser_unsent ?s = request_head_bytes sample_head @
      frame (chunked (RequestSerializer_start sample_head serializer_init)) [] True"
    using provide_unsent_invar[OF st(1,3), of "[]" True] st(2) by simp_all
  obtain out ser where p: "RequestSerializer_pull 4 ?s = (out, ser)" by (cases "RequestSerializer_pull 4 ?s")
  have hb: "\<exists>r. request_head_bytes sample_head = ''GET '' @ r \<and> r \<noteq> []"
    by (simp add: request_head_bytes_def sample_head_def sample_parsed_fields)
  from pull_spec[OF u(1), of 4] u(2) p hb have "out = ''GET ''" "ser_invar ser" "ser_unsent ser \<noteq> []"
    by auto
  with p done_unsent[of ser] show ?thesis by blast
qed

lemma sample_writing_step:
  "complete sample_engine [ViaHeaderFilter] AwaitAcquire (AcquireDone Error_none (Some 7))
     (sample_connecting\<lparr>pending := []\<rparr>) = Some sample_writing"
  "pending sample_writing = [AwaitRequestWrite 4]" "\<not> upstream_retry_used sample_writing"
  "\<not> upstream_wrote_once sample_writing"
proof -
  obtain ser where p: "RequestSerializer_pull 4 (RequestSerializer_provide_body [] True
     (RequestSerializer_start sample_head serializer_init)) = (''GET '', ser)"
    "\<not> RequestSerializer_done ser" using sample_pull by blast
  then have "\<exists>s. complete sample_engine [ViaHeaderFilter] AwaitAcquire (AcquireDone Error_none (Some 7))
     (sample_connecting\<lparr>pending := []\<rparr>) = Some s \<and> pending s = [AwaitRequestWrite 4] \<and>
     \<not> upstream_retry_used s \<and> \<not> upstream_wrote_once s"
    by (simp add: on_acquire_def Error_ok_def Error_none_def set_upstream_def sample_connecting_fields
        pull_and_write_request_to_upstream_def)
  then show "complete sample_engine [ViaHeaderFilter] AwaitAcquire (AcquireDone Error_none (Some 7))
     (sample_connecting\<lparr>pending := []\<rparr>) = Some sample_writing"
  "pending sample_writing = [AwaitRequestWrite 4]" "\<not> upstream_retry_used sample_writing"
  "\<not> upstream_wrote_once sample_writing"
    by (auto simp: sample_writing_def)
qed

lemma sample_reachable:
  "session_reachable sample_engine [ViaHeaderFilter] sample_session sample_open"
  "session_reachable sample_engine [ViaHeaderFilter] sample_session sample_connecting"
  "session_reachable sample_engine [ViaHeaderFilter] sample_session sample_writing"
proof -
  show o: "session_reachable sample_engine [ViaHeaderFilter] sample_session sample_open"
    by (rule session_reachable.start) (rule sample_start)
  have "session_step sample_engine [ViaHeaderFilter] sample_open sample_connecting"
    using sample_connecting_step(1)
    by (intro session_step.completion[of _ "[]" AwaitRequestRead "[]" "ReadDone Error_none ''GET''"])
      (simp_all add: sample_open_eq)
  with o show c: "session_reachable sample_engine [ViaHeaderFilter] sample_session sample_connecting"
    by (rule session_reachable.step)
  have "session_step sample_engine [ViaHeaderFilter] sample_connecting sample_writing"
    using sample_writing_step(1) sample_connecting_step(2)
    by (intro session_step.completion[of _ "[]" AwaitAcquire "[]" "AcquireDone Error_none (Some 7)"])
      simp_all
  with c show "session_reachable sample_engine [ViaHeaderFilter] sample_session sample_writing"
    by (rule session_reachable.step)
qed

section \<open>Safety\<close>

text \<open>C2. In every reachable state of a session, whatever the clients, the upstreams and the other
  sessions of the shard do: a session that is not closing has exactly one outstanding operation,
  and whichever way that operation completes, its handler runs without dereferencing a null
  pointer or leaving a vector; a closed session has none, has given back both buffers and has
  closed the client connection exactly once.\<close>

theorem session_safe:
  assumes "session_reachable eng chain (HttpSession_new hw um pool m) s"
    and "um_invar um" "pool_invar pool"
  shows "(closing s \<longrightarrow> pending s = [] \<and> read_buf s = None \<and> write_buf s = None) \<and>
     count_list (io s) DownstreamClosed = (if closing s then 1 else 0) \<and>
     (\<not> closing s \<longrightarrow> (\<exists>c. pending s = [c] \<and>
        (\<forall>r. fits s c r \<longrightarrow> (\<exists>s'. complete eng chain c r (s\<lparr>pending := []\<rparr>) = Some s'))))"
proof -
  have inv: "hs_invar s" by (rule reachable_invar[OF assms])
  have "\<exists>s'. complete eng chain c r (s\<lparr>pending := []\<rparr>) = Some s'"
    if "pending s = [c]" "fits s c r" for c r
    using step_completion_ok[OF inv, of "[]" c "[]" r eng chain] that by (auto simp: step_ok_def)
  with inv show ?thesis by (auto simp: hs_invar_def)
qed

theorem session_safe_witness:
  "\<exists>s. complete sample_engine [ViaHeaderFilter] (AwaitRequestWrite 4) (WriteDone timeout_error 0)
     (sample_writing\<lparr>pending := []\<rparr>) = Some s"
proof -
  have f: "fits sample_writing (AwaitRequestWrite 4) (WriteDone timeout_error 0)" by simp
  from session_safe[OF sample_reachable(3)[unfolded sample_session_def] sample_um pool_invar_new]
    sample_writing_step(2)
  have "\<forall>r. fits sample_writing (AwaitRequestWrite 4) r \<longrightarrow>
      (\<exists>s'. complete sample_engine [ViaHeaderFilter] (AwaitRequestWrite 4) r
         (sample_writing\<lparr>pending := []\<rparr>) = Some s')" by auto
  with f show ?thesis by blast
qed



text \<open>C12. At most one retry per request: an operation's completion leads to a retry only if the
  request has not been retried, which it then records; and the record is cleared only when the
  session turns to the next request.\<close>

theorem retry_at_most_once:
  assumes "session_reachable eng chain (HttpSession_new hw um pool m) s"
    and "um_invar um" "pool_invar pool"
    and "pending s = [c]" "fits s c r" "complete eng chain c r (s\<lparr>pending := []\<rparr>) = Some s'"
  shows "(if \<exists>c \<in> set (pending s'). retrying c
      then \<not> upstream_retry_used s \<and> upstream_retry_used s'
      else upstream_retry_used s' = upstream_retry_used s \<or>
           pending s' = [AwaitRequestRead] \<and> \<not> request_filtered s' \<and>
           request_parser s' = Some (RequestParser_new eng))"
proof -
  have "step_ok eng (upstream_retry_used s) (view s) (Some s')"
    using step_completion_ok[OF reachable_invar[OF assms(1-3)], of "[]" c "[]" r eng chain] assms(4-6)
    by simp
  then show ?thesis unfolding step_ok_def fresh_request_def by (simp only: option.inject simp_thms) blast
qed

theorem retry_at_most_once_witness:
  "\<not> (\<exists>c \<in> set (pending sample_writing). retrying c)"
proof -
  have f: "fits sample_connecting AwaitAcquire (AcquireDone Error_none (Some 7))" by simp
  from retry_at_most_once[OF sample_reachable(2)[unfolded sample_session_def] sample_um
      pool_invar_new sample_connecting_step(2) f sample_writing_step(1)] sample_writing_step(3)
  show ?thesis by (auto split: if_splits)
qed

section \<open>Retries\<close>




text \<open>The snapshot kept for a retry after a failed read is the whole request: it is taken only
  when a single write carries everything the serializer holds, head and body, and those are the
  bytes written.\<close>

lemma snapshot_is_whole_request:
  assumes "request_serializer s = Some ser" "ser_invar ser" "\<not> upstream_whole_request_captured s"
    and "pull_and_write_request_to_upstream eng s = Some s'" "upstream_whole_request_captured s'"
  shows "\<exists>k. upstream s = Some k \<and> upstream_whole_request_snapshot s' = ser_unsent ser \<and>
     is_last_provided ser \<and> io s' = io s @ [UpstreamWrite k (ser_unsent ser)]"
proof -
  from assms(1,4) obtain wb where wb: "write_buf s = Some wb"
    by (auto simp: pull_and_write_request_to_upstream_def split: bind_splits)
  obtain out ser1 where p: "RequestSerializer_pull (length wb) ser = (out, ser1)"
    by (cases "RequestSerializer_pull (length wb) ser")
  have cs: "upstream_whole_request_captured (close_session t) = upstream_whole_request_captured t"
    for t :: "('a, 'b) HttpSession" by (simp add: close_session_def Let_def split: option.splits)
  from assms wb p have "out \<noteq> []" "RequestSerializer_done ser1"
    by (auto simp: pull_and_write_request_to_upstream_def Let_def start_response_phase_def
        read_response_chunk_def read_request_chunk_def cs split: bind_splits if_splits)
  moreover from this have "out = ser_unsent ser" "is_last_provided ser"
    using pull_spec[OF assms(2), of "length wb"] p done_unsent[of ser1]
      pull_keeps(1)[of "length wb" ser] by auto
  ultimately show ?thesis
    using assms wb p
    by (auto simp: pull_and_write_request_to_upstream_def Let_def split: bind_splits if_splits)
qed

lemma snapshot_is_whole_request_example:
  "\<exists>s'. pull_and_write_request_to_upstream sample_engine
       (sample_session\<lparr>upstream := Some 7, write_buf := Some (replicate 4 (CHR 0x00)),
          request_serializer := Some (serializer_init\<lparr>stage := kBody, pending_bytes := ''hi'',
            is_last_provided := True\<rparr>)\<rparr>) = Some s' \<and>
     upstream_whole_request_snapshot s' = ''hi''"
proof -
  let ?ser = "serializer_init\<lparr>stage := kBody, pending_bytes := ''hi'', is_last_provided := True\<rparr>"
  let ?s = "sample_session\<lparr>upstream := Some 7, write_buf := Some (replicate 4 (CHR 0x00)),
          request_serializer := Some ?ser\<rparr>"
  have inv: "ser_invar ?ser" by (simp add: ser_invar_def serializer_init_def)
  have un: "ser_unsent ?ser = ''hi''" by (simp add: ser_unsent_def serializer_init_def)
  obtain s' where s': "pull_and_write_request_to_upstream sample_engine ?s = Some s'"
    "upstream_whole_request_captured s'"
    by (simp add: pull_and_write_request_to_upstream_def sample_session_def HttpSession_new_def
        RequestSerializer_pull_def pull_head_def pull_body_def serializer_init_def
        RequestSerializer_done_def)
  have sel: "request_serializer ?s = Some ?ser" "\<not> upstream_whole_request_captured ?s"
    by (simp_all add: sample_session_def HttpSession_new_def)
  from snapshot_is_whole_request[OF sel(1) inv sel(2) s'] s'(1) un show ?thesis by auto
qed

section \<open>Keep-alive\<close>



section \<open>Direct responses\<close>

definition down_bytes :: "io_event list \<Rightarrow> byte_list" where
  "down_bytes evs = concat (map (\<lambda>e. case e of DownstreamWrite b \<Rightarrow> b | _ \<Rightarrow> []) evs)"

definition touches_upstream :: "io_event \<Rightarrow> bool" where
  "touches_upstream e \<longleftrightarrow>
     (case e of UpstreamConnect _ _ \<Rightarrow> True | UpstreamWrite _ _ \<Rightarrow> True | UpstreamReleased _ \<Rightarrow> True | _ \<Rightarrow> False)"

text \<open>Writes to the client that complete without error, one byte count per completion.\<close>

fun finish_writes ::
  "'e llhttp_engine \<Rightarrow> nat list \<Rightarrow> ('e, 'v) HttpSession \<Rightarrow> ('e, 'v) HttpSession option" where
  "finish_writes eng [] s = Some s"
| "finish_writes eng (w # ws) s =
     (if pending s = [AwaitResponseWrite]
      then do { s' \<leftarrow> on_response_written eng Error_none w (s\<lparr>pending := []\<rparr>); finish_writes eng ws s' }
      else Some s)"

lemma release_upstream_direct: "direct_response_mode s \<Longrightarrow> release_upstream s = Some s"
  by (simp add: release_upstream_def split: option.split)

lemma pull_direct:
  assumes "running u cn s" "direct_response_mode s" "response_serializer s = Some ser"
    and "ser_invar ser" "is_last_provided ser" "write_buf s = Some wb" "0 < length wb"
  shows "\<exists>ser1 wb1. length wb1 = length wb \<and> ser_invar ser1 \<and> is_last_provided ser1 \<and>
     ser_unsent ser1 = drop (length wb) (ser_unsent ser) \<and>
     pull_and_write_response_to_downstream eng s =
       (let s1 = s\<lparr>response_serializer := Some ser1, write_buf := Some wb1\<rparr> in
        if ser_unsent ser = [] then Some (close_session s1)
        else Some (s1\<lparr>pending := [AwaitResponseWrite],
                      io := io s @ [DownstreamWrite (take (length wb) (ser_unsent ser))]\<rparr>))"
proof -
  obtain out ser1 where p: "RequestSerializer_pull (length wb) ser = (out, ser1)"
    by (cases "RequestSerializer_pull (length wb) ser")
  note spec = pull_spec[OF assms(4), of "length wb"]
  have o: "out = take (length wb) (ser_unsent ser)" "ser_invar ser1" "is_last_provided ser1"
    "ser_unsent ser1 = drop (length wb) (ser_unsent ser)"
    using spec p pull_keeps(1)[of "length wb" ser] assms(5) by auto
  have d: "out = [] \<Longrightarrow> ResponseSerializer_done ser1"
    using spec p o(1) assms(5,7) by (auto simp: ResponseSerializer_done_def)
  have e: "out = [] \<longleftrightarrow> ser_unsent ser = []" using o(1) assms(7) by auto
  have len: "length (overwrite wb out) = length wb"
    using pull_length[of "length wb" ser] p by (simp add: overwrite_def)
  have pd: "pending s = []" using assms(1) by (simp add: running_def)
  show ?thesis
    using assms(2,3,6) p o d e len pd
    by (intro exI[of _ ser1] exI[of _ "overwrite wb out"])
      (auto simp: pull_and_write_response_to_downstream_def ResponseSerializer_pull_eq Let_def
        release_upstream_direct)
qed

lemma close_session_effect:
  assumes "\<not> closing s" "pending s = []"
  shows "closing (close_session s) \<and> pending (close_session s) = [] \<and>
     upstream_manager (close_session s) = upstream_manager s \<and>
     io (close_session s) = io s @ DownstreamClosed # (case upstream s of None \<Rightarrow> [] | Some k \<Rightarrow> [UpstreamClosed k])"
  using assms by (simp add: close_session_def Let_def split: option.split)

definition direct_bytes :: "ResponseHead \<Rightarrow> byte_list \<Rightarrow> byte_list" where
  "direct_bytes head body =
     response_head_bytes head @ frame (has_chunked_encoding (resp_headers head)) body True"

lemma finish_direct:
  assumes "running u cn s" "direct_response_mode s" "response_serializer s = Some ser"
    and "ser_invar ser" "is_last_provided ser" "write_buf s = Some wb" "0 < length wb"
    and "length (ser_unsent ser) \<le> length ws"
  shows "\<exists>s1 s' evs. pull_and_write_response_to_downstream eng s = Some s1 \<and>
     finish_writes eng ws s1 = Some s' \<and> closing s' \<and> io s' = io s @ evs \<and>
     down_bytes evs = ser_unsent ser \<and> (\<forall>e \<in> set evs. \<not> touches_upstream e) \<and>
     upstream_manager s' = upstream_manager s"
  using assms
proof (induction ws arbitrary: s ser wb)
  case Nil
  then have u: "ser_unsent ser = []" by simp
  have r: "\<not> closing s" "pending s = []" using Nil(1) by (simp_all add: running_def)
  from pull_direct[OF Nil(1-7), of eng] u r show ?case
    by (auto simp: Let_def close_session_effect down_bytes_def touches_upstream_def split: option.split)
next
  case (Cons w ws)
  have r: "\<not> closing s" "pending s = []" using Cons.prems(1) by (simp_all add: running_def)
  obtain ser1 wb1 where p: "length wb1 = length wb" "ser_invar ser1" "is_last_provided ser1"
    "ser_unsent ser1 = drop (length wb) (ser_unsent ser)"
    "pull_and_write_response_to_downstream eng s =
       (let s1 = s\<lparr>response_serializer := Some ser1, write_buf := Some wb1\<rparr> in
        if ser_unsent ser = [] then Some (close_session s1)
        else Some (s1\<lparr>pending := [AwaitResponseWrite],
                      io := io s @ [DownstreamWrite (take (length wb) (ser_unsent ser))]\<rparr>))"
    using pull_direct[OF Cons.prems(1-7)] by blast
  show ?case
  proof (cases "ser_unsent ser = []")
    case True
    with p r show ?thesis
      by (auto simp: Let_def close_session_effect down_bytes_def touches_upstream_def split: option.split)
  next
    case False
    let ?o = "take (length wb) (ser_unsent ser)"
    let ?s1 = "s\<lparr>response_serializer := Some ser1, write_buf := Some wb1,
        pending := [AwaitResponseWrite], io := io s @ [DownstreamWrite ?o]\<rparr>"
    let ?s2 = "?s1\<lparr>pending := [], metrics := (metrics s)\<lparr>bytes_upstream_to_downstream :=
        bytes_upstream_to_downstream (metrics s) + of_nat w\<rparr>\<rparr>"
    have s2: "running u cn ?s2" "direct_response_mode ?s2" "response_serializer ?s2 = Some ser1"
      "write_buf ?s2 = Some wb1" "0 < length wb1"
      using Cons.prems p(1) by (auto simp: phase_defs)
    have len: "length (ser_unsent ser1) \<le> length ws" using Cons.prems(7,8) p(4) by (cases wb) auto
    from Cons.IH[OF s2(1-3) p(2,3) s2(4,5) len] obtain t1 t' evs where
      t: "pull_and_write_response_to_downstream eng ?s2 = Some t1" "finish_writes eng ws t1 = Some t'"
        "closing t'" "io t' = io ?s2 @ evs" "down_bytes evs = ser_unsent ser1"
        "\<forall>e \<in> set evs. \<not> touches_upstream e" "upstream_manager t' = upstream_manager s" by auto
    have "on_response_written eng Error_none w (?s1\<lparr>pending := []\<rparr>) = Some t1"
      using t(1) by (simp add: on_response_written_def Error_ok_def Error_none_def)
    moreover have "pull_and_write_response_to_downstream eng s = Some ?s1"
      using p(5) False by (simp add: Let_def)
    moreover have "down_bytes (DownstreamWrite ?o # evs) = ser_unsent ser"
      using t(5) p(4) by (simp add: down_bytes_def)
    ultimately show ?thesis
      using t by (intro exI[of _ ?s1] exI[of _ t'] exI[of _ "DownstreamWrite ?o # evs"])
        (auto simp: touches_upstream_def)
  qed
qed

lemma direct_response_delivered:
  assumes "running u cn s" "write_buf s = Some wb" "0 < length wb"
    and "length (direct_bytes head body) \<le> length ws"
  shows "\<exists>s1 s' evs. respond_directly eng head body s = Some s1 \<and>
     finish_writes eng ws s1 = Some s' \<and> closing s' \<and> io s' = io s @ evs \<and>
     down_bytes evs = direct_bytes head body \<and> (\<forall>e \<in> set evs. \<not> touches_upstream e) \<and>
     upstream_manager s' = upstream_manager s"
proof -
  let ?ser = "ResponseSerializer_provide_body body True (ResponseSerializer_start head serializer_init)"
  let ?log = "[ResponseStarted True head, ResponseBody body True]"
  let ?s = "s\<lparr>direct_response_mode := True, response_serializer_started := True,
      io := io s @ ?log, response_serializer := Some ?ser\<rparr>"
  note st = ResponseSerializer_start_spec[of head serializer_init]
  have ser: "ser_invar ?ser" "ser_unsent ?ser = direct_bytes head body" "is_last_provided ?ser"
    using provide_unsent_invar[OF st(1,3), of body True] st(2,4)
    by (simp_all add: ResponseSerializer_provide_body_eq direct_bytes_def provide_spec)
  have r: "running u cn ?s" "direct_response_mode ?s" "response_serializer ?s = Some ?ser"
    "write_buf ?s = Some wb" using assms(1,2) by (simp_all add: phase_defs)
  from finish_direct[OF r(1-3) ser(1,3) r(4) assms(3), of ws eng] ser(2) assms(4)
  obtain s1 s' evs where f: "respond_directly eng head body s = Some s1" "finish_writes eng ws s1 = Some s'"
    "closing s'" "io s' = io s @ ?log @ evs" "down_bytes evs = direct_bytes head body"
    "\<forall>e \<in> set evs. \<not> touches_upstream e" "upstream_manager s' = upstream_manager s"
    by (auto simp: respond_directly_def)
  moreover have "down_bytes (?log @ evs) = direct_bytes head body" using f(5) by (simp add: down_bytes_def)
  ultimately show ?thesis by (intro exI[of _ s1] exI[of _ s'] exI[of _ "?log @ evs"]) (auto simp: touches_upstream_def)
qed

text \<open>C20. A request that a filter answers never reaches an upstream: as soon as its head is parsed
  the client is sent the filter's response, complete and nothing else, and the session closes;
  no connection is acquired, opened or used, and the upstream manager is as before.\<close>

theorem rejected_request_stays_local:
  assumes "running u cn s" "write_buf s = Some wb" "0 < length wb"
    and "request_parser s = Some rp" "\<not> request_filtered s" "raw \<noteq> []"
    and "rq_feed eng raw rp = (n, rp1)" "rq_header_done rp1"
    and "apply_request chain (rq_head rp1) (filter_ctx s) = (fh_respond d, head, ctx)"
    and "length (direct_bytes (dr_head d) (dr_body d)) \<le> length ws"
  shows "\<exists>s1 s' evs. process_downstream_chunk eng chain raw s = Some s1 \<and>
     finish_writes eng ws s1 = Some s' \<and> closing s' \<and> io s' = io s @ evs \<and>
     down_bytes evs = direct_bytes (dr_head d) (dr_body d) \<and>
     (\<forall>e \<in> set evs. \<not> touches_upstream e) \<and> upstream_manager s' = upstream_manager s"
proof -
  let ?s1 = "s\<lparr>request_parser := Some rp1, request_filtered := True,
      metrics := (metrics s)\<lparr>requests_handled := requests_handled (metrics s) + 1\<rparr>,
      downstream_wants_keep_alive := rq_should_keep_alive rp1, filter_ctx := ctx\<rparr>"
  have r: "running u cn ?s1" "write_buf ?s1 = Some wb" using assms(1,2) by (simp_all add: phase_defs)
  from direct_response_delivered[OF r assms(3,10), of eng] obtain s1 s' evs where
    t: "respond_directly eng (dr_head d) (dr_body d) ?s1 = Some s1" "finish_writes eng ws s1 = Some s'"
      "closing s'" "io s' = io s @ evs" "down_bytes evs = direct_bytes (dr_head d) (dr_body d)"
      "\<forall>e \<in> set evs. \<not> touches_upstream e" "upstream_manager s' = upstream_manager s" by auto
  have "process_downstream_chunk eng chain raw s = Some s1"
    using assms(4-9) t(1)
    by (simp add: process_downstream_chunk_def request_loop.simps[of eng chain raw s] filter_request_head_def)
  with t show ?thesis by blast
qed

definition deny_filter :: "'v IFilter" where
  "deny_filter = IFilter_default\<lparr>on_request := (\<lambda>h c.
     (fh_respond \<lparr>dr_head = ResponseHead_init\<lparr>resp_status := 403\<rparr>, dr_body = ''no''\<rparr>, h, c))\<rparr>"

theorem rejected_request_stays_local_witness:
  "\<exists>s1 s' evs. process_downstream_chunk sample_engine [deny_filter] ''GET'' (sample_open\<lparr>pending := []\<rparr>) = Some s1 \<and>
     finish_writes sample_engine (replicate (length (direct_bytes (ResponseHead_init\<lparr>resp_status := 403\<rparr>) ''no'')) 4) s1 = Some s' \<and>
     closing s' \<and> io s' = io sample_open @ evs \<and>
     down_bytes evs = direct_bytes (ResponseHead_init\<lparr>resp_status := 403\<rparr>) ''no'' \<and>
     upstream_manager s' = upstream_manager sample_open"
proof -
  let ?s = "sample_open\<lparr>pending := []\<rparr>"
  let ?d = "\<lparr>dr_head = ResponseHead_init\<lparr>resp_status := 403\<rparr>, dr_body = ''no''\<rparr>"
  have inv: "hs_invar sample_open"
    by (rule reachable_invar[OF sample_reachable(1)[unfolded sample_session_def] sample_um pool_invar_new])
  have pd: "pending sample_open = [] @ AwaitRequestRead # []" by (simp add: sample_open_eq)
  have r: "running (upstream_retry_used sample_open) (view sample_open) ?s" using invar_pending[OF inv pd] by blast
  have f: "write_buf ?s = Some (replicate 4 (CHR 0x00))" "0 < length (replicate 4 (CHR 0x00))"
    "request_parser ?s = Some (RequestParser_new sample_engine)" "\<not> request_filtered ?s"
    by (simp_all add: sample_open_eq sample_session_def HttpSession_new_def)
  have a: "apply_request [deny_filter] (rq_head sample_parsed) (filter_ctx ?s) =
      (fh_respond ?d, rq_head sample_parsed, filter_ctx ?s)" by (simp add: deny_filter_def)
  have l: "length (direct_bytes (dr_head ?d) (dr_body ?d)) \<le>
      length (replicate (length (direct_bytes (ResponseHead_init\<lparr>resp_status := 403\<rparr>) ''no'')) (4::nat))"
    by simp
  from rejected_request_stays_local[OF r f _ sample_feed sample_parsed_fields(1) a l] show ?thesis
    by force
qed

section \<open>Where the relay loses or garbles a message\<close>




text \<open>C36. If a response body is rejected after the response head and part of the body have gone to
  the client, the rejection is written as a second response into the body of the first: whatever
  was sent before (\<open>io s\<close>), a complete new status line and header block follow it.\<close>

theorem late_rejection_writes_second_head:
  assumes "running u cn s" "write_buf s = Some wb" "0 < length wb"
    and "gate_apply_response chain c e (body_filter_gate s) (filter_ctx s) = (kReject head body, g, ctx)"
    and "length (direct_bytes head body) \<le> length ws"
  shows "\<exists>s1 s' evs. process_response_data_chunk eng chain c e s = Some (False, s1) \<and>
     finish_writes eng ws s1 = Some s' \<and> closing s' \<and> io s' = io s @ evs \<and>
     down_bytes (io s') = down_bytes (io s) @ response_head_bytes head @
       frame (has_chunked_encoding (resp_headers head)) body True"
proof -
  let ?s1 = "s\<lparr>body_filter_gate := g, filter_ctx := ctx\<rparr>"
  have r: "running u cn ?s1" "write_buf ?s1 = Some wb" using assms(1,2) by (simp_all add: phase_defs)
  from direct_response_delivered[OF r assms(3,5), of eng] obtain s1 s' evs where
    "respond_directly eng head body ?s1 = Some s1" "finish_writes eng ws s1 = Some s'"
      "closing s'" "io s' = io s @ evs" "down_bytes evs = direct_bytes head body" by auto
  with assms(4) show ?thesis
    by (intro exI[of _ s1] exI[of _ s'] exI[of _ evs])
      (auto simp: process_response_data_chunk_def down_bytes_def direct_bytes_def)
qed

definition hold_response_filter :: "'v IFilter" where
  "hold_response_filter = IFilter_default\<lparr>on_response_data := (\<lambda>d e c. (fd_stop_and_buffer, d, c))\<rparr>"

theorem late_rejection_writes_second_head_witness:
  "\<exists>s1 s'. process_response_data_chunk sample_engine [hold_response_filter] ''too long a body'' False
       (sample_open\<lparr>pending := [], io := [DownstreamWrite ''HTTP/1.1 200 OK'']\<rparr>) = Some (False, s1) \<and>
     finish_writes sample_engine (replicate (length (direct_bytes (watermark_response False) [])) 4) s1 = Some s' \<and>
     down_bytes (io s') = ''HTTP/1.1 200 OK'' @ direct_bytes (watermark_response False) []"
proof -
  let ?s = "sample_open\<lparr>pending := [], io := [DownstreamWrite ''HTTP/1.1 200 OK'']\<rparr>"
  have inv: "hs_invar sample_open"
    by (rule reachable_invar[OF sample_reachable(1)[unfolded sample_session_def] sample_um pool_invar_new])
  have pd: "pending sample_open = [] @ AwaitRequestRead # []" by (simp add: sample_open_eq)
  have r: "running (upstream_retry_used sample_open) (view sample_open) ?s"
    using invar_pending[OF inv pd] by (simp add: phase_defs)
  have f: "write_buf ?s = Some (replicate 4 (CHR 0x00))" "0 < length (replicate 4 (CHR 0x00))"
    by (simp_all add: sample_open_eq)
  obtain g ctx where a: "gate_apply_response [hold_response_filter] ''too long a body'' False
      (body_filter_gate ?s) (filter_ctx ?s) = (kReject (watermark_response False) [], g, ctx)"
    by (simp add: gate_apply_response_def gate_apply_def apply_response_data_def apply_data_def
        visit_order_def hold_response_filter_def IFilter_default_def sample_open_eq sample_session_def
        HttpSession_new_def BodyFilterGate_new_def DataIterationState_init_def)
  have l: "length (direct_bytes (watermark_response False) []) \<le>
      length (replicate (length (direct_bytes (watermark_response False) [])) (4::nat))" by simp
  from late_rejection_writes_second_head[OF r f a l, of sample_engine] show ?thesis
    by (force simp: down_bytes_def direct_bytes_def)
qed

section \<open>Closing\<close>

text \<open>Closing gives everything back exactly once: both buffers return to the pool, which keeps
  them up to its limit, the connection is counted as closed, the client socket and the upstream
  socket, if there is one, are closed; a second close changes nothing.\<close>

lemma close_returns_resources:
  assumes "running u cn s"
  shows "close_session (close_session s) = close_session s \<and>
     metrics (close_session s) = on_close (metrics s) \<and>
     pool_invar (buffer_pool (close_session s)) \<and>
     BufferPool_free_count (buffer_pool (close_session s)) =
       min (max_free (buffer_pool s)) (BufferPool_free_count (buffer_pool s) + 2) \<and>
     io (close_session s) = io s @ DownstreamClosed #
       (case upstream s of None \<Rightarrow> [] | Some k \<Rightarrow> [UpstreamClosed k])"
proof -
  from assms obtain rb wb where b: "read_buf s = Some rb" "write_buf s = Some wb"
    "length rb = buffer_size (buffer_pool s)" "length wb = buffer_size (buffer_pool s)"
    "pool_invar (buffer_pool s)" "\<not> closing s" by (auto simp: phase_defs)
  let ?p1 = "BufferPool_release (Some rb) (buffer_pool s)"
  have pool: "buffer_pool (close_session s) = BufferPool_release (Some wb) ?p1"
    using b by (simp add: close_session_def Let_def split: option.split)
  have p1: "pool_invar ?p1" "buffer_size ?p1 = buffer_size (buffer_pool s)"
    "max_free ?p1 = max_free (buffer_pool s)"
    using bp.release_invar[of "buffer_pool s" rb] b by (simp_all add: bp.release_consts)
  have m: "metrics (close_session s) = on_close (metrics s)" "closing (close_session s)"
    using b by (simp_all add: close_session_def Let_def split: option.split)
  have "io (close_session s) = io s @ DownstreamClosed #
      (case upstream s of None \<Rightarrow> [] | Some k \<Rightarrow> [UpstreamClosed k])"
    using close_session_effect[of s] assms by (simp add: running_def)
  moreover have "close_session (close_session s) = close_session s"
    using m(2) by (simp add: close_session_def[of "close_session s"])
  ultimately show ?thesis
    using m(1) pool b p1 bp.release_invar[of ?p1 wb] by (simp add: bp.release_idle)
qed

lemma close_returns_resources_example:
  "metrics (close_session (sample_open\<lparr>pending := []\<rparr>)) = on_close (metrics sample_open)"
proof -
  have inv: "hs_invar sample_open"
    by (rule reachable_invar[OF sample_reachable(1)[unfolded sample_session_def] sample_um pool_invar_new])
  have pd: "pending sample_open = [] @ AwaitRequestRead # []" by (simp add: sample_open_eq)
  have r: "running (upstream_retry_used sample_open) (view sample_open) (sample_open\<lparr>pending := []\<rparr>)"
    using invar_pending[OF inv pd] by blast
  from close_returns_resources[OF r] show ?thesis by simp
qed

end
