(* ===== verification/Relay_Props.thy ===== *)
theory Relay_Props
  imports Relay_Refinement Http_Session_Props
begin

text \<open>
  The properties of a session as a relay: it refines the automaton of \<open>Relay_Spec\<close>, it delivers a
  complete response if its writes succeed, and it closes if its peers keep failing.
\<close>

section \<open>Refinement\<close>

text \<open>C3. \<open>HttpSession\<close> refines the relay automaton. Whatever clients, upstreams, filters and the other
  sessions of the shard do, the log of every reachable session is accepted: each upstream
  connection is sent a prefix of the serialized request that the filters let pass and nothing
  else, also after a retry; a response is passed on only after the whole request, with the end of
  its body, has been written to one connection; the client is sent a prefix of the serialized
  response; the next request begins, and a connection goes back to the pool, only after the
  whole response was written; after closing, nothing is written. While a response is awaited, the
  whole request has been handed over.\<close>

theorem session_refines_relay:
  assumes "session_reachable eng chain (HttpSession_new hw um pool m) s"
    and "um_invar um" "pool_invar pool"
  shows "\<exists>r. relay_run (io s) relay_init = Some r \<and> relay_closed r = closing s \<and>
     (AwaitResponseRead \<in> set (pending s) \<longrightarrow> handed_over r)"
  using reachable_linked[OF assms] by (fastforce simp: linked_def answering_link_def)

theorem session_refines_relay_witness:
  "\<exists>r. relay_run (io sample_writing) relay_init = Some r \<and> \<not> relay_closed r"
proof -
  have "\<not> closing sample_writing"
    using reachable_invar[OF sample_reachable(3)[unfolded sample_session_def] sample_um pool_invar_new]
      sample_writing_step(2) by (auto simp: hs_invar_def split: if_splits)
  with session_refines_relay[OF sample_reachable(3)[unfolded sample_session_def] sample_um pool_invar_new]
  show ?thesis by auto
qed

section \<open>Delivery\<close>

lemma down_bytes_append [simp]: "down_bytes (xs @ ys) = down_bytes xs @ down_bytes ys"
  by (simp add: down_bytes_def)

lemma down_bytes_simps [simp]:
  "down_bytes [] = []" "down_bytes (DownstreamWrite b # es) = b @ down_bytes es"
  "down_bytes (NextRequest # es) = down_bytes es" "down_bytes (DownstreamClosed # es) = down_bytes es"
  "down_bytes (UpstreamClosed k # es) = down_bytes es" "down_bytes (UpstreamReleased k # es) = down_bytes es"
  by (simp_all add: down_bytes_def)

text \<open>One turn of the response writer: the next piece, or the end.\<close>

lemma pull_response_turn:
  assumes "pull_and_write_response_to_downstream eng s = Some s'" "pending s = []" "\<not> closing s"
    and "response_serializer s = Some ser" "ser_invar ser" "is_last_provided ser"
    and "write_buf s = Some wb" "wb \<noteq> []"
  shows "if ser_unsent ser = []
         then (closing s' \<or> pending s' = [AwaitRequestRead]) \<and> down_bytes (io s') = down_bytes (io s)
         else \<exists>ser1 wb1. pending s' = [AwaitResponseWrite] \<and> response_serializer s' = Some ser1 \<and>
           is_last_provided ser1 \<and> ser_unsent ser1 = drop (length wb) (ser_unsent ser) \<and>
           write_buf s' = Some wb1 \<and> wb1 \<noteq> [] \<and>
           down_bytes (io s') = down_bytes (io s) @ take (length wb) (ser_unsent ser)"
proof -
  obtain out ser1 where p: "RequestSerializer_pull (length wb) ser = (out, ser1)" by fastforce
  have o: "out = take (length wb) (ser_unsent ser)" "is_last_provided ser1"
    "ser_unsent ser1 = drop (length wb) (ser_unsent ser)"
    "ser_unsent ser = [] \<Longrightarrow> ResponseSerializer_done ser1"
    using pull_spec[OF assms(5), of "length wb"] p pull_keeps(1)[of "length wb" ser] assms(6)
    by (auto simp: ResponseSerializer_done_def)
  let ?s1 = "s\<lparr>response_serializer := Some ser1, write_buf := Some (overwrite wb out)\<rparr>"
  show ?thesis
  proof (cases "ser_unsent ser = []")
    case False
    with assms p o show ?thesis
      by (auto simp: pull_and_write_response_to_downstream_def ResponseSerializer_pull_eq Let_def overwrite_def)
  next
    case True
    with assms p o obtain s2 where s2: "release_upstream ?s1 = Some s2"
      "if \<not> direct_response_mode s2 \<and> downstream_keep_alive_effective s2
       then reset_for_next_request eng s2 = Some s' else s' = close_session s2"
      by (auto simp: pull_and_write_response_to_downstream_def ResponseSerializer_pull_eq
          split: bind_splits if_splits)
    from s2(1) assms(2,3) have r: "pending s2 = []" "\<not> closing s2" "down_bytes (io s2) = down_bytes (io s)"
      by (auto simp: release_upstream_def split: option.splits if_splits bind_splits)
    show ?thesis
    proof (cases "\<not> direct_response_mode s2 \<and> downstream_keep_alive_effective s2")
      case True
      with s2(2) r \<open>ser_unsent ser = []\<close> show ?thesis
        by (auto simp: reset_for_next_request_def read_request_chunk_def split: bind_splits)
    next
      case False
      with s2(2) r \<open>ser_unsent ser = []\<close> close_session_effect[OF r(2,1)] show ?thesis
        by (auto split: option.splits)
    qed
  qed
qed

lemma written_reachable:
  assumes "session_reachable eng chain s0 s" "pending s = [AwaitResponseWrite]"
    and "on_response_written eng Error_none w (s\<lparr>pending := []\<rparr>) = Some s'"
  shows "session_reachable eng chain s0 s'"
proof (rule session_reachable.step[OF assms(1)])
  show "session_step eng chain s s'"
    using assms(2,3)
    by (intro session_step.completion[of s "[]" AwaitResponseWrite "[]" "WriteDone Error_none w"]) simp_all
qed

text \<open>C15. A complete response reaches the client: if the last piece of the body is known and the
  writes to the client keep succeeding, then after at most as many writes as there are bytes left
  (one more to notice the end) the session has written exactly the bytes that were left, and it
  has closed or waits for the next request.\<close>

theorem response_delivered:
  assumes "session_reachable eng chain (HttpSession_new hw um pool m) s"
    and "um_invar um" "pool_invar pool" "pending s = [AwaitResponseWrite]"
    and "response_serializer s = Some ser" "is_last_provided ser" "write_buf s = Some wb" "wb \<noteq> []"
    and "length (ser_unsent ser) < length ws"
  shows "\<exists>s'. finish_writes eng ws s = Some s' \<and> (closing s' \<or> pending s' = [AwaitRequestRead]) \<and>
     session_reachable eng chain (HttpSession_new hw um pool m) s' \<and>
     down_bytes (io s') = down_bytes (io s) @ ser_unsent ser"
  using assms(1,4-9)
proof (induction ws arbitrary: s ser wb)
  case (Cons w ws)
  note inv = reachable_invar[OF Cons.prems(1) assms(2,3)]
  let ?t = "s\<lparr>pending := [], metrics := (metrics s)\<lparr>bytes_upstream_to_downstream :=
      bytes_upstream_to_downstream (metrics s) + of_nat w\<rparr>\<rparr>"
  have nc: "\<not> closing s" using inv Cons.prems(2) by (auto simp: hs_invar_def split: if_splits)
  have si: "ser_invar ser"
    using reachable_linked[OF Cons.prems(1) assms(2,3)] Cons.prems(2,3)
    by (auto simp: linked_def link_defs sends_def split: if_splits)
  obtain s1 where s1: "on_response_written eng Error_none w (s\<lparr>pending := []\<rparr>) = Some s1"
    using step_completion_ok[OF inv, of "[]" AwaitResponseWrite "[]" "WriteDone Error_none w" eng chain]
      Cons.prems(2) by (auto simp: step_ok_def)
  then have pl: "pull_and_write_response_to_downstream eng ?t = Some s1"
    by (simp add: on_response_written_def Error_ok_def Error_none_def)
  note turn = pull_response_turn[OF pl _ _ _ si Cons.prems(4) _ Cons.prems(6)]
  note reach = written_reachable[OF Cons.prems(1,2) s1]
  show ?case
  proof (cases "ser_unsent ser = []")
    case True
    have e: "(closing s1 \<or> pending s1 = [AwaitRequestRead]) \<and> down_bytes (io s1) = down_bytes (io s)"
      using turn True nc Cons.prems(3,5) by simp
    then have "pending s1 \<noteq> [AwaitResponseWrite]"
      using reachable_invar[OF reach assms(2,3)] by (auto simp: hs_invar_def)
    then have "finish_writes eng ws s1 = Some s1" by (cases ws) auto
    with e s1 reach True Cons.prems(2) show ?thesis by auto
  next
    case False
    then obtain ser1 wb1 where t: "pending s1 = [AwaitResponseWrite]" "response_serializer s1 = Some ser1"
      "is_last_provided ser1" "ser_unsent ser1 = drop (length wb) (ser_unsent ser)"
      "write_buf s1 = Some wb1" "wb1 \<noteq> []"
      "down_bytes (io s1) = down_bytes (io s) @ take (length wb) (ser_unsent ser)"
      using turn nc Cons.prems(3,5) by auto
    have "0 < length wb" "0 < length (ser_unsent ser)" using Cons.prems(6) False by simp_all
    moreover have "length (ser_unsent ser1) = length (ser_unsent ser) - length wb" using t(4) by simp
    moreover have "length (ser_unsent ser) < Suc (length ws)" using Cons.prems(7) by simp
    ultimately have "length (ser_unsent ser1) < length ws" by linarith
    from Cons.IH[OF reach t(1-3,5,6) this] s1 t(4,7) Cons.prems(2) show ?thesis by auto
  qed
qed simp

lemma sample_denied_step:
  "\<exists>s ser wb. complete sample_engine [deny_filter] AwaitRequestRead (ReadDone Error_none ''GET'')
       (sample_open\<lparr>pending := []\<rparr>) = Some s \<and> pending s = [AwaitResponseWrite] \<and>
     response_serializer s = Some ser \<and> is_last_provided ser \<and> write_buf s = Some wb \<and> wb \<noteq> []"
proof -
  let ?h = "ResponseHead_init\<lparr>resp_status := 403\<rparr>"
  let ?ser = "ResponseSerializer_provide_body ''no'' True (ResponseSerializer_start ?h serializer_init)"
  note st = ResponseSerializer_start_spec[of ?h serializer_init]
  have ser: "ser_invar ?ser" "is_last_provided ?ser" "ser_unsent ?ser \<noteq> []"
    using provide_unsent_invar[OF st(1,3), of "''no''" True] st(2)
    by (simp_all add: ResponseSerializer_provide_body_eq provide_spec response_head_bytes_def)
  let ?t0 = "sample_open\<lparr>pending := [], read_buf := Some (overwrite (replicate 4 (CHR 0x00)) ''GET''),
      request_parser := Some sample_parsed, request_filtered := True,
      metrics := (metrics sample_open)\<lparr>requests_handled := requests_handled (metrics sample_open) + 1\<rparr>,
      downstream_wants_keep_alive := rq_should_keep_alive sample_parsed, filter_ctx := filter_ctx sample_open\<rparr>"
  have inv: "hs_invar sample_open"
    by (rule reachable_invar[OF sample_reachable(1)[unfolded sample_session_def] sample_um pool_invar_new])
  have pd: "pending sample_open = [] @ AwaitRequestRead # []" by (simp add: sample_open_eq)
  have "running (upstream_retry_used sample_open) (view sample_open) (sample_open\<lparr>pending := []\<rparr>)"
    using invar_pending[OF inv pd] by blast
  then have "running (upstream_retry_used sample_open) (view sample_open) ?t0"
    by (auto simp: phase_defs overwrite_def sample_open_eq sample_session_def HttpSession_new_def)
  from respond_directly_ok[OF this, of sample_engine ?h "''no''"] obtain s where
    s: "respond_directly sample_engine ?h ''no'' ?t0 = Some s" by blast
  have f: "read_buf sample_open = Some (replicate 4 (CHR 0x00))" "\<not> request_filtered sample_open"
    "request_parser sample_open = Some (RequestParser_new sample_engine)"
    "write_buf sample_open = Some (replicate 4 (CHR 0x00))" "\<not> closing sample_open"
    by (simp_all add: sample_open_eq sample_session_def HttpSession_new_def)
  have c: "complete sample_engine [deny_filter] AwaitRequestRead (ReadDone Error_none ''GET'')
       (sample_open\<lparr>pending := []\<rparr>) = Some s"
    using s f
    by (simp add: on_request_read_def process_downstream_chunk_def request_loop.simps[of _ _ "''GET''"]
        Error_ok_def Error_none_def sample_feed filter_request_head_def sample_parsed_fields deny_filter_def)
  from pull_response_turn[OF s[unfolded respond_directly_def] _ _ _ ser(1,2)] ser(3) c f show ?thesis
    by auto
qed

theorem response_delivered_witness:
  "\<exists>s ser s'. complete sample_engine [deny_filter] AwaitRequestRead (ReadDone Error_none ''GET'')
       (sample_open\<lparr>pending := []\<rparr>) = Some s \<and>
     finish_writes sample_engine (replicate (Suc (length (ser_unsent ser))) 4) s = Some s' \<and>
     (closing s' \<or> pending s' = [AwaitRequestRead]) \<and>
     down_bytes (io s') = down_bytes (io s) @ ser_unsent ser"
proof -
  obtain s ser wb where c: "complete sample_engine [deny_filter] AwaitRequestRead (ReadDone Error_none ''GET'')
       (sample_open\<lparr>pending := []\<rparr>) = Some s"
    and s: "pending s = [AwaitResponseWrite]" "response_serializer s = Some ser" "is_last_provided ser"
      "write_buf s = Some wb" "wb \<noteq> []" using sample_denied_step by blast
  have "session_reachable sample_engine [deny_filter] (HttpSession_new 8
      (UpstreamManager_new sample_config) (BufferPool_new 4 2) LocalMetrics_init) sample_open"
    using session_reachable.start[OF sample_start, of "[deny_filter]"] by (simp add: sample_session_def)
  moreover have "session_step sample_engine [deny_filter] sample_open s"
    using c by (intro session_step.completion[of _ "[]" AwaitRequestRead "[]" "ReadDone Error_none ''GET''"])
      (simp_all add: sample_open_eq)
  ultimately have r: "session_reachable sample_engine [deny_filter] (HttpSession_new 8
      (UpstreamManager_new sample_config) (BufferPool_new 4 2) LocalMetrics_init) s"
    by (rule session_reachable.step)
  have "length (ser_unsent ser) < length (replicate (Suc (length (ser_unsent ser))) (4::nat))"
    by (simp only: length_replicate lessI)
  from response_delivered[OF r sample_um pool_invar_new s this] c show ?thesis by blast
qed

section \<open>Handing over the request\<close>

definition up_bytes :: "socket_id \<Rightarrow> io_event list \<Rightarrow> byte_list" where
  "up_bytes k es = concat (map (\<lambda>e. case e of UpstreamWrite j b \<Rightarrow> (if j = k then b else []) | _ \<Rightarrow> []) es)"

text \<open>Writes to the upstream that complete without error.\<close>

fun finish_request_writes ::
  "'e llhttp_engine \<Rightarrow> nat list \<Rightarrow> ('e, 'v) HttpSession \<Rightarrow> ('e, 'v) HttpSession option" where
  "finish_request_writes eng [] s = Some s"
| "finish_request_writes eng (w # ws) s =
     (case pending s of
        [AwaitRequestWrite n] \<Rightarrow>
          do { s' \<leftarrow> on_request_written eng n Error_none w (s\<lparr>pending := []\<rparr>); finish_request_writes eng ws s' }
      | _ \<Rightarrow> Some s)"

lemma pull_request_turn:
  assumes "pull_and_write_request_to_upstream eng s = Some s'" "pending s = []"
    and "request_serializer s = Some ser" "ser_invar ser" "is_last_provided ser"
    and "write_buf s = Some wb" "wb \<noteq> []" "upstream s = Some k"
  shows "if ser_unsent ser = []
         then pending s' = [AwaitResponseRead] \<and> io s' = io s \<and> (\<exists>wb1. write_buf s' = Some wb1 \<and> wb1 \<noteq> [])
         else \<exists>ser1 wb1 n. pending s' = [AwaitRequestWrite n] \<and> request_serializer s' = Some ser1 \<and>
           is_last_provided ser1 \<and> ser_unsent ser1 = drop (length wb) (ser_unsent ser) \<and>
           write_buf s' = Some wb1 \<and> wb1 \<noteq> [] \<and> upstream s' = Some k \<and>
           io s' = io s @ [UpstreamWrite k (take (length wb) (ser_unsent ser))]"
proof -
  obtain out ser1 where p: "RequestSerializer_pull (length wb) ser = (out, ser1)" by fastforce
  have o: "out = take (length wb) (ser_unsent ser)" "is_last_provided ser1"
    "ser_unsent ser1 = drop (length wb) (ser_unsent ser)"
    "ser_unsent ser = [] \<Longrightarrow> RequestSerializer_done ser1"
    using pull_spec[OF assms(4), of "length wb"] p pull_keeps(1)[of "length wb" ser] assms(5)
    by (auto simp: RequestSerializer_done_def)
  show ?thesis
    using assms p o
    by (cases "ser_unsent ser = []")
      (auto simp: pull_and_write_request_to_upstream_def Let_def overwrite_def start_response_phase_def
        read_response_chunk_def split: if_splits bind_splits)
qed

lemma request_written_reachable:
  assumes "session_reachable eng chain s0 s" "pending s = [AwaitRequestWrite n]"
    and "on_request_written eng n Error_none w (s\<lparr>pending := []\<rparr>) = Some s'"
  shows "session_reachable eng chain s0 s'"
proof (rule session_reachable.step[OF assms(1)])
  show "session_step eng chain s s'"
    using assms(2,3)
    by (intro session_step.completion[of s "[]" "AwaitRequestWrite n" "[]" "WriteDone Error_none w"]) simp_all
qed

text \<open>If the writes succeed, the bytes that are left are written.\<close>

lemma request_writes_finish:
  assumes "session_reachable eng chain (HttpSession_new hw um pool m) s"
    and "um_invar um" "pool_invar pool" "pending s = [AwaitRequestWrite n]" "upstream s = Some k"
    and "request_serializer s = Some ser" "is_last_provided ser" "write_buf s = Some wb" "wb \<noteq> []"
    and "length (ser_unsent ser) < length ws"
  shows "\<exists>s'. finish_request_writes eng ws s = Some s' \<and> pending s' = [AwaitResponseRead] \<and>
     session_reachable eng chain (HttpSession_new hw um pool m) s' \<and>
     (\<exists>wb1. write_buf s' = Some wb1 \<and> wb1 \<noteq> []) \<and>
     up_bytes k (io s') = up_bytes k (io s) @ ser_unsent ser"
  using assms(1,4-10)
proof (induction ws arbitrary: s ser wb n)
  case (Cons w ws)
  note inv = reachable_invar[OF Cons.prems(1) assms(2,3)]
  let ?t = "count_upstream_bytes w (s\<lparr>pending := [], upstream_wrote_once := True\<rparr>)"
  have si: "ser_invar ser"
    using reachable_linked[OF Cons.prems(1) assms(2,3)] Cons.prems(2,4)
    by (auto simp: linked_def link_defs sends_def split: if_splits)
  obtain s1 where s1: "on_request_written eng n Error_none w (s\<lparr>pending := []\<rparr>) = Some s1"
    using step_completion_ok[OF inv, of "[]" "AwaitRequestWrite n" "[]" "WriteDone Error_none w" eng chain]
      Cons.prems(2) by (auto simp: step_ok_def)
  then have pl: "pull_and_write_request_to_upstream eng ?t = Some s1"
    by (simp add: on_request_written_def Error_ok_def Error_none_def count_upstream_bytes_def)
  have tf: "pending ?t = []" "request_serializer ?t = Some ser" "write_buf ?t = Some wb" "upstream ?t = Some k"
    "io ?t = io s" using Cons.prems by (simp_all add: count_upstream_bytes_def)
  note turn = pull_request_turn[OF pl tf(1,2) si Cons.prems(5) tf(3) Cons.prems(7) tf(4)]
  note reach = request_written_reachable[OF Cons.prems(1,2) s1]
  show ?case
  proof (cases "ser_unsent ser = []")
    case True
    with turn tf(5) have e: "pending s1 = [AwaitResponseRead]" "io s1 = io s" "\<exists>wb1. write_buf s1 = Some wb1 \<and> wb1 \<noteq> []" by simp_all
    then have "finish_request_writes eng ws s1 = Some s1" by (cases ws) auto
    then show ?thesis using e s1 reach True Cons.prems(2) by auto
  next
    case False
    then obtain ser1 wb1 n1 where t: "pending s1 = [AwaitRequestWrite n1]" "upstream s1 = Some k"
      "request_serializer s1 = Some ser1" "is_last_provided ser1" "write_buf s1 = Some wb1" "wb1 \<noteq> []"
      "ser_unsent ser1 = drop (length wb) (ser_unsent ser)"
      "io s1 = io s @ [UpstreamWrite k (take (length wb) (ser_unsent ser))]"
      using turn tf(5) by auto
    have "0 < length wb" "0 < length (ser_unsent ser)" using Cons.prems(7) False by simp_all
    moreover have "length (ser_unsent ser1) = length (ser_unsent ser) - length wb" using t(7) by simp
    moreover have "length (ser_unsent ser) < Suc (length ws)" using Cons.prems(8) by simp
    ultimately have "length (ser_unsent ser1) < length ws" by linarith
    from Cons.IH[OF reach t(1-6) this] s1 t(7,8) Cons.prems(2) show ?thesis by (auto simp: up_bytes_def)
  qed
qed simp

text \<open>C14. A complete request is handed over: if the last piece of the body is known and the writes
  to the upstream keep succeeding, then after at most as many writes as there are bytes left (one
  more to notice the end) exactly the bytes that were left have been written to this one connection,
  the session waits for the response, and the whole request, with the end of its body, is with
  the upstream.\<close>

theorem request_handed_over:
  assumes "session_reachable eng chain (HttpSession_new hw um pool m) s"
    and "um_invar um" "pool_invar pool" "pending s = [AwaitRequestWrite n]" "upstream s = Some k"
    and "request_serializer s = Some ser" "is_last_provided ser" "write_buf s = Some wb" "wb \<noteq> []"
    and "length (ser_unsent ser) < length ws"
  shows "\<exists>s' r. finish_request_writes eng ws s = Some s' \<and> pending s' = [AwaitResponseRead] \<and>
     session_reachable eng chain (HttpSession_new hw um pool m) s' \<and>
     up_bytes k (io s') = up_bytes k (io s) @ ser_unsent ser \<and>
     relay_run (io s') relay_init = Some r \<and> handed_over r"
proof -
  obtain s' where s': "finish_request_writes eng ws s = Some s'" "pending s' = [AwaitResponseRead]"
    "session_reachable eng chain (HttpSession_new hw um pool m) s'" "up_bytes k (io s') = up_bytes k (io s) @ ser_unsent ser"
    using request_writes_finish[OF assms] by blast
  moreover obtain r where "relay_run (io s') relay_init = Some r" "handed_over r"
    using reachable_linked[OF s'(3) assms(2,3)] s'(2) by (fastforce simp: linked_def answering_link_def)
  ultimately show ?thesis by blast
qed

lemma sample_writing_fields:
  "\<exists>ser wb. upstream sample_writing = Some 7 \<and> request_serializer sample_writing = Some ser \<and>
     is_last_provided ser \<and> write_buf sample_writing = Some wb \<and> wb \<noteq> []"
proof -
  obtain ser where p: "RequestSerializer_pull 4 (RequestSerializer_provide_body [] True
     (RequestSerializer_start sample_head serializer_init)) = (''GET '', ser)"
    "\<not> RequestSerializer_done ser" using sample_pull by blast
  have l: "is_last_provided ser"
    using pull_keeps(1)[of 4 "RequestSerializer_provide_body [] True (RequestSerializer_start sample_head serializer_init)"] p
      RequestSerializer_start_spec[of sample_head serializer_init] by (simp add: provide_spec)
  from sample_writing_step(1) p obtain x y where "sample_connecting\<lparr>upstream := Some 7,
      request_serializer := Some ser, write_buf := Some ''GET '', pending := x, io := y\<rparr> = sample_writing"
    by (auto simp: on_acquire_def Error_ok_def Error_none_def set_upstream_def sample_connecting_fields
        pull_and_write_request_to_upstream_def overwrite_def)
  from this[symmetric] show ?thesis using l by (elim ssubst) simp
qed

theorem request_handed_over_witness:
  "\<exists>ser s'. finish_request_writes sample_engine (replicate (Suc (length (ser_unsent ser))) 4) sample_writing = Some s' \<and>
     pending s' = [AwaitResponseRead] \<and> up_bytes 7 (io s') = up_bytes 7 (io sample_writing) @ ser_unsent ser"
proof -
  obtain ser wb where f: "upstream sample_writing = Some 7" "request_serializer sample_writing = Some ser"
     "is_last_provided ser" "write_buf sample_writing = Some wb" "wb \<noteq> []" using sample_writing_fields by blast
  have "length (ser_unsent ser) < length (replicate (Suc (length (ser_unsent ser))) (4::nat))"
    by (simp only: length_replicate lessI)
  from request_handed_over[OF sample_reachable(3)[unfolded sample_session_def] sample_um pool_invar_new
      sample_writing_step(2) f this] show ?thesis by blast
qed

section \<open>Failing peers\<close>

text \<open>The first error may start the one retry of the request, every other closes the session.\<close>

lemma error_closes_or_retries:
  assumes "complete eng chain c x s = Some s'" "\<not> Error_ok (completion_error x)" "pending s = []" "\<not> closing s"
  shows "closing s' \<or> (\<not> retrying c \<and> (\<exists>c'. pending s' = [c'] \<and> retrying c'))"
proof -
  have cl: "closing (close_session t)" if "\<not> closing t" for t :: "('a, 'b) HttpSession"
    using that by (simp add: close_session_def Let_def split: option.split)
  have rt: "\<exists>c'. pending t' = [c'] \<and> retrying c'"
    if "retry_upstream_write_once n t = Some t' \<or> retry_upstream_after_read_failure t = Some t'" "pending t = []"
    for n and t t' :: "('a, 'b) HttpSession"
    using that
    by (auto simp: retry_upstream_write_once_def retry_upstream_after_read_failure_def drop_upstream_def Let_def
        split: bind_splits acquisition.splits)
  show ?thesis
    using assms cl
    by (cases c; cases x)
      (auto simp: on_request_read_def on_acquire_def on_request_written_def on_retry_acquire_def
        on_retry_written_def on_snapshot_acquire_def on_snapshot_written_def on_response_read_def
        on_response_written_def split: if_splits option.splits dest!: rt[OF disjI1] rt[OF disjI2])
qed

text \<open>C16. Dead peers do not hold a session: in every reachable state that is not closed, if the
  outstanding operation fails, the session closes or makes its one retry, and if the retry's
  connection fails too, it closes. So at most two failures in a row end the session, whatever it
  was doing, and give its resources back.\<close>

theorem failures_close_session:
  assumes "session_reachable eng chain (HttpSession_new hw um pool m) s" "um_invar um" "pool_invar pool"
    and "\<not> closing s"
  shows "\<exists>c. pending s = [c] \<and>
     (\<forall>x. fits s c x \<and> \<not> Error_ok (completion_error x) \<longrightarrow>
        (\<exists>s1. complete eng chain c x (s\<lparr>pending := []\<rparr>) = Some s1 \<and>
           (closing s1 \<or>
            (\<exists>c1. pending s1 = [c1] \<and>
               (\<forall>x1. fits s1 c1 x1 \<and> \<not> Error_ok (completion_error x1) \<longrightarrow>
                  (\<exists>s2. complete eng chain c1 x1 (s1\<lparr>pending := []\<rparr>) = Some s2 \<and> closing s2))))))"
proof -
  note inv = reachable_invar[OF assms(1-3)]
  obtain c where c: "pending s = [c]" using inv assms(4) by (auto simp: hs_invar_def)
  have "\<exists>s1. complete eng chain c x (s\<lparr>pending := []\<rparr>) = Some s1 \<and> (closing s1 \<or>
      (\<exists>c1. pending s1 = [c1] \<and> (\<forall>x1. fits s1 c1 x1 \<and> \<not> Error_ok (completion_error x1) \<longrightarrow>
         (\<exists>s2. complete eng chain c1 x1 (s1\<lparr>pending := []\<rparr>) = Some s2 \<and> closing s2))))"
    if x: "fits s c x" "\<not> Error_ok (completion_error x)" for x
  proof -
    obtain s1 where s1: "complete eng chain c x (s\<lparr>pending := []\<rparr>) = Some s1" "hs_invar s1"
      using step_completion_ok[OF inv, of "[]" c "[]" x eng chain] c x(1) by (auto simp: step_ok_def)
    have e1: "closing s1 \<or> (\<exists>c1. pending s1 = [c1] \<and> retrying c1)"
      using error_closes_or_retries[OF s1(1) x(2)] assms(4) by auto
    have "\<exists>s2. complete eng chain c1 x1 (s1\<lparr>pending := []\<rparr>) = Some s2 \<and> closing s2"
      if h: "pending s1 = [c1]" "retrying c1" "fits s1 c1 x1" "\<not> Error_ok (completion_error x1)" "\<not> closing s1"
      for c1 x1
    proof -
      obtain s2 where s2: "complete eng chain c1 x1 (s1\<lparr>pending := []\<rparr>) = Some s2"
        using step_completion_ok[OF s1(2), of "[]" c1 "[]" x1 eng chain] h(1,3) by (auto simp: step_ok_def)
      with error_closes_or_retries[OF s2 h(4)] h(2,5) show ?thesis by auto
    qed
    with s1(1) e1 show ?thesis by blast
  qed
  with c show ?thesis by blast
qed

theorem failures_close_session_witness:
  "\<exists>s1 c1. complete sample_engine [ViaHeaderFilter] (AwaitRequestWrite 4) (WriteDone timeout_error 0)
       (sample_writing\<lparr>pending := []\<rparr>) = Some s1 \<and> (closing s1 \<or> pending s1 = [c1])"
proof -
  have nc: "\<not> closing sample_writing"
    using reachable_invar[OF sample_reachable(3)[unfolded sample_session_def] sample_um pool_invar_new]
      sample_writing_step(2) by (auto simp: hs_invar_def split: if_splits)
  have "fits sample_writing (AwaitRequestWrite 4) (WriteDone timeout_error 0) \<and>
      \<not> Error_ok (completion_error (WriteDone timeout_error 0))"
    by (simp add: timeout_error_def Error_ok_def)
  moreover from failures_close_session[OF sample_reachable(3)[unfolded sample_session_def] sample_um
      pool_invar_new nc] sample_writing_step(2)
  have "\<forall>x. fits sample_writing (AwaitRequestWrite 4) x \<and> \<not> Error_ok (completion_error x) \<longrightarrow>
      (\<exists>s1. complete sample_engine [ViaHeaderFilter] (AwaitRequestWrite 4) x (sample_writing\<lparr>pending := []\<rparr>) =
         Some s1 \<and> (closing s1 \<or> (\<exists>c1. pending s1 = [c1])))" by fastforce
  ultimately show ?thesis by blast
qed

end
