(* ===== verification/Request_Forwarding.thy ===== *)
theory Request_Forwarding
  imports Exchange_Frames Relay_Props
begin

text \<open>
  What the session passes on to the upstream is what it received from the client: the head after
  the filters, and the body, piece by piece, with the end of the body where the client's message
  ended. The parse loop with its drain loop, the gate and the serializer is compared with
  \<open>receive_request\<close>, the parser alone; every other method leaves the request as it is or begins the next.
\<close>

section \<open>The request while it is forwarded\<close>

text \<open>The head \<open>h1\<close> that is forwarded for a received head \<open>h\<close>.\<close>

definition forwarded_request :: "'v FilterChain \<Rightarrow> RequestHead \<Rightarrow> RequestHead \<Rightarrow> bool" where
  "forwarded_request chain h h1 \<longleftrightarrow>
     (\<exists>h' ctx. apply_request chain h Map.empty = (fh_continue, h', ctx) \<and>
        h1 = h'\<lparr>req_headers := set_header (req_headers h') ''Connection'' ''keep-alive''\<rparr>)"

text \<open>The body received is the pieces passed on, what the gate holds back, the piece \<open>pend\<close> taken from the
  parser, and what is still in the parser.\<close>

definition forwarding ::
  "'v FilterChain \<Rightarrow> nat \<Rightarrow> RequestHead option \<times> 'e RequestParser \<Rightarrow> byte_list \<Rightarrow> ('e, 'v) HttpSession \<Rightarrow> bool" where
  "forwarding chain n x pend s \<longleftrightarrow> turns s = n \<and> \<not> closing s \<and> \<not> direct_response_mode s \<and>
     request_gate_invar chain (body_filter_gate s) \<and> request_filtered s = request_serializer_started s \<and>
     (passing on_request_data chain \<longrightarrow> di_buffer (request_state (body_filter_gate s)) = []) \<and>
     (\<exists>rp ps. request_parser s = Some rp \<and>
        snd x = rq_undrained (provided ps @ di_buffer (request_state (body_filter_gate s)) @ pend) rp \<and>
        request_final_body_provided s = gives_last ps \<and> one_last ps \<and>
        (gives_last ps \<longrightarrow> rq_message_done rp \<and> pend = [] \<and> rq_scratch rp = []) \<and>
        (if request_serializer_started s
         then \<exists>h h1. fst x = Some h \<and> request_of (io s) = Some (h1, ps) \<and> forwarded_request chain h h1
         else fst x = None \<and> request_of (io s) = None \<and> ps = [] \<and> filter_ctx s = Map.empty))"

lemmas forwarding_defs = forwarding_def turns_def

lemma request_chunk_forwarding:
  assumes "process_request_data_chunk eng chain c e s = Some (b, s')" "forwarding chain n x (c @ rest) s"
    and "request_serializer_started s" "c \<noteq> []" "inspecting on_request_data chain" "request_parser s = Some rp"
    and "e \<Longrightarrow> rest = [] \<and> rq_scratch rp = [] \<and> rq_message_done rp"
  shows "if b then forwarding chain n x rest s' \<and> request_serializer_started s' else direct_response_mode s'"
proof -
  obtain r g ctx where g: "gate_apply_request chain c e (body_filter_gate s) (filter_ctx s) = (r, g, ctx)"
    by (metis prod_cases3)
  have inv: "request_gate_invar chain (body_filter_gate s)" using assms(2) by (simp add: forwarding_defs)
  note st = req_gate.apply_chunk_state[OF inv g] and bytes = req_gate.apply_chunk_bytes[OF inv assms(5) g]
  show ?thesis
  proof (cases r)
    case (kForward out)
    with st bytes have "di_buffer (request_state g) = []" "request_gate_invar chain g"
      "out = di_buffer (request_state (body_filter_gate s)) @ c" by simp_all
    with kForward g assms show ?thesis
      by (auto simp: process_request_data_chunk_def forwarding_defs one_last_snoc split: bind_splits)
  next
    case kStillBuffering
    with gate_passing(1)[OF g inv] have "\<not> passing on_request_data chain" by blast
    moreover from kStillBuffering st bytes have "di_buffer (request_state g) = di_buffer (request_state (body_filter_gate s)) @ c"
      "request_gate_invar chain g" by simp_all
    ultimately show ?thesis using kStillBuffering g assms
      by (auto simp: process_request_data_chunk_def forwarding_defs)
  next
    case (kReject h bd)
    with g assms(1) show ?thesis
      by (auto simp: process_request_data_chunk_def respond_directly_def dest!: direct_mode_kept)
  qed
qed

lemma drain_request_forwarding:
  fixes s :: "('e, 'v) HttpSession"
  assumes "drain_request_body_into_serializer eng chain s = Some s'" "forwarding chain n x [] s"
    and "request_serializer_started s" "inspecting on_request_data chain"
  shows "forwarding chain n x [] s' \<and> request_serializer_started s' \<and> unread_request s' = 0 \<or> direct_response_mode s'"
proof -
  let ?I = "\<lambda>pend t. forwarding chain n x (case pend of None \<Rightarrow> [] | Some c \<Rightarrow> c) t \<and> request_serializer_started t \<and>
    pend \<noteq> Some []"
  have "?I None s' \<and> unread_request s' = 0 \<or> direct_response_mode s'"
  proof (rule drain_request_steps[where I = ?I, OF assms(1)[unfolded drain_request_body_into_serializer_def]])
    show "?I None s" using assms(2,3) by simp
    fix t :: "('e, 'v) HttpSession" and rp out rp1
    assume rd: "rq_read_body body_scratch_size rp = (out, rp1)" "out \<noteq> []" and rp: "request_parser t = Some rp"
    note split = rq_read_body_splits[OF rd(1)]
    have take: "forwarding chain n x (pend @ out) (t\<lparr>request_parser := Some rp1\<rparr>)"
      if "forwarding chain n x pend t" "request_serializer_started t" for pend
    proof -
      obtain u where "rp1 = rp\<lparr>rq_scratch := u\<rparr>" "rq_scratch rp = out @ u" using split by metis
      with that rp rd(2) show ?thesis by (auto simp: forwarding_defs)
    qed
    show "?I (Some out) (t\<lparr>request_parser := Some rp1\<rparr>)" if "?I None t"
      using take[of "[]"] that rd(2) by simp
    show "if b then ?I (Some out) t' else direct_response_mode t'"
      if "?I (Some c) t" "process_request_data_chunk eng chain c False (t\<lparr>request_parser := Some rp1\<rparr>) = Some (b, t')"
      for c b t'
      using request_chunk_forwarding[OF that(2) take[of c] _ _ assms(4)] that(1) rd(2) by simp
  next
    fix c t rp b t'
    assume "?I (Some c) t" "request_parser t = Some rp" "rq_scratch rp = []"
      "process_request_data_chunk eng chain c (rq_message_done rp) t = Some (b, t')"
    then show "if b then ?I None t' else direct_response_mode t'"
      using request_chunk_forwarding[of eng chain c "rq_message_done rp" t b t' n x "[]" rp] assms(4) by simp
  qed
  then show ?thesis by simp
qed

text \<open>A read is fed to the parser, and the head is filtered when it is complete.\<close>

lemma request_head_forwarding:
  assumes "filter_request_head eng chain (s\<lparr>request_parser := Some rp1\<rparr>) = Some (r, s')" "forwarding chain n x [] s"
    and "request_parser s = Some rp" "rq_feed eng raw rp = (m, rp1)"
  shows "fst (request_feed eng raw x) = m \<and>
    (if r then direct_response_mode s' else forwarding chain n (snd (request_feed eng raw x)) [] s')"
proof -
  obtain ps where x: "snd x = rq_undrained (provided ps @ di_buffer (request_state (body_filter_gate s))) rp"
    "request_final_body_provided s = gives_last ps" "one_last ps" "gives_last ps \<longrightarrow> rq_message_done rp \<and> rq_scratch rp = []"
    "if request_serializer_started s
     then \<exists>h h1. fst x = Some h \<and> request_of (io s) = Some (h1, ps) \<and> forwarded_request chain h h1
     else fst x = None \<and> request_of (io s) = None \<and> ps = [] \<and> filter_ctx s = Map.empty"
    using assms(2,3) by (auto simp: forwarding_defs)
  have f: "request_feed eng raw x = (m, if fst x = None \<and> rq_header_done rp1 then Some (rq_head rp1) else fst x,
      rq_undrained (provided ps @ di_buffer (request_state (body_filter_gate s))) rp1)"
    using rq_feed_undrained[OF assms(4), of "provided ps @ di_buffer (request_state (body_filter_gate s))"]
    by (simp add: request_feed_def x(1))
  have keep: "gives_last ps \<longrightarrow> rq_message_done rp1 \<and> rq_scratch rp1 = []"
    using x(4) assms(4) by (auto simp: rq_feed_def)
  show ?thesis
    using assms(1,2) x(2,3,5) f keep
    by (auto simp: filter_request_head_def forwarding_defs forwarded_request_def Let_def respond_directly_def
        dest!: direct_mode_kept split: bind_splits if_splits prod.splits FilterHeaderResult.splits)
qed

definition drained :: "('e, 'v) HttpSession \<Rightarrow> bool" where
  "drained s \<longleftrightarrow> (request_serializer_started s \<longrightarrow> unread_request s = 0)"

lemma request_loop_forwarding:
  assumes "request_loop eng chain raw s = Some (b, s')" "forwarding chain n x [] s" "drained s"
    and "inspecting on_request_data chain"
  shows "if b then closing s' \<or> direct_response_mode s'
     else forwarding chain n (feed_all (request_feed eng) raw x) [] s' \<and> drained s'"
proof -
  let ?X = "feed_all (request_feed eng) raw x"
  let ?I = "\<lambda>raw t. \<exists>y. forwarding chain n y [] t \<and> drained t \<and> feed_all (request_feed eng) raw y = ?X"
  have "if b then closing s' \<or> direct_response_mode s' else ?I [] s'"
  proof (rule request_loop_steps[where I = ?I and E = "?I []", OF assms(1)])
    show "?I raw s" using assms(2,3) by blast
    fix raw t rp m rp1
    assume I: "?I raw t" and raw: "raw \<noteq> []" and rp: "request_parser t = Some rp" "rq_feed eng raw rp = (m, rp1)"
    then obtain y where y: "forwarding chain n y [] t" "feed_all (request_feed eng) raw y = ?X" by blast
    show "closing t' \<or> direct_response_mode t'"
      if "filter_request_head eng chain (t\<lparr>request_parser := Some rp1\<rparr>) = Some (True, t')" for t'
      using request_head_forwarding[OF that y(1) rp] by simp
    show "if request_serializer_started t2 \<and> direct_response_mode t3 then closing t3 \<or> direct_response_mode t3
        else if m = 0 then ?I [] t3 else ?I (drop m raw) t3"
      if h: "filter_request_head eng chain (t\<lparr>request_parser := Some rp1\<rparr>) = Some (False, t2)"
        and d: "(if request_serializer_started t2 then drain_request_body_into_serializer eng chain t2 else Some t2) = Some t3"
      for t2 t3
    proof -
      let ?y = "snd (request_feed eng raw y)"
      from request_head_forwarding[OF h y(1) rp] have k: "request_feed eng raw y = (m, ?y)" "forwarding chain n ?y [] t2"
        by (auto simp: prod_eq_iff)
      have k3: "forwarding chain n ?y [] t3 \<and> drained t3 \<or> request_serializer_started t2 \<and> direct_response_mode t3"
        using d k(2) drain_request_forwarding[OF _ k(2) _ assms(4), of eng t3] by (auto simp: drained_def split: if_splits)
      have "if m = 0 then feed_all (request_feed eng) [] ?y = ?X else feed_all (request_feed eng) (drop m raw) ?y = ?X"
        using feed_all_step[where g = "request_feed eng", OF raw k(1)] y(2) by simp
      with k3 show ?thesis by (cases "m = 0") (simp_all del: split_paired_Ex, blast+)
    qed
  qed (auto simp: close_session_def Let_def split: option.splits)
  then show ?thesis by auto
qed

section \<open>Between two steps\<close>

text \<open>Between two steps of the event loop also the end of the message has been passed on.\<close>

definition request_kept ::
  "'v FilterChain \<Rightarrow> nat \<Rightarrow> RequestHead option \<times> 'e RequestParser \<Rightarrow> ('e, 'v) HttpSession \<Rightarrow> bool" where
  "request_kept chain n x s \<longleftrightarrow> local_end s \<or>
     forwarding chain n x [] s \<and> drained s \<and>
     (request_serializer_started s \<longrightarrow> rq_message_done (the (request_parser s)) \<longrightarrow> request_final_body_provided s)"

lemma request_kept_frame:
  assumes "request_kept chain n x s" "same_request s s'"
  shows "request_kept chain n x s'"
proof (cases "local_end s'")
  case False
  with assms(2) have "request_side s' = request_side s" "\<not> local_end s"
    by (simp_all add: same_request_def)
  moreover from this have "\<not> request_serializer_started s \<Longrightarrow> filter_ctx s' = filter_ctx s"
    by (auto simp: request_side_def)
  ultimately show ?thesis using assms(1) False
    by (cases "request_serializer_started s")
      (simp_all add: request_kept_def request_side_def local_end_def forwarding_def drained_def unread_request_def
        request_gate_invar_def)
qed (simp add: request_kept_def)

lemma request_kept_shared [simp]:
  "request_kept chain n x (s\<lparr>pending := p\<rparr>) = request_kept chain n x s"
  "request_kept chain n x (s\<lparr>read_buf := b\<rparr>) = request_kept chain n x s"
  "request_kept chain n x (s\<lparr>upstream_manager := um, buffer_pool := pool, metrics := m\<rparr>) = request_kept chain n x s"
  by (simp_all add: request_kept_def forwarding_def turns_def drained_def unread_request_def local_end_def)

lemma renewed_request_kept:
  assumes "renewed eng s s'"
  shows "request_kept chain (turns s') (receive_request eng []) s'"
proof -
  have init: "di_buffer DataIterationState_init = []" by (simp add: DataIterationState_init_def)
  show ?thesis
    using assms
    by (auto simp: renewed_def request_side_def request_kept_def forwarding_def drained_def local_end_def
        request_gate_invar_def init RequestParser_new_def)
qed

lemma process_downstream_forwarding:
  assumes "process_downstream_chunk eng chain raw s = Some s'" "request_kept chain n x s" "\<not> local_end s"
    and "inspecting on_request_data chain"
  shows "request_kept chain n (feed_all (request_feed eng) raw x) s'"
proof -
  let ?X = "feed_all (request_feed eng) raw x"
  obtain b s1 where l: "request_loop eng chain raw s = Some (b, s1)"
    using assms(1) by (auto simp: process_downstream_chunk_def split: bind_splits)
  have "if b then local_end s1 else forwarding chain n ?X [] s1 \<and> drained s1"
    using request_loop_forwarding[OF l _ _ assms(4), of n x] assms(2,3) by (auto simp: request_kept_def local_end_def)
  note k = this
  consider "b" | "\<not> b" "\<not> request_serializer_started s1" | "\<not> b" "request_serializer_started s1" by blast
  then show ?thesis
  proof cases
    case 1
    with k l assms(1) show ?thesis by (simp add: process_downstream_chunk_def request_kept_def)
  next
    case 2
    with k have s1: "request_kept chain n ?X s1" "\<not> local_end s1" by (simp_all add: request_kept_def local_end_def forwarding_def)
    from 2 l assms(1) have "read_request_chunk s1 = Some s'" by (simp add: process_downstream_chunk_def)
    from request_kept_frame[OF s1(1) quiet_same_request[OF read_chunk_quiet(1)[OF this s1(2)]]] show ?thesis .
  next
    case 3
    with k have "\<not> local_end s1" by (simp add: local_end_def forwarding_def)
    from downstream_tail[OF assms(1) _ 3(2) this] l 3(1) obtain rp s2 where s2: "quiet eng s2 s'" "end_provided rp s1 s2"
      by auto
    with k 3 have "request_kept chain n ?X s2"
      by (auto simp: end_provided_def request_kept_def forwarding_defs drained_def unread_request_def local_end_def
          one_last_snoc split: if_splits)
    from request_kept_frame[OF this quiet_same_request[OF s2(1)]] show ?thesis .
  qed
qed

section \<open>Every step keeps the request\<close>

lemma request_kept_turns: "request_kept chain n x s \<Longrightarrow> \<not> local_end s \<Longrightarrow> turns s = n"
  by (simp add: request_kept_def forwarding_def)

lemma request_kept_same_or_new:
  assumes "request_kept chain (turns s) x s" "same_request s s' \<or> renewed eng s s'"
  shows "if turns s' = turns s then request_kept chain (turns s) x s'
     else request_kept chain (turns s') (receive_request eng []) s'"
proof (cases "local_end s'")
  case False
  from assms(2) show ?thesis
  proof
    assume k: "same_request s s'"
    with False have "turns s' = turns s" by (simp add: same_request_def request_side_def)
    with request_kept_frame[OF assms(1) k] show ?thesis by simp
  next
    assume k: "renewed eng s s'"
    then have "turns s' = Suc (turns s)" by (simp add: renewed_def request_side_def)
    with renewed_request_kept[OF k] show ?thesis by simp
  qed
qed (simp add: request_kept_def)

lemma complete_request:
  assumes "complete eng chain c r s = Some s'" "awaits c s" "request_kept chain (turns s) x s" "\<not> closing s"
    and "inspecting on_request_data chain"
  shows "if turns s' = turns s then request_kept chain (turns s) (fold (feed_all (request_feed eng)) (client_read c r) x) s'
     else request_kept chain (turns s') (receive_request eng []) s'"
proof (cases "direct_response_mode s")
  case True
  with direct_stays[OF assms(1,2)] show ?thesis by (simp add: request_kept_def)
next
  case False
  with assms(4) have l: "\<not> local_end s" by (simp add: local_end_def)
  consider (client) err b where "c = AwaitRequestRead" "r = ReadDone err b" "Error_ok err"
    | (upstream) err b where "c = AwaitResponseRead" "r = ReadDone err b" "Error_ok err"
    | (none) "client_read c r = []" "upstream_read c r = []"
    by (cases "Error_ok (completion_error r)"; cases "(c, r)" rule: client_read.cases;
        cases "(c, r)" rule: upstream_read.cases) auto
  then show ?thesis
  proof cases
    case client
    then obtain rb where "process_downstream_chunk eng chain b (s\<lparr>read_buf := Some rb\<rparr>) = Some s'"
      using assms(1) by (auto simp: on_request_read_def split: bind_splits)
    moreover have "request_kept chain (turns s) x (s\<lparr>read_buf := Some rb\<rparr>)" "\<not> local_end (s\<lparr>read_buf := Some rb\<rparr>)"
      using assms(3) l by (simp_all add: local_end_def)
    ultimately have "request_kept chain (turns s) (feed_all (request_feed eng) b x) s'"
      by (rule process_downstream_forwarding) (rule assms(5))
    with request_kept_turns[OF this] client show ?thesis by (cases "local_end s'") (auto simp: request_kept_def)
  next
    case upstream
    let ?t = "\<lambda>rb. s\<lparr>upstream_response_read_any := True, read_buf := Some rb\<rparr>"
    from upstream obtain rb where p: "process_upstream_chunk eng chain b (?t rb) = Some s'"
      using assms(1) by (auto simp: on_response_read_def split: bind_splits)
    have t: "\<not> local_end (?t rb)" "request_side (?t rb) = request_side s" "request_serializer_started (?t rb)"
      using l assms(2) upstream by (auto simp: side_defs phase_defs)
    have "same_request s s' \<or> renewed eng s s'"
      using process_upstream_request[OF p t(1,3)] renewed_cong[OF t(2), of eng s'] t(2) l by (auto simp: same_request_def)
    from request_kept_same_or_new[OF assms(3) this] upstream show ?thesis by (cases "turns s' = turns s") simp_all
  next
    case none
    from complete_quiet[OF assms(1,2) l none] have "same_request s s' \<or> renewed eng s s'"
      using quiet_same_request by blast
    from request_kept_same_or_new[OF assms(3) this] none show ?thesis by (cases "turns s' = turns s") simp_all
  qed
qed

text \<open>The state of a session and what it has read agree.\<close>

lemma exchange_request_kept:
  assumes "exchange eng chain (HttpSession_new hw um pool m) qs ps s" "um_invar um" "pool_invar pool"
    and "inspecting on_request_data chain"
  shows "request_kept chain (turns s) (receive_request eng qs) s"
proof -
  have step: "if turns s' = turns s
      then request_kept chain (turns s) (fold (feed_all (request_feed eng)) (client_read c r) (receive_request eng qs)) s'
      else request_kept chain (turns s') (receive_request eng []) s'"
    if "exchange eng chain (HttpSession_new hw um pool m) qs ps s" "pending s = xs @ c # ys"
      "complete eng chain c r (s\<lparr>pending := xs @ ys\<rparr>) = Some s'" "request_kept chain (turns s) (receive_request eng qs) s"
    for qs ps s xs c ys r s'
  proof -
    let ?t = "s\<lparr>pending := []\<rparr>"
    note c = invar_pending[OF reachable_invar[OF exchange_reachable[OF that(1)] assms(2,3)] that(2)]
    have k: "request_kept chain (turns ?t) (receive_request eng qs) ?t" using that(4) by simp
    have "complete eng chain c r ?t = Some s'" "awaits c ?t" "\<not> closing ?t" using c that(3) by simp_all
    from complete_request[OF this(1,2) k this(3) assms(4)] show ?thesis by (simp only: turns_shared)
  qed
  from assms(1) show ?thesis
  proof (induction rule: exchange.induct)
  case (begins s)
  then show ?case
    by (auto simp: session_start_def HttpSession_new_def BufferPool_acquire_def read_request_chunk_def request_kept_def
        forwarding_def drained_def turns_def gate_invar_reset RequestParser_new_def BodyFilterGate_new_def
        DataIterationState_init_def request_gate_invar_def di_invar_def split: prod.splits bind_splits)
next
  case (goes_on qs ps s xs c ys r s')
  from step[OF goes_on.hyps(1,2,4) goes_on.IH] goes_on.hyps(5) show ?case
    by (cases "(c, r)" rule: client_read.cases) (auto split: if_splits)
next
  case (next_request qs ps s xs c ys r s')
  from step[OF next_request.hyps(1,2,4) next_request.IH] next_request.hyps(5) show ?case by simp
next
  case (others qs ps s um pool m)
  then show ?case by simp
  qed
qed

end
