(* ===== verification/Response_Forwarding.thy ===== *)
theory Response_Forwarding
  imports Exchange_Frames Relay_Props
begin

text \<open>
  What the session passes on to the client is what it received from the upstream: the head after
  the filters in reverse order, and the body with its end. As in \<open>Request_Forwarding\<close>, the parse loop
  is compared with the parser alone (\<open>receive_response\<close>). Until the first read from the upstream the
  response side is \<open>idle\<close>, also across retries.
\<close>

section \<open>The response while it is forwarded\<close>

text \<open>The head \<open>h1\<close> that is forwarded for a received head \<open>h\<close>; \<open>ka\<close> says whether the client connection is
  kept. The context of the filters is what the request phase left.\<close>

definition forwarded_response :: "'v FilterChain \<Rightarrow> bool \<Rightarrow> ResponseHead \<Rightarrow> ResponseHead \<Rightarrow> bool" where
  "forwarded_response chain ka h h1 \<longleftrightarrow>
     (\<exists>ctx h' ctx'. apply_response chain h ctx = (fh_continue, h', ctx') \<and>
        (ka \<longrightarrow> has_header (resp_headers h') ''Content-Length'' \<or> has_chunked_encoding (resp_headers h')) \<and>
        h1 = h'\<lparr>resp_headers := set_header (resp_headers h') ''Connection'' (if ka then ''keep-alive'' else ''close'')\<rparr>)"

definition receiving ::
  "'v FilterChain \<Rightarrow> nat \<Rightarrow> ResponseHead option \<times> 'e ResponseParser \<Rightarrow> byte_list \<Rightarrow> ('e, 'v) HttpSession \<Rightarrow> bool" where
  "receiving chain n x pend s \<longleftrightarrow> turns s = n \<and> \<not> closing s \<and> \<not> direct_response_mode s \<and>
     upstream_response_read_any s \<and>
     response_gate_invar chain (body_filter_gate s) \<and> response_filtered s = response_serializer_started s \<and>
     (passing on_response_data chain \<longrightarrow> di_buffer (response_state (body_filter_gate s)) = []) \<and>
     (\<exists>rp ps. response_parser s = Some rp \<and>
        snd x = rs_undrained (provided ps @ di_buffer (response_state (body_filter_gate s)) @ pend) rp \<and>
        response_final_body_provided s = gives_last ps \<and> one_last ps \<and>
        (gives_last ps \<longrightarrow> rs_message_done rp \<and> pend = [] \<and> rs_scratch rp = []) \<and>
        (if response_serializer_started s
         then \<exists>h h1. fst x = Some h \<and> response_of (io s) = Some (h1, ps) \<and>
           forwarded_response chain (downstream_keep_alive_effective s) h h1
         else fst x = None \<and> response_of (io s) = None \<and> ps = []))"

lemmas receiving_defs = receiving_def turns_def

lemma response_chunk_receiving:
  assumes "process_response_data_chunk eng chain c e s = Some (b, s')" "receiving chain n x (c @ rest) s"
    and "response_serializer_started s" "c \<noteq> []" "inspecting on_response_data chain" "response_parser s = Some rp"
    and "e \<Longrightarrow> rest = [] \<and> rs_scratch rp = [] \<and> rs_message_done rp"
  shows "if b then receiving chain n x rest s' \<and> response_serializer_started s' else direct_response_mode s'"
proof -
  obtain r g ctx where g: "gate_apply_response chain c e (body_filter_gate s) (filter_ctx s) = (r, g, ctx)"
    by (metis prod_cases3)
  have inv: "response_gate_invar chain (body_filter_gate s)" using assms(2) by (simp add: receiving_defs)
  note st = resp_gate.apply_chunk_state[OF inv g] and bytes = resp_gate.apply_chunk_bytes[OF inv assms(5) g]
  show ?thesis
  proof (cases r)
    case (kForward out)
    with st bytes have "di_buffer (response_state g) = []" "response_gate_invar chain g"
      "out = di_buffer (response_state (body_filter_gate s)) @ c" by simp_all
    with kForward g assms show ?thesis
      by (auto simp: process_response_data_chunk_def receiving_defs one_last_snoc split: bind_splits)
  next
    case kStillBuffering
    with gate_passing(2)[OF g inv] have "\<not> passing on_response_data chain" by blast
    moreover from kStillBuffering st bytes have "di_buffer (response_state g) = di_buffer (response_state (body_filter_gate s)) @ c"
      "response_gate_invar chain g" by simp_all
    ultimately show ?thesis using kStillBuffering g assms
      by (auto simp: process_response_data_chunk_def receiving_defs)
  next
    case (kReject h bd)
    with g assms(1) show ?thesis
      by (auto simp: process_response_data_chunk_def respond_directly_def dest!: direct_mode_kept)
  qed
qed

lemma drain_response_receiving:
  fixes s :: "('e, 'v) HttpSession"
  assumes "drain_response_body_into_serializer eng chain s = Some s'" "receiving chain n x [] s"
    and "response_serializer_started s" "inspecting on_response_data chain"
  shows "receiving chain n x [] s' \<and> response_serializer_started s' \<and> unread_response s' = 0 \<or> direct_response_mode s'"
proof -
  let ?I = "\<lambda>pend t. receiving chain n x (case pend of None \<Rightarrow> [] | Some c \<Rightarrow> c) t \<and> response_serializer_started t \<and>
    pend \<noteq> Some []"
  have "?I None s' \<and> unread_response s' = 0 \<or> direct_response_mode s'"
  proof (rule drain_response_steps[where I = ?I, OF assms(1)[unfolded drain_response_body_into_serializer_def]])
    show "?I None s" using assms(2,3) by simp
    fix t :: "('e, 'v) HttpSession" and rp out rp1
    assume rd: "rs_read_body body_scratch_size rp = (out, rp1)" "out \<noteq> []" and rp: "response_parser t = Some rp"
    note split = rs_read_body_splits[OF rd(1)]
    have take: "receiving chain n x (pend @ out) (t\<lparr>response_parser := Some rp1\<rparr>)"
      if "receiving chain n x pend t" "response_serializer_started t" for pend
    proof -
      obtain u where "rp1 = rp\<lparr>rs_scratch := u\<rparr>" "rs_scratch rp = out @ u" using split by metis
      with that rp rd(2) show ?thesis by (auto simp: receiving_defs)
    qed
    show "?I (Some out) (t\<lparr>response_parser := Some rp1\<rparr>)" if "?I None t"
      using take[of "[]"] that rd(2) by simp
    show "if b then ?I (Some out) t' else direct_response_mode t'"
      if "?I (Some c) t" "process_response_data_chunk eng chain c False (t\<lparr>response_parser := Some rp1\<rparr>) = Some (b, t')"
      for c b t'
      using response_chunk_receiving[OF that(2) take[of c] _ _ assms(4)] that(1) rd(2) by simp
  next
    fix c t rp b t'
    assume "?I (Some c) t" "response_parser t = Some rp" "rs_scratch rp = []"
      "process_response_data_chunk eng chain c (rs_message_done rp) t = Some (b, t')"
    then show "if b then ?I None t' else direct_response_mode t'"
      using response_chunk_receiving[of eng chain c "rs_message_done rp" t b t' n x "[]" rp] assms(4) by simp
  qed
  then show ?thesis by simp
qed

text \<open>A read is fed to the parser, and the head is filtered when it is complete.\<close>

lemma response_head_receiving:
  assumes "filter_response_head eng chain (s\<lparr>response_parser := Some rp1\<rparr>) = Some (r, s')" "receiving chain n x [] s"
    and "response_parser s = Some rp" "rs_feed eng raw rp = (m, rp1)"
  shows "fst (response_feed eng raw x) = m \<and>
    (if r then direct_response_mode s' else receiving chain n (snd (response_feed eng raw x)) [] s')"
proof -
  obtain ps where x: "snd x = rs_undrained (provided ps @ di_buffer (response_state (body_filter_gate s))) rp"
    "response_final_body_provided s = gives_last ps" "one_last ps" "gives_last ps \<longrightarrow> rs_message_done rp \<and> rs_scratch rp = []"
    "if response_serializer_started s
     then \<exists>h h1. fst x = Some h \<and> response_of (io s) = Some (h1, ps) \<and>
       forwarded_response chain (downstream_keep_alive_effective s) h h1
     else fst x = None \<and> response_of (io s) = None \<and> ps = []"
    using assms(2,3) by (auto simp: receiving_defs)
  have f: "response_feed eng raw x = (m, if fst x = None \<and> rs_header_done rp1 then Some (rs_head rp1) else fst x,
      rs_undrained (provided ps @ di_buffer (response_state (body_filter_gate s))) rp1)"
    using rs_feed_undrained[OF assms(4), of "provided ps @ di_buffer (response_state (body_filter_gate s))"]
    by (simp add: response_feed_def x(1))
  have keep: "gives_last ps \<longrightarrow> rs_message_done rp1 \<and> rs_scratch rp1 = []"
    using x(4) assms(4) by (auto simp: rs_feed_def)
  have base: "turns s = n" "\<not> closing s" "\<not> direct_response_mode s" "upstream_response_read_any s"
    "response_gate_invar chain (body_filter_gate s)"
    "passing on_response_data chain \<longrightarrow> di_buffer (response_state (body_filter_gate s)) = []" and filtered: "response_filtered s = response_serializer_started s"
    using assms(2) by (simp_all add: receiving_def)
  show ?thesis
  proof (cases "response_serializer_started s \<or> \<not> rs_header_done rp1")
    case True
    with assms(1) filtered have r: "\<not> r" "s' = s\<lparr>response_parser := Some rp1\<rparr>"
      by (auto simp: filter_response_head_def split: if_splits)
    show ?thesis
      using base filtered x(2,3,5) f keep True r(1) unfolding receiving_def r(2)
      by (cases "response_serializer_started s") (auto simp: turns_def)
  next
    case False
    obtain res h' ctx where a: "apply_response chain (rs_head rp1) (filter_ctx s) = (res, h', ctx)" by (metis prod_cases3)
    let ?framed = "has_header (resp_headers h') ''Content-Length'' \<or> has_chunked_encoding (resp_headers h')"
    let ?ka = "downstream_wants_keep_alive s \<and> ?framed"
    show ?thesis
    proof (cases res)
      case fh_continue
      define h1 where "h1 = h'\<lparr>resp_headers := set_header (resp_headers h') ''Connection'' (if ?ka then ''keep-alive'' else ''close'')\<rparr>"
      have h1: "forwarded_response chain ?ka (rs_head rp1) h1"
        using a fh_continue unfolding forwarded_response_def h1_def by blast
      from False fh_continue a filtered assms(1) obtain ser where "\<not> r"
        "s' = s\<lparr>response_parser := Some rp1, response_filtered := True, filter_ctx := ctx,
           downstream_keep_alive_effective := ?ka, response_serializer := Some ser, response_serializer_started := True,
           io := io s @ [ResponseStarted False h1]\<rparr>"
        by (auto simp: filter_response_head_def Let_def h1_def split: bind_splits)
      with base x(2,3,5) f keep False h1 show ?thesis by (simp add: receiving_defs)
    next
      case (fh_respond d)
      with False a filtered assms(1) f show ?thesis
        by (auto simp: filter_response_head_def dest!: respond_directly_ends)
    qed
  qed
qed

definition emptied :: "('e, 'v) HttpSession \<Rightarrow> bool" where
  "emptied s \<longleftrightarrow> (response_serializer_started s \<longrightarrow> unread_response s = 0)"

lemma response_loop_receiving:
  assumes "response_loop eng chain raw s = Some (b, s')" "receiving chain n x [] s" "emptied s"
    and "inspecting on_response_data chain"
  shows "if b then closing s' \<or> direct_response_mode s'
     else receiving chain n (feed_all (response_feed eng) raw x) [] s' \<and> emptied s'"
proof -
  let ?X = "feed_all (response_feed eng) raw x"
  let ?I = "\<lambda>raw t. \<exists>y. receiving chain n y [] t \<and> emptied t \<and> feed_all (response_feed eng) raw y = ?X"
  have "if b then closing s' \<or> direct_response_mode s' else ?I [] s'"
  proof (rule response_loop_steps[where I = ?I and E = "?I []", OF assms(1)])
    show "?I raw s" using assms(2,3) by blast
    fix raw t rp m rp1
    assume I: "?I raw t" and raw: "raw \<noteq> []" and rp: "response_parser t = Some rp" "rs_feed eng raw rp = (m, rp1)"
    then obtain y where y: "receiving chain n y [] t" "feed_all (response_feed eng) raw y = ?X" by blast
    show "closing t' \<or> direct_response_mode t'"
      if "filter_response_head eng chain (t\<lparr>response_parser := Some rp1\<rparr>) = Some (True, t')" for t'
      using response_head_receiving[OF that y(1) rp] by simp
    show "if response_serializer_started t2 \<and> direct_response_mode t3 then closing t3 \<or> direct_response_mode t3
        else if m = 0 then ?I [] t3 else ?I (drop m raw) t3"
      if h: "filter_response_head eng chain (t\<lparr>response_parser := Some rp1\<rparr>) = Some (False, t2)"
        and d: "(if response_serializer_started t2 then drain_response_body_into_serializer eng chain t2 else Some t2) = Some t3"
      for t2 t3
    proof -
      let ?y = "snd (response_feed eng raw y)"
      from response_head_receiving[OF h y(1) rp] have k: "response_feed eng raw y = (m, ?y)" "receiving chain n ?y [] t2"
        by (auto simp: prod_eq_iff)
      have k3: "receiving chain n ?y [] t3 \<and> emptied t3 \<or> response_serializer_started t2 \<and> direct_response_mode t3"
        using d k(2) drain_response_receiving[OF _ k(2) _ assms(4), of eng t3] by (auto simp: emptied_def split: if_splits)
      have "if m = 0 then feed_all (response_feed eng) [] ?y = ?X else feed_all (response_feed eng) (drop m raw) ?y = ?X"
        using feed_all_step[where g = "response_feed eng", OF raw k(1)] y(2) by simp
      with k3 show ?thesis by (cases "m = 0") (simp_all del: split_paired_Ex, blast+)
    qed
  qed (auto simp: close_session_def Let_def split: option.splits)
  then show ?thesis by auto
qed

section \<open>Between two steps\<close>

text \<open>Before the first read from the upstream nothing of a response is there.\<close>

definition idle :: "'e llhttp_engine \<Rightarrow> 'v FilterChain \<Rightarrow> ('e, 'v) HttpSession \<Rightarrow> bool" where
  "idle eng chain s \<longleftrightarrow> \<not> response_filtered s \<and> \<not> response_serializer_started s \<and> \<not> response_final_body_provided s \<and>
     response_gate_invar chain (body_filter_gate s) \<and> di_buffer (response_state (body_filter_gate s)) = [] \<and>
     response_of (io s) = None \<and> (\<forall>rp. response_parser s = Some rp \<longrightarrow> rp = ResponseParser_new eng)"

definition response_kept ::
  "'e llhttp_engine \<Rightarrow> 'v FilterChain \<Rightarrow> byte_list list \<Rightarrow> ('e, 'v) HttpSession \<Rightarrow> bool" where
  "response_kept eng chain ps s \<longleftrightarrow> local_end s \<or> ps = [] \<and> idle eng chain s \<or>
     receiving chain (turns s) (receive_response eng ps) [] s \<and> emptied s \<and> response_phase s \<and>
     (response_serializer_started s \<longrightarrow> rs_message_done (the (response_parser s)) \<longrightarrow> response_final_body_provided s)"

lemma response_kept_shared [simp]:
  "response_kept eng chain ps (s\<lparr>upstream_manager := um, buffer_pool := pool, metrics := m\<rparr>) = response_kept eng chain ps s"
  by (simp add: response_kept_def idle_def receiving_def turns_def emptied_def unread_response_def local_end_def
      response_phase_def)

lemma response_frame [simp]:
  "receiving chain n x d (s\<lparr>pending := p\<rparr>) = receiving chain n x d s"
  "receiving chain n x d (s\<lparr>metrics := m\<rparr>) = receiving chain n x d s"
  "emptied (s\<lparr>pending := p\<rparr>) = emptied s"
  "idle eng chain (s\<lparr>pending := p\<rparr>) = idle eng chain s"
  by (simp_all add: receiving_defs emptied_def unread_response_def idle_def)

lemma receiving_reads:
  "upstream_response_read_any s \<Longrightarrow>
     receiving chain n x d (s\<lparr>upstream_response_read_any := True, read_buf := b\<rparr>) = receiving chain n x d s"
  by (simp add: receiving_defs)

lemma idle_frame:
  assumes "idle eng chain s" "same_response eng s s'"
  shows "local_end s' \<or> idle eng chain s'"
  using assms by (auto simp: same_response_def response_side_def idle_def response_gate_invar_def)

lemma renewed_idle: "renewed eng s s' \<Longrightarrow> idle eng chain s'"
  by (auto simp: renewed_def response_side_def idle_def response_gate_invar_def DataIterationState_init_def di_invar_def)

text \<open>Writing keeps a response that is under way.\<close>

lemma receiving_frame:
  assumes "receiving chain n x [] s" "quiet eng s s'" "response_parser s' = response_parser s" "\<not> local_end s'"
  shows "receiving chain n x [] s'"
  using assms
  by (cases "response_serializer_started s")
    (simp_all add: quiet_def response_side_def receiving_def response_gate_invar_def local_end_def)

lemma process_upstream_receiving:
  assumes "process_upstream_chunk eng chain raw s = Some s'" "receiving chain n x [] s" "emptied s" "pending s = []"
    and "inspecting on_response_data chain" "request_serializer_started s"
  shows "local_end s' \<or> renewed eng s s' \<or>
     receiving chain n (feed_all (response_feed eng) raw x) [] s' \<and> emptied s' \<and> response_phase s' \<and>
     (response_serializer_started s' \<longrightarrow> rs_message_done (the (response_parser s')) \<longrightarrow> response_final_body_provided s')"
proof -
  let ?X = "feed_all (response_feed eng) raw x"
  obtain b s1 where l: "response_loop eng chain raw s = Some (b, s1)"
    using assms(1) by (auto simp: process_upstream_chunk_def split: bind_splits)
  note k = response_loop_receiving[OF l assms(2,3,5)]
  have l0: "\<not> local_end s" using assms(2) by (simp add: receiving_def local_end_def)
  have p1: "pending s1 = []" if "\<not> b"
    using response_loop_frame[OF l l0 assms(6)] assms(4) that by (simp add: request_untouched_def)
  consider "b" | "\<not> b" "\<not> response_serializer_started s1" | "\<not> b" "response_serializer_started s1" by blast
  then show ?thesis
  proof cases
    case 1
    with k l assms(1) show ?thesis by (auto simp: process_upstream_chunk_def local_end_def)
  next
    case 2
    with l assms(1) have "read_response_chunk s1 = Some s'" by (simp add: process_upstream_chunk_def)
    with 2 k p1 show ?thesis
      by (auto simp: read_response_chunk_def receiving_defs emptied_def unread_response_def response_phase_def split: bind_splits)
  next
    case 3
    with upstream_tail[OF assms(1)] l obtain rp t where t: "pull_and_write_response_to_downstream eng t = Some s'"
      "response_end_provided rp s1 t" by auto
    with k 3 p1 have r: "receiving chain n ?X [] t" "emptied t" "pending t = []"
      "response_final_body_provided t \<longleftrightarrow> rs_message_done (the (response_parser t))" "response_serializer_started t"
      by (auto simp: response_end_provided_def receiving_defs emptied_def unread_response_def one_last_snoc split: if_splits)
    then have lt: "\<not> local_end t" by (simp add: receiving_def local_end_def)
    have "request_side t = request_side s1"
      using t(2) by (auto simp: response_end_provided_def side_defs split: if_splits)
    then have side: "request_side t = request_side s"
      using response_loop_frame[OF l l0 assms(6)] 3(1) by (simp add: request_untouched_def)
    show ?thesis
    proof (cases "local_end s' \<or> renewed eng t s'")
      case True
      with renewed_cong[OF side] show ?thesis by blast
    next
      case False
      with pull_response_frame[OF t(1) lt] r(3) have q: "quiet eng t s'" "response_parser s' = response_parser t" "response_phase s'"
        by auto
      with False have "response_side s' = response_side t" by (simp add: quiet_def)
      with r q receiving_frame[OF r(1) q(1,2)] False show ?thesis
        by (simp add: response_side_def emptied_def unread_response_def)
    qed
  qed
qed

section \<open>Every step keeps the response\<close>

lemma renewed_turns: "renewed eng s s' \<Longrightarrow> turns s' \<noteq> turns s"
  by (simp add: renewed_def request_side_def)

lemma quiet_turns: "quiet eng s s' \<Longrightarrow> \<not> local_end s' \<Longrightarrow> turns s' = turns s"
  by (simp add: quiet_def request_side_def)

lemma idle_step:
  assumes "complete eng chain c r s = Some s'" "awaits c s" "\<not> local_end s" "idle eng chain s" "pending s = []"
    and "inspecting on_response_data chain"
  shows "response_kept eng chain (if turns s' = turns s then upstream_read c r else []) s'"
proof (cases "\<exists>err b. c = AwaitResponseRead \<and> r = ReadDone err b \<and> Error_ok err")
  case True
  then obtain err b where c: "c = AwaitResponseRead" "r = ReadDone err b" "Error_ok err" by blast
  let ?t = "\<lambda>rb. s\<lparr>upstream_response_read_any := True, read_buf := Some rb\<rparr>"
  from c obtain rb where p: "process_upstream_chunk eng chain b (?t rb) = Some s'"
    using assms(1) by (auto simp: on_response_read_def split: bind_splits)
  from c assms(2) have "response_parser s \<noteq> None" "request_serializer_started s" by (auto simp: phase_defs)
  with assms(3,4) have t: "receiving chain (turns s) (receive_response eng []) [] (?t rb)" "emptied (?t rb)"
    "request_serializer_started (?t rb)"
    by (auto simp: idle_def receiving_defs emptied_def local_end_def ResponseParser_new_def)
  have "renewed eng (?t rb) s' = renewed eng s s'" by (rule renewed_cong) (simp add: side_defs)
  with process_upstream_receiving[OF p t(1,2) _ assms(6) t(3)] assms(5) c receive_simps(4)[of eng "[]" b]
  show ?thesis
    by (auto simp: response_kept_def receiving_def dest: renewed_idle renewed_turns)
next
  case False
  then have none: "upstream_read c r = []" by (cases "(c, r)" rule: upstream_read.cases) auto
  have "same_response eng s s' \<or> renewed eng s s'"
  proof (cases "client_read c r = []")
    case True
    from complete_quiet[OF assms(1-3) True none] show ?thesis using quiet_same_response by blast
  next
    case client: False
    then obtain err b where "c = AwaitRequestRead" "r = ReadDone err b" "Error_ok err"
      by (cases "(c, r)" rule: client_read.cases) (auto split: if_splits)
    with assms(1) obtain rb where "process_downstream_chunk eng chain b (s\<lparr>read_buf := Some rb\<rparr>) = Some s'"
      by (auto simp: on_request_read_def split: bind_splits)
    from process_downstream_response[OF this] assms(3) show ?thesis
      by (auto simp: same_response_def side_defs)
  qed
  then have "local_end s' \<or> idle eng chain s'" using idle_frame[OF assms(4)] renewed_idle by blast
  with none show ?thesis by (auto simp: response_kept_def)
qed

lemma receiving_step:
  assumes "complete eng chain c r s = Some s'" "awaits c s" "pending s = []" "c = AwaitResponseRead \<or> c = AwaitResponseWrite"
    and kept: "receiving chain (turns s) (receive_response eng ps) [] s" "emptied s"
      "response_serializer_started s \<longrightarrow> rs_message_done (the (response_parser s)) \<longrightarrow> response_final_body_provided s"
    and "inspecting on_response_data chain"
  shows "response_kept eng chain (if turns s' = turns s then ps @ upstream_read c r else []) s'"
proof -
  have l: "\<not> local_end s" "upstream_response_read_any s" using kept(1) by (simp_all add: receiving_def local_end_def)
  show ?thesis
  proof (cases "Error_ok (completion_error r)")
    case False
    with assms(1,4) l(2) have "local_end s'"
      by (cases "(c, r)" rule: upstream_read.cases; cases r)
        (auto simp: on_response_read_def on_response_written_def)
    then show ?thesis by (simp add: response_kept_def)
  next
    case ok: True
    from assms(4) show ?thesis
    proof
      assume c: "c = AwaitResponseRead"
      with assms(1) ok obtain err b where r: "r = ReadDone err b" "Error_ok err" by (cases r) auto
      let ?t = "\<lambda>rb. s\<lparr>upstream_response_read_any := True, read_buf := Some rb\<rparr>"
      from c r obtain rb where p: "process_upstream_chunk eng chain b (?t rb) = Some s'"
        using assms(1) by (auto simp: on_response_read_def split: bind_splits)
      have t: "receiving chain (turns s) (receive_response eng ps) [] (?t rb)" "emptied (?t rb)"
        using receiving_reads[OF l(2)] kept(1,2) by (simp_all add: emptied_def unread_response_def)
      have "renewed eng (?t rb) s' = renewed eng s s'" by (rule renewed_cong) (simp add: side_defs)
      with process_upstream_receiving[OF p t _ assms(8)] assms(2,3) c r show ?thesis
        by (auto simp: response_kept_def receiving_def phase_defs dest: renewed_idle renewed_turns)
    next
      assume c: "c = AwaitResponseWrite"
      with assms(1) ok obtain m where p: "pull_and_write_response_to_downstream eng (s\<lparr>metrics := m\<rparr>) = Some s'"
        by (cases r) (auto simp: on_response_written_def)
      have t: "\<not> local_end (s\<lparr>metrics := m\<rparr>)" "receiving chain (turns s) (receive_response eng ps) [] (s\<lparr>metrics := m\<rparr>)"
        using l(1) kept(1) by (simp_all add: local_end_def)
      have "renewed eng (s\<lparr>metrics := m\<rparr>) s' = renewed eng s s'" by (rule renewed_cong) (simp add: side_defs)
      with pull_response_frame[OF p t(1)] assms(3) consider "local_end s'" | "renewed eng s s'"
        | "\<not> local_end s'" "quiet eng (s\<lparr>metrics := m\<rparr>) s'" "response_parser s' = response_parser (s\<lparr>metrics := m\<rparr>)" "response_phase s'"
        by auto
      then show ?thesis
      proof cases
        case 3
        note k = receiving_frame[OF t(2) 3(2,3,1)]
        have side: "response_side s' = response_side s" using 3(1,2) by (auto simp: quiet_def side_defs)
        then have "turns s' = turns s" "response_serializer_started s' = response_serializer_started s"
          "response_final_body_provided s' = response_final_body_provided s" by (simp_all add: response_side_def)
        with k 3(3,4) kept(2,3) c show ?thesis by (simp add: response_kept_def emptied_def unread_response_def)
      qed (auto simp: response_kept_def dest: renewed_idle renewed_turns)
    qed
  qed
qed

lemma exchange_response_kept:
  assumes "exchange eng chain (HttpSession_new hw um pool m) qs ps s" "um_invar um" "pool_invar pool"
    and "inspecting on_response_data chain"
  shows "response_kept eng chain ps s"
proof -
  have step: "response_kept eng chain (if turns s' = turns s then ps @ upstream_read c r else []) s'"
    if "exchange eng chain (HttpSession_new hw um pool m) qs ps s" "pending s = xs @ c # ys"
      "complete eng chain c r (s\<lparr>pending := xs @ ys\<rparr>) = Some s'" "response_kept eng chain ps s"
    for qs ps s xs c ys r s'
  proof -
    let ?t = "s\<lparr>pending := []\<rparr>"
    note c = invar_pending[OF reachable_invar[OF exchange_reachable[OF that(1)] assms(2,3)] that(2)]
    then have t: "complete eng chain c r ?t = Some s'" "awaits c ?t" "\<not> closing ?t" "pending s = [c]" "pending ?t = []"
      using that(2,3) by simp_all
    show ?thesis
    proof (cases "direct_response_mode s")
      case True
      with direct_stays[OF t(1,2)] show ?thesis by (simp add: response_kept_def)
    next
      case False
      with t(3) have l: "\<not> local_end ?t" "\<not> local_end s" by (simp_all add: local_end_def)
      from that(4) l(2) consider "ps = []" "idle eng chain ?t"
        | "receiving chain (turns ?t) (receive_response eng ps) [] ?t" "emptied ?t" "response_phase s"
          "response_serializer_started ?t \<longrightarrow> rs_message_done (the (response_parser ?t)) \<longrightarrow> response_final_body_provided ?t"
        by (auto simp: response_kept_def)
      then show ?thesis
      proof cases
        case 1
        with idle_step[OF t(1,2) l(1) 1(2) t(5) assms(4)] show ?thesis by (cases "turns s' = turns s") simp_all
      next
        case 2
        with t(4) have "c = AwaitResponseRead \<or> c = AwaitResponseWrite" by (simp add: response_phase_def)
        from receiving_step[OF t(1,2,5) this 2(1,2,4) assms(4)] show ?thesis by (cases "turns s' = turns s") simp_all
      qed
    qed
  qed
  from assms(1) show ?thesis
  proof (induction rule: exchange.induct)
    case (begins s)
    then show ?case
      by (auto simp: session_start_def HttpSession_new_def BufferPool_acquire_def read_request_chunk_def response_kept_def
          idle_def gate_invar_reset BodyFilterGate_new_def DataIterationState_init_def response_gate_invar_def
          di_invar_def split: prod.splits bind_splits)
  next
    case (goes_on qs ps s xs c ys r s')
    from step[OF goes_on.hyps(1,2,4) goes_on.IH] goes_on.hyps(5) show ?case by simp
  next
    case (next_request qs ps s xs c ys r s')
    from step[OF next_request.hyps(1,2,4) next_request.IH] next_request.hyps(5) show ?case by simp
  qed simp
qed

end
