(* ===== verification/Forwarding_Props.thy ===== *)
theory Forwarding_Props
  imports Request_Forwarding Response_Forwarding
begin

text \<open>
  What the peers of a session receive is what the other side sent. The writes of the log are judged
  by the automaton of \<open>Relay_Spec\<close> (\<open>request\<close>, \<open>hop_sent\<close>, \<open>response\<close>, \<open>down_sent\<close>), what was received by
  the parsers alone (\<open>receive_request\<close>, \<open>receive_response\<close>).
\<close>

section \<open>Bodies on the wire\<close>

text \<open>The bytes \<open>w\<close> carry the body: as they are, or in chunks that the reference decoder reads back. The
  chunks of a body that is not yet complete decode once the final chunk follows.\<close>

definition encodes :: "bool \<Rightarrow> bool \<Rightarrow> byte_list \<Rightarrow> byte_list \<Rightarrow> bool" where
  "encodes ch fin w body \<longleftrightarrow>
     (if ch then dechunk (w @ (if fin then [] else frame True [] True)) = Some (body, []) else w = body)"

lemma encodes_pieces:
  assumes "one_last ps"
  shows "encodes ch (gives_last ps) (body_wire ch ps) (provided ps)"
proof (cases "ch \<and> \<not> gives_last ps")
  case True
  with one_last_snoc[OF assms, of "Provide [] True"] dechunk_body_wire[of "ps @ [Provide [] True]" "[]"]
  show ?thesis by (simp add: encodes_def)
next
  case False
  with dechunk_body_wire[OF assms, of "[]"] show ?thesis by (auto simp: encodes_def plain_body_wire)
qed

text \<open>What was written is a prefix of the message.\<close>

definition in_step :: "relay \<Rightarrow> bool" where
  "in_step r \<longleftrightarrow>
     (case request r of None \<Rightarrow> hop_sent r = [] | Some q \<Rightarrow> prefix (hop_sent r) (wire q)) \<and>
     (case response r of None \<Rightarrow> down_sent r = [] | Some p \<Rightarrow> prefix (down_sent r) (wire p))"

lemma relay_run_in_step: "relay_run es relay_init = Some r \<Longrightarrow> in_step r"
proof (induction es arbitrary: r rule: rev_induct)
  case (snoc e es)
  then obtain r1 where "in_step r1" "relay_step e r1 = Some r"
    by (auto split: bind_splits if_splits)
  then show ?case
    by (cases e) (auto simp: in_step_def relay_init_def extend_def prefix_append split: option.splits if_splits)
qed (simp add: in_step_def relay_init_def)

section \<open>Both directions\<close>

lemma request_on_the_wire:
  assumes "exchange eng chain (HttpSession_new hw um pool m) qs ps s" "um_invar um" "pool_invar pool"
    and "inspecting on_request_data chain"
    and "request_serializer_started s" "\<not> closing s" "\<not> direct_response_mode s"
  shows "\<exists>h rp h1 r q w body.
     receive_request eng qs = (Some h, rp) \<and> forwarded_request chain h h1 \<and>
     relay_run (io s) relay_init = Some r \<and> request r = Some q \<and> prefix (hop_sent r) (wire q) \<and>
     wire q = request_head_bytes h1 @ w \<and>
     encodes (has_chunked_encoding (req_headers h1)) (ended q) w body \<and>
     rq_scratch rp = body @ di_buffer (request_state (body_filter_gate s)) \<and>
     (ended q \<longleftrightarrow> rq_message_done rp) \<and>
     (passing on_request_data chain \<longrightarrow> di_buffer (request_state (body_filter_gate s)) = [])"
proof -
  obtain r where r: "relay_run (io s) relay_init = Some r"
    using reachable_linked[OF exchange_reachable[OF assms(1)] assms(2,3)] by (auto simp: linked_def)
  let ?x = "receive_request eng qs"
  have k: "forwarding chain (turns s) ?x [] s" "unread_request s = 0"
    "rq_message_done (the (request_parser s)) \<Longrightarrow> request_final_body_provided s"
    using exchange_request_kept[OF assms(1-4)] assms(5-7) by (auto simp: request_kept_def local_end_def drained_def)
  then obtain rp ps' where x: "request_parser s = Some rp" "rq_scratch rp = []"
    "snd ?x = rq_undrained (provided ps' @ di_buffer (request_state (body_filter_gate s))) rp"
    "request_final_body_provided s \<longleftrightarrow> gives_last ps'" "one_last ps'" "gives_last ps' \<longrightarrow> rq_message_done rp"
    and "\<exists>h h1. fst ?x = Some h \<and> request_of (io s) = Some (h1, ps') \<and> forwarded_request chain h h1"
    using assms(5) by (auto simp: forwarding_def unread_request_def)
  then obtain h h1 where y: "fst ?x = Some h" "request_of (io s) = Some (h1, ps')"
    "forwarded_request chain h h1" by blast
  from x k(3) have last: "gives_last ps' \<longleftrightarrow> rq_message_done rp" by auto
  from relay_request[OF r] y(2) obtain q where q: "request r = Some q" "framing q = has_chunked_encoding (req_headers h1)"
    "ended q = gives_last ps'" "wire q = request_head_bytes h1 @ body_wire (framing q) ps'" by auto
  have "prefix (hop_sent r) (wire q)" using relay_run_in_step[OF r] q(1) by (simp add: in_step_def)
  with r q y x(2,3) last encodes_pieces[OF x(5), of "framing q"] k(1) show ?thesis
    by (intro exI[of _ h] exI[of _ "snd ?x"] exI[of _ h1] exI[of _ r] exI[of _ q]
        exI[of _ "body_wire (framing q) ps'"] exI[of _ "provided ps'"])
      (simp add: prod_eq_iff forwarding_def)
qed

lemma response_on_the_wire:
  assumes "exchange eng chain (HttpSession_new hw um pool m) qs ps s" "um_invar um" "pool_invar pool"
    and "inspecting on_response_data chain"
    and "response_serializer_started s" "\<not> closing s" "\<not> direct_response_mode s"
  shows "\<exists>h rp h1 r p w body.
     receive_response eng ps = (Some h, rp) \<and> forwarded_response chain (downstream_keep_alive_effective s) h h1 \<and>
     relay_run (io s) relay_init = Some r \<and> response r = Some p \<and> prefix (down_sent r) (wire p) \<and>
     wire p = response_head_bytes h1 @ w \<and>
     encodes (has_chunked_encoding (resp_headers h1)) (ended p) w body \<and>
     rs_scratch rp = body @ di_buffer (response_state (body_filter_gate s)) \<and>
     (ended p \<longleftrightarrow> rs_message_done rp) \<and>
     (passing on_response_data chain \<longrightarrow> di_buffer (response_state (body_filter_gate s)) = [])"
proof -
  obtain r where r: "relay_run (io s) relay_init = Some r"
    using reachable_linked[OF exchange_reachable[OF assms(1)] assms(2,3)] by (auto simp: linked_def)
  let ?x = "receive_response eng ps"
  have k: "receiving chain (turns s) ?x [] s" "unread_response s = 0"
    "rs_message_done (the (response_parser s)) \<Longrightarrow> response_final_body_provided s"
    using exchange_response_kept[OF assms(1-4)] assms(5-7) by (auto simp: response_kept_def local_end_def emptied_def idle_def)
  then obtain rp ps' where x: "response_parser s = Some rp" "rs_scratch rp = []"
    "snd ?x = rs_undrained (provided ps' @ di_buffer (response_state (body_filter_gate s))) rp"
    "response_final_body_provided s \<longleftrightarrow> gives_last ps'" "one_last ps'" "gives_last ps' \<longrightarrow> rs_message_done rp"
    and "\<exists>h h1. fst ?x = Some h \<and> response_of (io s) = Some (h1, ps') \<and> forwarded_response chain (downstream_keep_alive_effective s) h h1"
    using assms(5) by (auto simp: receiving_def unread_response_def)
  then obtain h h1 where y: "fst ?x = Some h" "response_of (io s) = Some (h1, ps')"
    "forwarded_response chain (downstream_keep_alive_effective s) h h1" by blast
  from x k(3) have last: "gives_last ps' \<longleftrightarrow> rs_message_done rp" by auto
  from relay_response[OF r] y(2) obtain p where p: "response r = Some p" "framing p = has_chunked_encoding (resp_headers h1)"
    "ended p = gives_last ps'" "wire p = response_head_bytes h1 @ body_wire (framing p) ps'" by auto
  have "prefix (down_sent r) (wire p)" using relay_run_in_step[OF r] p(1) by (simp add: in_step_def)
  with r p y x(2,3) last encodes_pieces[OF x(5), of "framing p"] k(1) show ?thesis
    by (intro exI[of _ h] exI[of _ "snd ?x"] exI[of _ h1] exI[of _ r] exI[of _ p]
        exI[of _ "body_wire (framing p) ps'"] exI[of _ "provided ps'"])
      (simp add: prod_eq_iff receiving_def)
qed

text \<open>C5. What the upstream is sent is the client's request. In every reachable state in which the
  request head has been filtered, with filters that only look at bodies, whatever the sizes of the
  client's reads and of the buffers: the parser alone, given the same reads, has a complete head;
  the upstream has been sent a prefix of that head, as the filters leave it, followed by the body
  bytes of these reads, correctly framed and in order, except for those a filter still holds back;
  and the end of the body is announced exactly when the client's message has ended.\<close>

theorem request_forwarded_faithfully:
  assumes "exchange eng chain (HttpSession_new hw um pool m) qs ps s" "um_invar um" "pool_invar pool"
    and "inspecting on_request_data chain"
    and "request_serializer_started s" "\<not> closing s" "\<not> direct_response_mode s"
  shows "\<exists>h rp h1 r q w body.
     receive_request eng qs = (Some h, rp) \<and> forwarded_request chain h h1 \<and>
     relay_run (io s) relay_init = Some r \<and> request r = Some q \<and> prefix (hop_sent r) (wire q) \<and>
     wire q = request_head_bytes h1 @ w \<and>
     encodes (has_chunked_encoding (req_headers h1)) (ended q) w body \<and>
     rq_scratch rp = body @ di_buffer (request_state (body_filter_gate s)) \<and>
     (ended q \<longleftrightarrow> rq_message_done rp)"
  using request_on_the_wire[OF assms] by blast

text \<open>C6. What the client is sent is the upstream's response. In every reachable state in which the
  response head has been filtered, with filters that only look at bodies: the client has been sent a
  prefix of the head the parser alone has read from the upstream, as the filters leave it, with the
  Connection header that was decided on, followed by the body bytes of the upstream's reads,
  correctly framed and in order, except for those a filter still holds back; the end of the body is
  announced exactly when the upstream's message has ended.\<close>

theorem response_forwarded_faithfully:
  assumes "exchange eng chain (HttpSession_new hw um pool m) qs ps s" "um_invar um" "pool_invar pool"
    and "inspecting on_response_data chain"
    and "response_serializer_started s" "\<not> closing s" "\<not> direct_response_mode s"
  shows "\<exists>h rp h1 r p w body.
     receive_response eng ps = (Some h, rp) \<and> forwarded_response chain (downstream_keep_alive_effective s) h h1 \<and>
     relay_run (io s) relay_init = Some r \<and> response r = Some p \<and> prefix (down_sent r) (wire p) \<and>
     wire p = response_head_bytes h1 @ w \<and>
     encodes (has_chunked_encoding (resp_headers h1)) (ended p) w body \<and>
     rs_scratch rp = body @ di_buffer (response_state (body_filter_gate s)) \<and>
     (ended p \<longleftrightarrow> rs_message_done rp)"
  using response_on_the_wire[OF assms] by blast

section \<open>The gateway's own filter chain\<close>

text \<open>The chain of the gateway adds a Via header and leaves bodies alone.\<close>

definition request_with_via :: "RequestHead \<Rightarrow> RequestHead" where
  "request_with_via h = h\<lparr>req_headers := set_header (req_headers h @ [via_header]) ''Connection'' ''keep-alive''\<rparr>"

definition response_with_via :: "bool \<Rightarrow> ResponseHead \<Rightarrow> ResponseHead" where
  "response_with_via ka h = h\<lparr>resp_headers := set_header (resp_headers h @ [via_header]) ''Connection''
     (if ka then ''keep-alive'' else ''close'')\<rparr>"

lemma via_is_no_framing:
  "\<not> header_name_iequals ''Via'' ''Content-Length''" "\<not> header_name_iequals ''Via'' ''Transfer-Encoding''"
  "\<not> header_name_iequals ''Connection'' ''Transfer-Encoding''"
  by (simp_all add: header_name_iequals_def)

lemma default_chain:
  "inspecting on_request_data build_default_filter_chain" "passing on_request_data build_default_filter_chain"
  "inspecting on_response_data build_default_filter_chain" "passing on_response_data build_default_filter_chain"
  "forwarded_request build_default_filter_chain h h1 \<Longrightarrow> h1 = request_with_via h"
  "forwarded_response build_default_filter_chain ka h' h1' \<Longrightarrow> h1' = response_with_via ka h' \<and>
     (ka \<longrightarrow> has_header (resp_headers h') ''Content-Length'' \<or> has_chunked_encoding (resp_headers h'))"
  by (auto simp: inspecting_def passing_def build_default_filter_chain_def add_filter_def ViaHeaderFilter_def
      IFilter_default_def forwarded_request_def forwarded_response_def apply_response_def request_with_via_def
      response_with_via_def via_header_def has_header_ex has_chunked_encoding_ex iequals_eq via_is_no_framing)

lemma via_framing [simp]:
  "has_chunked_encoding (req_headers (request_with_via h)) = has_chunked_encoding (req_headers h)"
  "has_chunked_encoding (resp_headers (response_with_via ka h')) = has_chunked_encoding (resp_headers h')"
proof -
  have "has_chunked_encoding (hs @ [via_header]) = has_chunked_encoding hs" for hs
    by (auto simp: has_chunked_encoding_ex via_header_def iequals_eq via_is_no_framing)
  then show "has_chunked_encoding (req_headers (request_with_via h)) = has_chunked_encoding (req_headers h)"
    "has_chunked_encoding (resp_headers (response_with_via ka h')) = has_chunked_encoding (resp_headers h')"
    by (simp_all add: request_with_via_def response_with_via_def has_chunked_encoding_set_header iequals_eq
        via_is_no_framing)
qed

lemma response_after_request:
  assumes "session_reachable eng chain (HttpSession_new hw um pool m) s" "um_invar um" "pool_invar pool"
    and "response_serializer_started s" "\<not> closing s" "\<not> direct_response_mode s"
    and "relay_run (io s) relay_init = Some r"
  shows "handed_over r" "request_serializer_started s"
proof -
  obtain c where c: "pending s = [c]" "awaits c s"
    using reachable_invar[OF assms(1-3)] assms(5) by (auto simp: hs_invar_def)
  with reachable_linked[OF assms(1-3)] assms(7) have "link c r s" by (auto simp: linked_def)
  with assms(4,6) c(2) have "handed_over r \<and> request_serializer_started s"
    by (cases c) (auto simp: link_defs phase_defs)
  then show "handed_over r" "request_serializer_started s" by simp_all
qed

text \<open>C4. With the gateway's own filter chain an exchange is transparent. Once the response has begun,
  in every reachable state: the client's message has ended, and the upstream has been sent exactly the
  client's head, with the Via header and the gateway's Connection header, and exactly the client's
  body. The client has been sent a prefix of the upstream's head, with the Via header and the
  Connection header that was decided on, and of the body received from the upstream so far, complete
  exactly if the upstream's message has ended. Keep-alive is only announced for a framed response.\<close>

theorem exchange_transparent:
  assumes "exchange eng build_default_filter_chain (HttpSession_new hw um pool m) qs ps s" "um_invar um" "pool_invar pool"
    and "response_serializer_started s" "\<not> closing s" "\<not> direct_response_mode s"
  shows "\<exists>h rp h' rp' r p w w'.
     receive_request eng qs = (Some h, rp) \<and> rq_message_done rp \<and>
     receive_response eng ps = (Some h', rp') \<and>
     relay_run (io s) relay_init = Some r \<and> response r = Some p \<and>
     hop_sent r = request_head_bytes (request_with_via h) @ w \<and>
     encodes (has_chunked_encoding (req_headers h)) True w (rq_scratch rp) \<and>
     prefix (down_sent r) (wire p) \<and>
     wire p = response_head_bytes (response_with_via (downstream_keep_alive_effective s) h') @ w' \<and>
     encodes (has_chunked_encoding (resp_headers h')) (rs_message_done rp') w' (rs_scratch rp') \<and>
     (ended p \<longleftrightarrow> rs_message_done rp') \<and>
     (downstream_keep_alive_effective s \<longrightarrow>
        has_header (resp_headers h') ''Content-Length'' \<or> has_chunked_encoding (resp_headers h'))"
proof -
  note reach = exchange_reachable[OF assms(1)]
  obtain h' rp' r p w' where p: "receive_response eng ps = (Some h', rp')"
    "relay_run (io s) relay_init = Some r" "response r = Some p" "prefix (down_sent r) (wire p)"
    "wire p = response_head_bytes (response_with_via (downstream_keep_alive_effective s) h') @ w'"
    "encodes (has_chunked_encoding (resp_headers h')) (ended p) w' (rs_scratch rp')" "ended p \<longleftrightarrow> rs_message_done rp'"
    "downstream_keep_alive_effective s \<longrightarrow> has_header (resp_headers h') ''Content-Length'' \<or> has_chunked_encoding (resp_headers h')"
    using response_on_the_wire[OF assms(1-3) default_chain(3) assms(4-6)] default_chain(4)
    by (auto dest!: default_chain(6))
  note over = response_after_request[OF reach assms(2-6) p(2)]
  from request_on_the_wire[OF assms(1-3) default_chain(1) over(2) assms(5,6)] default_chain(2) p(2)
  obtain h rp q w where q: "receive_request eng qs = (Some h, rp)" "request r = Some q"
    "wire q = request_head_bytes (request_with_via h) @ w"
    "encodes (has_chunked_encoding (req_headers h)) (ended q) w (rq_scratch rp)" "ended q \<longleftrightarrow> rq_message_done rp"
    by (auto dest!: default_chain(5))
  with over(1) have "ended q" "hop_sent r = wire q" by (simp_all add: handed_over_def)
  with p q show ?thesis
    by (intro exI[of _ h] exI[of _ rp] exI[of _ h'] exI[of _ rp'] exI[of _ r] exI[of _ p] exI[of _ w] exI[of _ w']) simp
qed

section \<open>A concrete exchange\<close>

lemma sample_turns: "turns sample_open = 0" "turns sample_connecting = 0" "turns sample_writing = 0"
  "request_serializer_started sample_connecting" "\<not> closing sample_connecting" "\<not> direct_response_mode sample_connecting"
proof -
  show o: "turns sample_open = 0" "turns sample_connecting = 0"
    "request_serializer_started sample_connecting" "\<not> closing sample_connecting" "\<not> direct_response_mode sample_connecting"
    by (simp_all add: sample_simps turns_def)
  have "quiet sample_engine (sample_connecting\<lparr>pending := []\<rparr>) sample_writing"
    by (rule on_acquire_quiet) (use sample_writing_step(1) o(4,5) in \<open>simp_all add: local_end_def\<close>)
  moreover have "\<not> local_end sample_writing"
    using invar_pending[OF reachable_invar[OF sample_reachable(3)[unfolded sample_session_def] sample_um pool_invar_new],
        of "[]" _ "[]"] sample_writing_step(2) by (auto simp: local_end_def phase_defs)
  ultimately show "turns sample_writing = 0" using o(2) by (auto simp: quiet_def request_side_def)
qed

lemma sample_exchange:
  "exchange sample_engine [ViaHeaderFilter] sample_session [''GET''] [] sample_connecting"
  "exchange sample_engine [ViaHeaderFilter] sample_session [''GET''] [] sample_writing"
proof -
  have "exchange sample_engine [ViaHeaderFilter] sample_session [] [] sample_open"
    by (rule exchange.begins) (rule sample_start)
  from exchange.goes_on[OF this, of "[]" AwaitRequestRead "[]" "ReadDone Error_none ''GET''" sample_connecting]
    sample_connecting_step(1) sample_turns
  show c: "exchange sample_engine [ViaHeaderFilter] sample_session [''GET''] [] sample_connecting"
    by (simp add: sample_open_eq sample_session_def HttpSession_new_def Error_ok_def Error_none_def)
  from exchange.goes_on[OF this, of "[]" AwaitAcquire "[]" "AcquireDone Error_none (Some 7)" sample_writing]
    sample_connecting_step(2) sample_writing_step(1) sample_turns
  show "exchange sample_engine [ViaHeaderFilter] sample_session [''GET''] [] sample_writing"
    by simp
qed

text \<open>Writing the request reads nothing.\<close>

lemma finish_request_exchange:
  assumes "exchange eng chain (HttpSession_new hw um pool m) qs ps s" "um_invar um" "pool_invar pool"
    and "finish_request_writes eng ws s = Some s'" "\<not> local_end s'"
  shows "exchange eng chain (HttpSession_new hw um pool m) qs ps s'"
  using assms(1,4)
proof (induction ws arbitrary: s)
  case (Cons w ws)
  note inv = reachable_invar[OF exchange_reachable[OF Cons.prems(1)] assms(2,3)]
  show ?case
  proof (cases "\<exists>n. pending s = [AwaitRequestWrite n]")
    case True
    then obtain n s1 where n: "pending s = [AwaitRequestWrite n]"
      "on_request_written eng n Error_none w (s\<lparr>pending := []\<rparr>) = Some s1" "finish_request_writes eng ws s1 = Some s'"
      using Cons.prems(2) by (auto split: bind_splits)
    let ?t = "count_upstream_bytes w (s\<lparr>pending := [], upstream_wrote_once := True\<rparr>)"
    have l: "\<not> local_end ?t" using invar_pending[OF inv, of "[]" _ "[]"] n(1)
      by (auto simp: local_end_def count_upstream_bytes_def phase_defs)
    from n(2) have "pull_and_write_request_to_upstream eng ?t = Some s1"
      by (simp add: on_request_written_def Error_ok_def Error_none_def count_upstream_bytes_def)
    from pull_request_quiet[OF this l] consider "local_end s1" | "turns s1 = turns s"
      by (auto simp: quiet_def side_defs count_upstream_bytes_def)
    then show ?thesis
    proof cases
      case 1
      have "hs_invar s1"
        using reachable_invar[OF request_written_reachable[OF exchange_reachable[OF Cons.prems(1)] n(1,2)] assms(2,3)] .
      with 1 n(3) assms(5) show ?thesis
        by (cases ws) (auto simp: hs_invar_def local_end_def phase_defs split: if_splits list.splits continuation.splits)
    next
      case 2
      with exchange.goes_on[OF Cons.prems(1), of "[]" "AwaitRequestWrite n" "[]" "WriteDone Error_none w" s1] n(1,2)
      have "exchange eng chain (HttpSession_new hw um pool m) qs ps s1" by simp
      from Cons.IH[OF this n(3)] show ?thesis .
    qed
  next
    case False
    with Cons.prems show ?thesis by (auto split: list.splits continuation.splits)
  qed
qed simp

definition sample_answered :: "unit ResponseParser" where
  "sample_answered = fold rs_callback sample_events (ResponseParser_new sample_engine)"

lemma sample_answer_feed:
  "rs_feed sample_engine ''H'' (ResponseParser_new sample_engine) = (1, sample_answered)"
  "rs_header_done sample_answered" "rs_message_done sample_answered" "rs_scratch sample_answered = []"
  by (simp_all add: sample_answered_def sample_events_def rs_feed_def llhttp_execute_def sample_engine_def
      scripted_engine_def ResponseParser_new_def llhttp_init_def rs_callback_defs)

lemma sample_answer:
  assumes "response_parser t = Some (ResponseParser_new sample_engine)" "\<not> response_filtered t"
    and "\<not> response_final_body_provided t" "response_serializer t = Some ser" "write_buf t = Some wb" "wb \<noteq> []"
    and "\<not> direct_response_mode t" "\<not> closing t"
  shows "\<exists>s'. process_upstream_chunk sample_engine [ViaHeaderFilter] ''H'' t = Some s' \<and>
     response_serializer_started s' \<and> \<not> closing s' \<and> \<not> direct_response_mode s' \<and> turns s' = turns t"
proof -
  obtain h where h: "apply_response [ViaHeaderFilter] (rs_head sample_answered) (filter_ctx t) = (fh_continue, h, filter_ctx t)"
    by (simp add: apply_response_def ViaHeaderFilter_def IFilter_default_def)
  from assms(1-4,7) h obtain h1 ka where l: "response_loop sample_engine [ViaHeaderFilter] ''H'' t =
      Some (False, t\<lparr>response_parser := Some sample_answered, response_filtered := True, downstream_keep_alive_effective := ka,
        response_serializer := Some (ResponseSerializer_start h1 ser), response_serializer_started := True,
        io := io t @ [ResponseStarted False h1]\<rparr>)"
    by (simp add: response_loop.simps sample_answer_feed filter_response_head_def Let_def
        drain_response_body_into_serializer_def drain_response_loop.simps rs_read_body_def)
  let ?ser = "ResponseSerializer_provide_body [] True (ResponseSerializer_start h1 ser)"
  obtain out ser1 where p: "RequestSerializer_pull (length wb) ?ser = (out, ser1)" by fastforce
  have "ser_unsent ?ser \<noteq> []" "ser_invar ?ser"
    using ResponseSerializer_start_spec[of h1 ser] provide_unsent_invar[of "ResponseSerializer_start h1 ser" "[]" True]
    by (simp_all add: ResponseSerializer_provide_body_eq)
  with p pull_spec[of ?ser "length wb"] assms(6) have "out \<noteq> []" by auto
  with l p assms show ?thesis
    by (simp add: process_upstream_chunk_def sample_answer_feed pull_and_write_response_to_downstream_def
        ResponseSerializer_pull_eq Let_def turns_def)
qed

lemma untouched_response:
  assumes "idle eng chain s \<or> receiving chain n (None, ResponseParser_new eng) [] s" "responding s"
  shows "response_parser s = Some (ResponseParser_new eng)" "\<not> response_filtered s" "\<not> response_final_body_provided s"
proof -
  have p: "rp = ResponseParser_new eng" if "ResponseParser_new eng = rs_undrained b rp" for b and rp :: "'a ResponseParser"
    using that by (cases rp) (simp add: ResponseParser_new_def)
  have "response_parser s = Some (ResponseParser_new eng) \<and> \<not> response_filtered s \<and> \<not> response_final_body_provided s"
    using assms(1)
  proof
    assume "idle eng chain s"
    with assms(2) show ?thesis by (auto simp: idle_def responding_def)
  next
    assume r: "receiving chain n (None, ResponseParser_new eng) [] s"
    then have "\<not> response_serializer_started s" by (auto simp: receiving_def)
    with r obtain rp where "response_parser s = Some rp" "ResponseParser_new eng = rs_undrained
        (provided [] @ di_buffer (response_state (body_filter_gate s)) @ []) rp"
      "\<not> response_filtered s" "\<not> response_final_body_provided s"
      unfolding receiving_def by (simp only: snd_conv fst_conv if_False) fastforce
    with p show ?thesis by blast
  qed
  then show "response_parser s = Some (ResponseParser_new eng)" "\<not> response_filtered s" "\<not> response_final_body_provided s"
    by blast+
qed

lemma sample_served:
  "\<exists>s. exchange sample_engine [ViaHeaderFilter] sample_session [''GET''] [''H''] s \<and>
     response_serializer_started s \<and> \<not> closing s \<and> \<not> direct_response_mode s"
proof -
  let ?chain = "[ViaHeaderFilter] :: nat FilterChain"
  obtain ser wb where f: "upstream sample_writing = Some 7" "request_serializer sample_writing = Some ser"
    "is_last_provided ser" "write_buf sample_writing = Some wb" "wb \<noteq> []" using sample_writing_fields by blast
  have "length (ser_unsent ser) < length (replicate (Suc (length (ser_unsent ser))) (4::nat))"
    by (simp only: length_replicate lessI)
  from request_writes_finish[OF sample_reachable(3)[unfolded sample_session_def] sample_um pool_invar_new
      sample_writing_step(2) f this]
  obtain ws s where s: "finish_request_writes sample_engine ws sample_writing = Some s" "pending s = [AwaitResponseRead]"
    "session_reachable sample_engine ?chain (HttpSession_new 8 (UpstreamManager_new sample_config) (BufferPool_new 4 2)
       LocalMetrics_init) s" "\<exists>wb1. write_buf s = Some wb1 \<and> wb1 \<noteq> []" by blast
  note inv = reachable_invar[OF s(3) sample_um pool_invar_new]
  have l: "\<not> local_end s" "responding s"
    using invar_pending[OF inv, of "[]" _ "[]"] s(2) by (auto simp: local_end_def phase_defs)
  note e = finish_request_exchange[OF sample_exchange(2)[unfolded sample_session_def] sample_um pool_invar_new s(1) l(1)]
  note kept = exchange_response_kept[OF e sample_um pool_invar_new, unfolded receive_simps]
  have "inspecting on_response_data ?chain" by (simp add: inspecting_def ViaHeaderFilter_def IFilter_default_def)
  from kept[OF this] l(1) have "idle sample_engine ?chain s \<or>
      receiving ?chain (turns s) (None, ResponseParser_new sample_engine) [] s"
    unfolding response_kept_def receive_simps by blast
  then have r: "response_parser s = Some (ResponseParser_new sample_engine)" "\<not> response_filtered s"
    "\<not> response_final_body_provided s"
    using untouched_response[OF _ l(2)] by blast+
  obtain rb wb' where b: "read_buf s = Some rb" "write_buf s = Some wb'" "wb' \<noteq> []" "length rb = length wb'"
    using inv s(2,4) by (auto simp: hs_invar_def buffers_ok_def split: if_splits)
  then have "rb \<noteq> []" by auto
  obtain ser' where "response_serializer s = Some ser'" using l(2) by (auto simp: responding_def)
  with sample_answer[of "s\<lparr>pending := [], upstream_response_read_any := True, read_buf := Some (overwrite rb ''H'')\<rparr>"]
    r b(2,3) l(1) obtain s' where s': "process_upstream_chunk sample_engine ?chain ''H''
      (s\<lparr>pending := [], upstream_response_read_any := True, read_buf := Some (overwrite rb ''H'')\<rparr>) = Some s'"
    "response_serializer_started s'" "\<not> closing s'" "\<not> direct_response_mode s'" "turns s' = turns s"
    by (auto simp: local_end_def turns_def)
  have "exchange sample_engine ?chain sample_session ([''GET''] @ []) ([] @ [''H'']) s'"
    using exchange.goes_on[OF e, of "[]" AwaitResponseRead "[]" "ReadDone Error_none ''H''" s'] s' s(2) b(1) \<open>rb \<noteq> []\<close>
    by (simp add: on_response_read_def Error_ok_def Error_none_def sample_session_def Suc_le_eq)
  with s' show ?thesis by auto
qed

lemma via_chain: "[ViaHeaderFilter] = build_default_filter_chain"
  by (simp add: build_default_filter_chain_def add_filter_def)

theorem request_forwarded_faithfully_witness:
  "\<exists>h rp h1 r q w.
     receive_request sample_engine [''GET''] = (Some h, rp) \<and>
     forwarded_request (build_default_filter_chain :: nat FilterChain) h h1 \<and>
     relay_run (io sample_writing) relay_init = Some r \<and> request r = Some q \<and> prefix (hop_sent r) (wire q) \<and>
     wire q = request_head_bytes h1 @ w"
proof -
  note e = sample_exchange(2)[unfolded sample_session_def via_chain]
  have "on_hop (sample_writing\<lparr>pending := []\<rparr>)" "\<not> closing sample_writing"
    using invar_pending[OF reachable_invar[OF exchange_reachable[OF e] sample_um pool_invar_new], of "[]" _ "[]"]
      sample_writing_step(2) by auto
  then have "request_serializer_started sample_writing" "\<not> closing sample_writing" "\<not> direct_response_mode sample_writing"
    by (simp_all add: phase_defs)
  from request_forwarded_faithfully[OF e sample_um pool_invar_new default_chain(1) this] show ?thesis by blast
qed

theorem response_forwarded_faithfully_witness:
  "\<exists>s h rp h1 r p w.
     exchange sample_engine build_default_filter_chain sample_session [''GET''] [''H''] s \<and>
     receive_response sample_engine [''H''] = (Some h, rp) \<and>
     relay_run (io s) relay_init = Some r \<and> response r = Some p \<and> prefix (down_sent r) (wire p) \<and>
     wire p = response_head_bytes h1 @ w"
proof -
  obtain s where s: "exchange sample_engine build_default_filter_chain sample_session [''GET''] [''H''] s"
    "response_serializer_started s" "\<not> closing s" "\<not> direct_response_mode s"
    using sample_served unfolding via_chain by blast
  from response_forwarded_faithfully[OF s(1)[unfolded sample_session_def] sample_um pool_invar_new default_chain(3) s(2-4)] s(1)
  show ?thesis by blast
qed

theorem exchange_transparent_witness:
  "\<exists>s h rp h' rp' r p w w'.
     exchange sample_engine build_default_filter_chain sample_session [''GET''] [''H''] s \<and>
     receive_request sample_engine [''GET''] = (Some h, rp) \<and> rq_message_done rp \<and>
     receive_response sample_engine [''H''] = (Some h', rp') \<and>
     relay_run (io s) relay_init = Some r \<and> response r = Some p \<and>
     hop_sent r = request_head_bytes (request_with_via h) @ w \<and> prefix (down_sent r) (wire p) \<and>
     wire p = response_head_bytes (response_with_via (downstream_keep_alive_effective s) h') @ w'"
proof -
  obtain s where s: "exchange sample_engine build_default_filter_chain sample_session [''GET''] [''H''] s"
    "response_serializer_started s" "\<not> closing s" "\<not> direct_response_mode s"
    using sample_served unfolding via_chain by blast
  from exchange_transparent[OF s(1)[unfolded sample_session_def] sample_um pool_invar_new s(2-4)] s(1)
  show ?thesis by blast
qed

end
