(* ===== verification/Gateway_Shard.thy ===== *)
theory Gateway_Shard
  imports Http_Session_Proofs
begin

text \<open>
  \<open>GatewayShard\<close> (\<open>src/runtime/gateway_shard.{hpp,cpp}\<close>) and the socket hand-over of
  \<open>src/net/event_loop.hpp\<close>. A shard owns the resources its sessions share; a session's step runs
  on the shard's copy of them and writes them back. The event loop's task queue is the list of
  sockets posted by \<open>accept_from\<close> and not yet dispatched.
\<close>

section \<open>Sockets and their event loops\<close>

text \<open>A socket is its native handle and the event loop its completions run on. Only
  \<open>adopt_socket\<close> makes an \<open>AdoptedSocket\<close>.\<close>

record loop_socket =
  native_handle :: nat
  bound_loop :: nat

datatype AdoptedSocket = Adopted (adopted_socket: loop_socket)

definition do_adopt_socket :: "nat \<Rightarrow> loop_socket \<Rightarrow> loop_socket" where
  "do_adopt_socket loop foreign = \<lparr>native_handle = native_handle foreign, bound_loop = loop\<rparr>"

definition adopt_socket :: "nat \<Rightarrow> loop_socket \<Rightarrow> AdoptedSocket" where
  "adopt_socket loop foreign = Adopted (do_adopt_socket loop foreign)"

section \<open>The shard\<close>

record ('e, 'v) GatewayShard =
  shard_index :: nat
  shard_config :: Config
  shard_loop :: nat
  posted :: "loop_socket list"
  shard_pool :: BufferPool
  shard_metrics :: LocalMetrics
  shard_upstreams :: UpstreamManager
  shard_chain :: "'v FilterChain"
  shard_sessions :: "(loop_socket \<times> ('e, 'v) HttpSession) list"

definition GatewayShard_new :: "nat \<Rightarrow> nat \<Rightarrow> Config \<Rightarrow> ('e, 'v) GatewayShard" where
  "GatewayShard_new loop i cfg =
     \<lparr>shard_index = i, shard_config = cfg, shard_loop = loop, posted = [],
      shard_pool = BufferPool_new (cfg_buffer_size cfg) (buffer_pool_max_free cfg),
      shard_metrics = LocalMetrics_init, shard_upstreams = UpstreamManager_new cfg,
      shard_chain = build_default_filter_chain, shard_sessions = []\<rparr>"

text \<open>The part of the shard's thread function before \<open>run\<close>: the first resolution.\<close>

definition GatewayShard_start :: "resolver \<Rightarrow> ('e, 'v) GatewayShard \<Rightarrow> ('e, 'v) GatewayShard" where
  "GatewayShard_start resolve sh =
     sh\<lparr>shard_upstreams := fst (UpstreamManager_start resolve (shard_upstreams sh))\<rparr>"

definition accept_from :: "loop_socket \<Rightarrow> ('e, 'v) GatewayShard \<Rightarrow> ('e, 'v) GatewayShard" where
  "accept_from sock sh = sh\<lparr>posted := posted sh @ [sock]\<rparr>"

text \<open>A session refers to the shard's manager, pool and counters.\<close>

definition load :: "('e, 'v) GatewayShard \<Rightarrow> ('e, 'v) HttpSession \<Rightarrow> ('e, 'v) HttpSession" where
  "load sh s = s\<lparr>upstream_manager := shard_upstreams sh, buffer_pool := shard_pool sh,
                 metrics := shard_metrics sh\<rparr>"

definition store :: "('e, 'v) HttpSession \<Rightarrow> ('e, 'v) GatewayShard \<Rightarrow> ('e, 'v) GatewayShard" where
  "store s sh = sh\<lparr>shard_upstreams := upstream_manager s, shard_pool := buffer_pool s,
                   shard_metrics := metrics s\<rparr>"

definition dispatch_accept ::
  "'e llhttp_engine \<Rightarrow> AdoptedSocket \<Rightarrow> ('e, 'v) GatewayShard \<Rightarrow> ('e, 'v) GatewayShard option" where
  "dispatch_accept eng sock sh =
     do { s \<leftarrow> session_start eng
                 (HttpSession_new (body_buffer_high_watermark_bytes (shard_config sh))
                    (shard_upstreams sh) (shard_pool sh) (shard_metrics sh));
          Some (store s (sh\<lparr>shard_sessions := shard_sessions sh @ [(adopted_socket sock, s)]\<rparr>)) }"

text \<open>The event loop runs the task at the front of its queue.\<close>

definition run_posted :: "'e llhttp_engine \<Rightarrow> ('e, 'v) GatewayShard \<Rightarrow> ('e, 'v) GatewayShard option" where
  "run_posted eng sh =
     (case posted sh of
        [] \<Rightarrow> None
      | sock # rest \<Rightarrow>
          dispatch_accept eng (adopt_socket (shard_loop sh) sock) (sh\<lparr>posted := rest\<rparr>))"

text \<open>An operation of session \<open>j\<close> completes.\<close>

definition run_completion ::
  "'e llhttp_engine \<Rightarrow> nat \<Rightarrow> continuation \<Rightarrow> completion \<Rightarrow> ('e, 'v) GatewayShard
     \<Rightarrow> ('e, 'v) GatewayShard option" where
  "run_completion eng j c r sh =
     (let (sock, s0) = shard_sessions sh ! j; s = load sh s0 in
      do { s' \<leftarrow> complete eng (shard_chain sh) c r (s\<lparr>pending := remove1 c (pending s)\<rparr>);
           Some (store s' (sh\<lparr>shard_sessions := (shard_sessions sh)[j := (sock, s')]\<rparr>)) })"

definition run_dns_refresh ::
  "Error \<Rightarrow> resolver \<Rightarrow> ('e, 'v) GatewayShard \<Rightarrow> ('e, 'v) GatewayShard" where
  "run_dns_refresh err resolve sh =
     sh\<lparr>shard_upstreams := fst (on_refresh_timer err resolve (shard_upstreams sh))\<rparr>"

text \<open>What the shard's own thread runs, and what may happen to a shard: \<open>accept_from\<close> is the
  one operation called from outside.\<close>

inductive shard_runs ::
  "'e llhttp_engine \<Rightarrow> ('e, 'v) GatewayShard \<Rightarrow> ('e, 'v) GatewayShard \<Rightarrow> bool" for eng where
  task: "run_posted eng sh = Some sh' \<Longrightarrow> shard_runs eng sh sh'"
| io_done:
    "\<lbrakk>j < length (shard_sessions sh); c \<in> set (pending (snd (shard_sessions sh ! j)));
      fits (snd (shard_sessions sh ! j)) c r; run_completion eng j c r sh = Some sh'\<rbrakk> \<Longrightarrow>
     shard_runs eng sh sh'"
| dns: "shard_runs eng sh (run_dns_refresh err resolve sh)"

inductive shard_step ::
  "'e llhttp_engine \<Rightarrow> ('e, 'v) GatewayShard \<Rightarrow> ('e, 'v) GatewayShard \<Rightarrow> bool" for eng where
  own: "shard_runs eng sh sh' \<Longrightarrow> shard_step eng sh sh'"
| accepted: "shard_step eng sh (accept_from sock sh)"

inductive_cases shard_stepE: "shard_step eng sh sh'"

text \<open>\<open>n\<close> tasks of the queue in a row, and the runs of a shard that count them: \<open>n\<close> tasks ran, in any
  order with everything else.\<close>

fun run_tasks :: "'e llhttp_engine \<Rightarrow> nat \<Rightarrow> ('e, 'v) GatewayShard \<Rightarrow> ('e, 'v) GatewayShard option" where
  "run_tasks eng 0 sh = Some sh"
| "run_tasks eng (Suc n) sh = Option.bind (run_posted eng sh) (run_tasks eng n)"

inductive shard_run ::
  "'e llhttp_engine \<Rightarrow> nat \<Rightarrow> ('e, 'v) GatewayShard \<Rightarrow> ('e, 'v) GatewayShard \<Rightarrow> bool" for eng where
  none: "shard_run eng 0 sh sh"
| task: "\<lbrakk>shard_run eng n sh sh1; run_posted eng sh1 = Some sh2\<rbrakk> \<Longrightarrow> shard_run eng (Suc n) sh sh2"
| io_done:
    "\<lbrakk>shard_run eng n sh sh1; j < length (shard_sessions sh1);
      c \<in> set (pending (snd (shard_sessions sh1 ! j))); fits (snd (shard_sessions sh1 ! j)) c r;
      run_completion eng j c r sh1 = Some sh2\<rbrakk> \<Longrightarrow> shard_run eng n sh sh2"
| dns: "shard_run eng n sh sh1 \<Longrightarrow> shard_run eng n sh (run_dns_refresh err resolve sh1)"
| accepted: "shard_run eng n sh sh1 \<Longrightarrow> shard_run eng n sh (accept_from sock sh1)"

inductive shard_reachable ::
  "'e llhttp_engine \<Rightarrow> ('e, 'v) GatewayShard \<Rightarrow> ('e, 'v) GatewayShard \<Rightarrow> bool" for eng sh0 where
  base: "shard_reachable eng sh0 sh0"
| step: "shard_reachable eng sh0 sh \<Longrightarrow> shard_step eng sh sh' \<Longrightarrow> shard_reachable eng sh0 sh'"

section \<open>Invariant\<close>

definition is_open :: "loop_socket \<times> ('e, 'v) HttpSession \<Rightarrow> bool" where
  "is_open p \<longleftrightarrow> \<not> closing (snd p)"

definition open_sessions :: "('e, 'v) GatewayShard \<Rightarrow> nat" where
  "open_sessions sh = length (filter is_open (shard_sessions sh))"

definition shard_counts :: "('e, 'v) GatewayShard \<Rightarrow> bool" where
  "shard_counts sh \<longleftrightarrow>
     conns (shard_metrics sh) =
       (of_nat (length (shard_sessions sh)), of_nat (open_sessions sh),
        of_nat (length (shard_sessions sh)) - of_nat (open_sessions sh))"

definition shard_invar :: "('e, 'v) GatewayShard \<Rightarrow> bool" where
  "shard_invar sh \<longleftrightarrow> um_invar (shard_upstreams sh) \<and> pool_invar (shard_pool sh) \<and> shard_counts sh \<and>
     (\<forall>(sock, s) \<in> set (shard_sessions sh). hs_invar (load sh s) \<and> bound_loop sock = shard_loop sh)"

lemma load_store [simp]: "load (store s sh) s = s"
  by (simp add: load_def store_def)

lemma load_frame [simp]:
  "closing (load sh s) = closing s" "pending (load sh s) = pending s"
  "fits (load sh s) c r = fits s c r"
  "upstream_manager (load sh s) = shard_upstreams sh" "buffer_pool (load sh s) = shard_pool sh"
  "metrics (load sh s) = shard_metrics sh"
proof -
  show "fits (load sh s) c r = fits s c r" by (cases c; cases r) (auto simp: load_def)
qed (simp_all add: load_def)

text \<open>Other sessions are not disturbed by changes of the shared resources within bounds.\<close>

lemma hs_invar_reload:
  assumes "hs_invar (load sh s)" "um_invar (shard_upstreams sh')" "pool_invar (shard_pool sh')"
    and "length (endpoints (shard_upstreams sh')) = length (endpoints (shard_upstreams sh))"
    and "buffer_size (shard_pool sh') = buffer_size (shard_pool sh)"
  shows "hs_invar (load sh' s)"
proof -
  have eq: "load sh' s = (load sh s)\<lparr>upstream_manager := shard_upstreams sh',
      buffer_pool := shard_pool sh', metrics := shard_metrics sh'\<rparr>" by (simp add: load_def)
  have "session_step undefined [] (load sh s) (load sh' s)"
    unfolding eq by (rule session_step.others) (use assms in simp_all)
  from step_invar[OF this assms(1)] show ?thesis .
qed

lemma shard_invar_new:
  "upstreams cfg \<noteq> [] \<Longrightarrow> shard_invar (GatewayShard_new loop i cfg)"
  by (simp add: shard_invar_def GatewayShard_new_def um_invar_new shard_counts_def conns_def
      LocalMetrics_init_def open_sessions_def)

lemma GatewayShard_start_invar:
  "shard_invar sh \<Longrightarrow> shard_sessions sh = [] \<Longrightarrow> shard_invar (GatewayShard_start r sh)"
  using um_invar_resolve_all[of "shard_upstreams sh" r]
  by (auto simp: shard_invar_def GatewayShard_start_def UpstreamManager_start_def Let_def
      shard_counts_def open_sessions_def)

lemma length_filter_update:
  assumes "j < length xs" "P (xs ! j)"
  shows "length (filter P (xs[j := y])) + (if P y then 0 else 1) = length (filter P xs)"
  using assms
proof (induction xs arbitrary: j)
  case (Cons x xs)
  then show ?case by (cases j) auto
qed simp

lemma session_start_open:
  "session_start eng (HttpSession_new hw um pool m) = Some s \<Longrightarrow>
     \<not> closing s \<and> pending s = [AwaitRequestRead]"
  by (auto simp: session_start_def HttpSession_new_def read_request_chunk_def split: prod.splits)

lemma dispatch_accept_ok:
  fixes sh :: "('e, 'v) GatewayShard"
  assumes "shard_invar sh" "bound_loop (adopted_socket sock) = shard_loop sh"
  shows "\<exists>sh' s. dispatch_accept eng sock sh = Some sh' \<and> shard_invar sh' \<and>
     shard_sessions sh' = shard_sessions sh @ [(adopted_socket sock, s)] \<and> posted sh' = posted sh \<and>
     shard_loop sh' = shard_loop sh \<and> \<not> closing s \<and> pending s = [AwaitRequestRead]"
proof -
  let ?new = "HttpSession_new (body_buffer_high_watermark_bytes (shard_config sh))
      (shard_upstreams sh) (shard_pool sh) (shard_metrics sh) :: ('e, 'v) HttpSession"
  have um: "um_invar (shard_upstreams sh)" "pool_invar (shard_pool sh)"
    using assms(1) by (simp_all add: shard_invar_def)
  obtain s where s: "session_start eng ?new = Some s"
    "settled eng False (conns (on_accept (shard_metrics sh)), length (endpoints (shard_upstreams sh)),
       buffer_size (shard_pool sh)) s"
    using session_start_ok[OF um] unfolding ends_ok_def by blast
  have op: "\<not> closing s" "pending s = [AwaitRequestRead]" using session_start_open[OF s(1)] by simp_all
  let ?sh' = "store s (sh\<lparr>shard_sessions := shard_sessions sh @ [(adopted_socket sock, s)]\<rparr>)"
  have v: "hs_invar s" "conns (metrics s) = conns (on_accept (shard_metrics sh))"
    "length (endpoints (upstream_manager s)) = length (endpoints (shard_upstreams sh))"
    "buffer_size (buffer_pool s) = buffer_size (shard_pool sh)"
    using s(2) op by (simp_all add: settled_def counted_def view_def)
  have sok: "um_invar (upstream_manager s)" "pool_invar (buffer_pool s)"
    using v(1) by (simp_all add: hs_invar_def shared_ok_def)
  have cnt: "shard_counts ?sh'"
    using assms(1) v(2) op
    by (auto simp: shard_invar_def shard_counts_def store_def open_sessions_def is_open_def conns_def
        on_accept_def)
  have "hs_invar (load ?sh' t)" if "hs_invar (load sh t)" for t
    by (rule hs_invar_reload[OF that]) (use v(3,4) sok in \<open>simp_all add: store_def\<close>)
  moreover have "hs_invar (load ?sh' s)"
    using v(1) load_store[of s "sh\<lparr>shard_sessions := shard_sessions sh @ [(adopted_socket sock, s)]\<rparr>"]
    by simp
  ultimately have "shard_invar ?sh'"
    using assms cnt sok by (auto simp: shard_invar_def store_def)
  with s(1) op show ?thesis by (auto simp: dispatch_accept_def store_def)
qed

lemma run_completion_ok:
  assumes "shard_invar sh" "j < length (shard_sessions sh)"
    and "c \<in> set (pending (snd (shard_sessions sh ! j)))" "fits (snd (shard_sessions sh ! j)) c r"
  shows "\<exists>sh'. run_completion eng j c r sh = Some sh' \<and> shard_invar sh' \<and>
     map fst (shard_sessions sh') = map fst (shard_sessions sh) \<and> posted sh' = posted sh \<and>
     shard_loop sh' = shard_loop sh"
proof -
  obtain sock s0 where js: "shard_sessions sh ! j = (sock, s0)" by (cases "shard_sessions sh ! j")
  then have mem: "(sock, s0) \<in> set (shard_sessions sh)" using assms(2) by (metis nth_mem)
  have inv: "hs_invar (load sh s0)" "bound_loop sock = shard_loop sh"
    using assms(1) mem by (auto simp: shard_invar_def)
  have op: "\<not> closing s0" "pending s0 = [c]"
    using inv(1) assms(3) js by (auto simp: hs_invar_def split: if_splits)
  then have p: "pending (load sh s0) = [] @ c # []" by simp
  obtain s' where s': "complete eng (shard_chain sh) c r ((load sh s0)\<lparr>pending := []\<rparr>) = Some s'"
    "hs_invar s'" "counted (view (load sh s0)) s'"
    using step_completion_ok[OF inv(1) p, of r eng "shard_chain sh"] assms(4) js
    by (auto simp: step_ok_def)
  let ?sh' = "store s' (sh\<lparr>shard_sessions := (shard_sessions sh)[j := (sock, s')]\<rparr>)"
  have rc: "run_completion eng j c r sh = Some ?sh'"
    using s'(1) js op(2) by (simp add: run_completion_def Let_def)
  have v: "length (endpoints (upstream_manager s')) = length (endpoints (shard_upstreams sh))"
    "buffer_size (buffer_pool s') = buffer_size (shard_pool sh)"
    using s'(3) by (auto simp: counted_def view_def view_closed_def conns_def split: if_splits)
  have sok: "um_invar (upstream_manager s')" "pool_invar (buffer_pool s')"
    using s'(2) by (simp_all add: hs_invar_def shared_ok_def)
  have n: "open_sessions ?sh' + (if closing s' then 1 else 0) = open_sessions sh"
    using length_filter_update[OF assms(2), of is_open "(sock, s')"] op(1) js
    by (auto simp: open_sessions_def store_def is_open_def)
  then have "(of_nat (open_sessions sh) :: 64 word) =
      of_nat (open_sessions ?sh') + (if closing s' then 1 else 0)"
    using n by (cases "closing s'") (simp_all flip: n)
  with assms(1) s'(3) have cnt: "shard_counts ?sh'"
    by (auto simp: shard_invar_def shard_counts_def counted_def view_def view_closed_def store_def
        split: if_splits)
  have "hs_invar (load ?sh' t)" if "hs_invar (load sh t)" for t
    by (rule hs_invar_reload[OF that]) (use v sok in \<open>simp_all add: store_def\<close>)
  moreover have "hs_invar (load ?sh' s')"
    using s'(2) load_store[of s' "sh\<lparr>shard_sessions := (shard_sessions sh)[j := (sock, s')]\<rparr>"] by simp
  ultimately have "shard_invar ?sh'"
    using assms(1) cnt sok inv(2)
    by (auto simp: shard_invar_def store_def dest!: set_update_subset_insert[THEN subsetD])
  with rc js assms(2) show ?thesis
    by (auto simp: store_def map_update list_update_same_conv)
qed

lemma run_posted_ok:
  assumes "shard_invar sh" "posted sh = sock # rest"
  shows "\<exists>sh' s. run_posted eng sh = Some sh' \<and> shard_invar sh' \<and> posted sh' = rest \<and>
     shard_sessions sh' = shard_sessions sh @
       [(\<lparr>native_handle = native_handle sock, bound_loop = shard_loop sh\<rparr>, s)] \<and>
     shard_loop sh' = shard_loop sh \<and> \<not> closing s \<and> pending s = [AwaitRequestRead]"
proof -
  have inv: "shard_invar (sh\<lparr>posted := rest\<rparr>)"
    using assms(1) by (auto simp: shard_invar_def shard_counts_def open_sessions_def load_def)
  have b: "bound_loop (adopted_socket (adopt_socket (shard_loop sh) sock)) = shard_loop (sh\<lparr>posted := rest\<rparr>)"
    by (simp add: adopt_socket_def do_adopt_socket_def)
  from dispatch_accept_ok[OF inv b, of eng] assms(2) show ?thesis
    by (auto simp: run_posted_def adopt_socket_def do_adopt_socket_def)
qed

lemma um_refresh: "um_invar um \<Longrightarrow> um_invar (fst (on_refresh_timer err r um)) \<and>
    length (endpoints (fst (on_refresh_timer err r um))) = length (endpoints um)"
  using um_invar_resolve_all[of um r] by (simp add: on_refresh_timer_def resolve_all_def Let_def)

text \<open>The connections handed to a shard, in order: those it serves or has served, and those that wait
  in its task queue. Its own steps keep them.\<close>

definition shard_handles :: "('e, 'v) GatewayShard \<Rightarrow> nat list" where
  "shard_handles sh = map native_handle (map fst (shard_sessions sh) @ posted sh)"

lemma accept_from_ok:
  "shard_invar sh \<Longrightarrow> shard_invar (accept_from sock sh)"
  "shard_handles (accept_from sock sh) = shard_handles sh @ [native_handle sock]"
  "shard_loop (accept_from sock sh) = shard_loop sh"
  by (auto simp: shard_invar_def accept_from_def shard_counts_def open_sessions_def load_def
      shard_handles_def)

lemma run_dns_refresh_ok:
  assumes "shard_invar sh"
  shows "shard_invar (run_dns_refresh err resolve sh)"
proof -
  let ?um = "fst (on_refresh_timer err resolve (shard_upstreams sh))"
  let ?sh' = "run_dns_refresh err resolve sh"
  have u: "um_invar ?um" "length (endpoints ?um) = length (endpoints (shard_upstreams sh))"
    using um_refresh assms by (auto simp: shard_invar_def)
  have "hs_invar (load ?sh' s)" if "hs_invar (load sh s)" for s
    by (rule hs_invar_reload[OF that]) (use u assms in \<open>simp_all add: run_dns_refresh_def shard_invar_def\<close>)
  with u assms show ?thesis
    by (auto simp: shard_invar_def run_dns_refresh_def shard_counts_def open_sessions_def)
qed

lemma shard_runs_ok:
  assumes "shard_runs eng sh sh'" "shard_invar sh"
  shows "shard_invar sh' \<and> shard_handles sh' = shard_handles sh \<and> shard_loop sh' = shard_loop sh"
  using assms(1)
proof (cases rule: shard_runs.cases)
  case task
  then obtain sock rest where p: "posted sh = sock # rest"
    by (auto simp: run_posted_def split: list.splits)
  from run_posted_ok[OF assms(2) p, of eng] task p show ?thesis by (auto simp: shard_handles_def)
next
  case (io_done j c r)
  from run_completion_ok[OF assms(2) io_done(1-3), of eng] io_done(4) show ?thesis
    by (auto simp: shard_handles_def)
next
  case (dns err resolve)
  with run_dns_refresh_ok[OF assms(2)] show ?thesis by (auto simp: shard_handles_def run_dns_refresh_def)
qed

lemma shard_step_invar:
  assumes "shard_step eng sh sh'" "shard_invar sh"
  shows "shard_invar sh'"
  using assms by (auto elim!: shard_stepE dest: shard_runs_ok intro: accept_from_ok)

lemma shard_reachable_invar:
  assumes "shard_reachable eng sh0 sh" "shard_invar sh0"
  shows "shard_invar sh"
  using assms by (induction rule: shard_reachable.induct) (auto intro: shard_step_invar)

text \<open>The task queue drains: running as many tasks as are posted starts a session for each
  posted connection, waiting for its first request.\<close>

definition freshly_served :: "loop_socket \<times> ('e, 'v) HttpSession \<Rightarrow> bool" where
  "freshly_served p \<longleftrightarrow> \<not> closing (snd p) \<and> pending (snd p) = [AwaitRequestRead]"

lemma run_tasks_ok:
  assumes "shard_invar sh"
  shows "\<exists>sh' ps. run_tasks eng (length (posted sh)) sh = Some sh' \<and> shard_invar sh' \<and> posted sh' = [] \<and>
     shard_sessions sh' = shard_sessions sh @ ps \<and> list_all freshly_served ps \<and>
     map fst ps = map (do_adopt_socket (shard_loop sh)) (posted sh) \<and> shard_loop sh' = shard_loop sh"
  using assms
proof (induction "posted sh" arbitrary: sh)
  case (Cons sock rest)
  obtain sh1 s where sh1: "run_posted eng sh = Some sh1" "shard_invar sh1" "posted sh1 = rest"
    "shard_sessions sh1 = shard_sessions sh @ [(do_adopt_socket (shard_loop sh) sock, s)]"
    "shard_loop sh1 = shard_loop sh" "\<not> closing s" "pending s = [AwaitRequestRead]"
    using run_posted_ok[OF Cons.prems Cons.hyps(2)[symmetric], of eng]
    by (auto simp: do_adopt_socket_def)
  from Cons.hyps(1)[OF sh1(3)[symmetric] sh1(2)] sh1(3,4) obtain sh' ps where
    "run_tasks eng (length rest) sh1 = Some sh'" "shard_invar sh'" "posted sh' = []"
    "shard_sessions sh' = shard_sessions sh @ (do_adopt_socket (shard_loop sh) sock, s) # ps"
    "list_all freshly_served ps" "map fst ps = map (do_adopt_socket (shard_loop sh1)) rest"
    "shard_loop sh' = shard_loop sh1"
    by auto
  with sh1 Cons.hyps(2)[symmetric] show ?case
    by (intro exI[of _ sh'] exI[of _ "(do_adopt_socket (shard_loop sh) sock, s) # ps"])
      (simp add: freshly_served_def)
qed simp

text \<open>Whatever else runs in between, every task takes one connection off the front of the queue.\<close>

lemma shard_run_ok:
  assumes "shard_run eng n sh sh'" "shard_invar sh"
  shows "shard_invar sh' \<and> shard_loop sh' = shard_loop sh \<and>
     length (shard_sessions sh') = length (shard_sessions sh) + n \<and>
     (\<exists>hs. shard_handles sh' = shard_handles sh @ hs)"
  using assms
proof (induction rule: shard_run.induct)
  case (task n sh sh1 sh2)
  then have IH: "shard_invar sh1" "length (shard_sessions sh1) = length (shard_sessions sh) + n" by simp_all
  from task.hyps(2) obtain sock rest where p: "posted sh1 = sock # rest"
    by (auto simp: run_posted_def split: list.splits)
  from run_posted_ok[OF IH(1) p, of eng] task p show ?case by (auto simp: shard_handles_def)
next
  case (io_done n sh sh1 j c r sh2)
  then have "shard_invar sh1" by simp
  from run_completion_ok[OF this io_done.hyps(2-4), of eng] io_done show ?case
    by (auto simp: shard_handles_def dest: map_eq_imp_length_eq)
next
  case (dns n sh sh1 err resolve)
  with run_dns_refresh_ok[of sh1 err resolve] show ?case by (auto simp: shard_handles_def run_dns_refresh_def)
next
  case (accepted n sh sh1 sock)
  with accept_from_ok[where sh = sh1 and sock = sock] show ?case by (auto simp: accept_from_def)
qed simp

end
