(* ===== verification/Connection_Ownership.thy ===== *)
theory Connection_Ownership
  imports Gateway_Shard Session_Rules Http_Session_Props
begin

text \<open>
  Who owns an upstream connection. Every connection a shard has ever opened is in exactly one
  place: idle in a pool of the manager, held by one session, or closed. The source has this from
  \<open>std::unique_ptr\<close> as long as every method moves the pointer on or closes the socket; here it is
  proved method by method, as conservation of the multiset \<open>owned\<close>.
\<close>

section \<open>Places\<close>

definition held :: "('e, 'v) HttpSession \<Rightarrow> socket_id multiset" where
  "held s = (if closing s then {#} else case upstream s of None \<Rightarrow> {#} | Some k \<Rightarrow> {#k#})"

fun closed_by :: "io_event \<Rightarrow> socket_id multiset" where
  "closed_by (UpstreamClosed k) = {#k#}"
| "closed_by _ = {#}"

definition closed_sockets :: "io_event list \<Rightarrow> socket_id multiset" where
  "closed_sockets es = sum_list (map closed_by es)"

definition parted :: "('e, 'v) HttpSession \<Rightarrow> socket_id multiset" where
  "parted s = held s + closed_sockets (io s)"

definition owned :: "('e, 'v) HttpSession \<Rightarrow> socket_id multiset" where
  "owned s = parted s + idle_sockets (upstream_manager s)"

lemma closed_sockets_simps [simp]:
  "closed_sockets [] = {#}" "closed_sockets (e # es) = closed_by e + closed_sockets es"
  "closed_sockets (xs @ ys) = closed_sockets xs + closed_sockets ys"
  by (simp_all add: closed_sockets_def)

lemmas owned_defs = owned_def parted_def held_def

section \<open>The methods conserve ownership\<close>

lemma release_connection_idle:
  "release_connection i k um = Some (um', full) \<Longrightarrow>
     add_mset k (idle_sockets um) = idle_sockets um' + (case full of None \<Rightarrow> {#} | Some x \<Rightarrow> {#x#})"
  by (auto simp: release_connection_def Let_def idle_release split: if_splits)

lemma acquire_connection_idle:
  "acquire_connection i um = Some (acq, um') \<Longrightarrow>
     idle_sockets um = idle_sockets um' + (case acq of Pooled k \<Rightarrow> {#k#} | Connecting _ _ \<Rightarrow> {#})"
  by (auto simp: acquire_connection_def connect_fresh_def Let_def idle_acquire split: if_splits)

lemma select_endpoint_idle: "select_endpoint um = Some (i, um') \<Longrightarrow> idle_sockets um' = idle_sockets um"
  by (auto simp: select_endpoint_def Let_def idle_sockets_def split: if_splits)

lemma close_session_owned [simp]: "owned (close_session s) = owned s"
  by (auto simp: owned_defs close_session_def Let_def split: option.splits)

lemma close_session_direct [simp]: "direct_response_mode (close_session s) = direct_response_mode s"
  by (auto simp: close_session_def Let_def split: option.splits)

lemma read_chunk_owned:
  "read_request_chunk s = Some s' \<Longrightarrow> owned s' = owned s"
  "read_response_chunk s = Some s' \<Longrightarrow> owned s' = owned s"
  by (auto simp: read_request_chunk_def read_response_chunk_def owned_defs split: bind_splits)

lemma owned_cong:
  "\<lbrakk>closing s' = closing s; upstream s' = upstream s; upstream_manager s' = upstream_manager s;
    closed_sockets (io s') = closed_sockets (io s)\<rbrakk> \<Longrightarrow> owned s' = owned s"
  by (simp add: owned_defs)

lemma reset_owned: "reset_for_next_request eng s = Some s' \<Longrightarrow> owned s' = owned s"
  unfolding reset_for_next_request_def by (drule read_chunk_owned(1)) (simp add: owned_defs)

lemma release_upstream_owned:
  "release_upstream s = Some s' \<Longrightarrow> \<not> closing s \<Longrightarrow> owned s' = owned s \<and> \<not> closing s'"
  by (auto simp: release_upstream_def owned_defs ac_simps dest!: release_connection_idle
      split: option.splits if_splits bind_splits)

lemma pull_response_owned:
  assumes "pull_and_write_response_to_downstream eng s = Some s'" "\<not> closing s"
  shows "owned s' = owned s"
proof -
  have frame: "owned (s\<lparr>response_serializer := x, write_buf := y\<rparr>) = owned s" for x y by (simp add: owned_defs)
  show ?thesis
    using assms
    by (auto simp: pull_and_write_response_to_downstream_def frame Let_def
        dest!: read_chunk_owned(2) reset_owned release_upstream_owned split: bind_splits if_splits prod.splits)
      (simp_all add: owned_defs)
qed

lemma respond_directly_owned:
  assumes "respond_directly eng head body s = Some s'" "\<not> closing s"
  shows "owned s' = owned s \<and> direct_response_mode s'"
proof -
  note r = assms(1)[unfolded respond_directly_def]
  show ?thesis using pull_response_owned[OF r] direct_mode_kept[OF r] assms(2) by (simp add: owned_defs)
qed

text \<open>Inside a handler, before the session answers directly or closes: it owns \<open>m\<close>.\<close>

definition conserved :: "socket_id multiset \<Rightarrow> ('e, 'v) HttpSession \<Rightarrow> bool" where
  "conserved m s \<longleftrightarrow> owned s = m \<and> \<not> closing s \<and> \<not> direct_response_mode s"

lemma conserved_frame [simp]:
  "conserved m (s\<lparr>response_parser := rp\<rparr>) = conserved m s" "conserved m (s\<lparr>request_parser := qp\<rparr>) = conserved m s"
  "conserved m (s\<lparr>body_filter_gate := g, filter_ctx := x\<rparr>) = conserved m s"
  "conserved m (s\<lparr>metrics := mt\<rparr>) = conserved m s" "conserved m (s\<lparr>upstream_connecting := c\<rparr>) = conserved m s"
  by (simp_all add: conserved_def owned_defs)

lemma response_chunk_owned:
  assumes "process_response_data_chunk eng chain c e s = Some (b, s')" "conserved m s"
  shows "if b then conserved m s' else owned s' = m \<and> direct_response_mode s'"
proof -
  obtain x g ctx where g: "gate_apply_response chain c e (body_filter_gate s) (filter_ctx s) = (x, g, ctx)"
    by (metis prod_cases3)
  have s1: "conserved m (s\<lparr>body_filter_gate := g, filter_ctx := ctx\<rparr>)" using assms(2) by simp
  show ?thesis
    using assms g s1
    by (cases x) (auto simp: process_response_data_chunk_def conserved_def owned_defs split: bind_splits
        dest!: respond_directly_owned)
qed

lemma drain_response_owned:
  assumes "drain_response_body_into_serializer eng chain s = Some s'" "conserved m s"
  shows "if direct_response_mode s' then owned s' = m else conserved m s'"
proof -
  have "conserved m s' \<or> (owned s' = m \<and> direct_response_mode s')"
    by (rule drain_response_rule[where I = "conserved m", OF assms(1)[unfolded drain_response_body_into_serializer_def] assms(2)])
      (use response_chunk_owned in \<open>force+\<close>)
  then show ?thesis by (auto simp: conserved_def)
qed

lemma response_head_owned:
  assumes "filter_response_head eng chain s = Some (b, s')" "conserved m s"
  shows "if b then owned s' = m else conserved m s'"
  using assms
  by (auto simp: filter_response_head_def Let_def conserved_def owned_defs dest!: respond_directly_owned
      split: bind_splits if_splits prod.splits FilterHeaderResult.splits)

lemma response_loop_owned:
  assumes "response_loop eng chain raw s = Some (b, s')" "conserved m s"
  shows "if b then owned s' = m else conserved m s'"
proof (rule response_loop_rule[where I = "conserved m" and Q = "\<lambda>t. owned t = m", OF assms])
  show "if r then owned t' = m else conserved m t'"
    if "conserved m t" "filter_response_head eng chain t = Some (r, t')" for t r t'
    by (rule response_head_owned[OF that(2,1)])
  show "if direct_response_mode t' then owned t' = m else conserved m t'"
    if "conserved m t" "drain_response_body_into_serializer eng chain t = Some t'" for t t'
    by (rule drain_response_owned[OF that(2,1)])
qed (simp, simp add: conserved_def)

lemma request_chunk_owned:
  assumes "process_request_data_chunk eng chain c e s = Some (b, s')" "conserved m s"
  shows "if b then conserved m s' else owned s' = m \<and> direct_response_mode s'"
proof -
  obtain x g ctx where g: "gate_apply_request chain c e (body_filter_gate s) (filter_ctx s) = (x, g, ctx)"
    by (metis prod_cases3)
  have s1: "conserved m (s\<lparr>body_filter_gate := g, filter_ctx := ctx\<rparr>)" using assms(2) by simp
  show ?thesis
    using assms g s1
    by (cases x) (auto simp: process_request_data_chunk_def conserved_def owned_defs split: bind_splits
        dest!: respond_directly_owned)
qed

lemma drain_request_owned:
  assumes "drain_request_body_into_serializer eng chain s = Some s'" "conserved m s"
  shows "if direct_response_mode s' then owned s' = m else conserved m s'"
proof -
  have "conserved m s' \<or> (owned s' = m \<and> direct_response_mode s')"
    by (rule drain_request_rule[where I = "conserved m", OF assms(1)[unfolded drain_request_body_into_serializer_def] assms(2)])
      (use request_chunk_owned in \<open>force+\<close>)
  then show ?thesis by (auto simp: conserved_def)
qed

lemma request_head_owned:
  assumes "filter_request_head eng chain s = Some (b, s')" "conserved m s"
  shows "if b then owned s' = m else conserved m s'"
  using assms
  by (auto simp: filter_request_head_def Let_def conserved_def owned_defs dest!: respond_directly_owned
      split: bind_splits if_splits prod.splits FilterHeaderResult.splits)

lemma request_loop_owned:
  assumes "request_loop eng chain raw s = Some (b, s')" "conserved m s"
  shows "if b then owned s' = m else conserved m s'"
proof (rule request_loop_rule[where I = "conserved m" and Q = "\<lambda>t. owned t = m", OF assms])
  show "if r then owned t' = m else conserved m t'"
    if "conserved m t" "filter_request_head eng chain t = Some (r, t')" for t r t'
    by (rule request_head_owned[OF that(2,1)])
  show "if direct_response_mode t' then owned t' = m else conserved m t'"
    if "conserved m t" "drain_request_body_into_serializer eng chain t = Some t'" for t t'
    by (rule drain_request_owned[OF that(2,1)])
qed (simp, simp add: conserved_def)

lemma process_upstream_owned:
  assumes "process_upstream_chunk eng chain raw s = Some s'" "conserved m s"
  shows "owned s' = m"
proof -
  obtain b s1 where l: "response_loop eng chain raw s = Some (b, s1)"
    using assms(1) by (auto simp: process_upstream_chunk_def split: bind_splits)
  have fin: "owned t' = owned t" if "pull_and_write_response_to_downstream eng t = Some t'" "\<not> closing t"
    for t t' :: "('a, 'b) HttpSession" by (rule pull_response_owned[OF that])
  from response_loop_owned[OF l assms(2)] l assms(1) show ?thesis
    by (cases b)
      (auto simp: process_upstream_chunk_def conserved_def dest!: fin read_chunk_owned
        split: bind_splits if_splits, simp_all add: owned_defs)
qed

lemma start_response_owned: "start_response_phase eng s = Some s' \<Longrightarrow> owned s' = owned s"
  unfolding start_response_phase_def by (drule read_chunk_owned(2)) (simp add: owned_defs)

lemma pull_request_owned:
  assumes "pull_and_write_request_to_upstream eng s = Some s'"
  shows "owned s' = owned s"
proof -
  have frame: "owned (s\<lparr>request_serializer := x, write_buf := y\<rparr>) = owned s" for x y by (simp add: owned_defs)
  show ?thesis
    using assms
    by (auto simp: pull_and_write_request_to_upstream_def Let_def frame dest!: read_chunk_owned(1) start_response_owned
        split: bind_splits if_splits prod.splits) (simp_all add: owned_defs)
qed

lemma set_upstream_owned: "\<not> closing s \<Longrightarrow> owned (set_upstream k s) = add_mset k (owned s)"
  by (auto simp: set_upstream_def owned_defs split: option.splits)

fun delivered :: "completion \<Rightarrow> socket_id multiset" where
  "delivered (AcquireDone err (Some k)) = (if Error_ok err then {#k#} else {#})"
| "delivered _ = {#}"

lemma owned_metrics [simp]: "owned (s\<lparr>metrics := m\<rparr>) = owned s"
  by (simp add: owned_defs)

lemma on_acquire_owned:
  "on_acquire eng err sock s = Some s' \<Longrightarrow> \<not> closing s \<Longrightarrow> owned s' = owned s + delivered (AcquireDone err sock)"
  by (auto simp: on_acquire_def set_upstream_owned dest!: pull_request_owned split: option.splits if_splits)

lemma connect_upstream_owned:
  assumes "connect_upstream eng s = Some s'" "\<not> closing s"
  shows "owned s' = owned s"
proof -
  obtain i um1 acq um2 where a: "select_endpoint (upstream_manager s) = Some (i, um1)"
    "acquire_connection i um1 = Some (acq, um2)"
    using assms(1) by (auto simp: connect_upstream_def split: bind_splits)
  have idle: "idle_sockets (upstream_manager s) =
      idle_sockets um2 + (case acq of Pooled k \<Rightarrow> {#k#} | Connecting _ _ \<Rightarrow> {#})"
    using acquire_connection_idle[OF a(2)] select_endpoint_idle[OF a(1)] by simp
  show ?thesis
  proof (cases acq)
    case (Pooled k)
    with assms a have "on_acquire eng Error_none (Some k) (s\<lparr>endpoint_index := i, upstream_manager := um2\<rparr>) = Some s'"
      by (simp add: connect_upstream_def)
    from on_acquire_owned[OF this] assms(2) idle Pooled show ?thesis by (simp add: owned_defs ac_simps)
  next
    case (Connecting ep t)
    with assms a idle show ?thesis by (auto simp: connect_upstream_def owned_defs)
  qed
qed

lemma process_downstream_owned:
  assumes "process_downstream_chunk eng chain raw s = Some s'" "conserved m s"
  shows "owned s' = m"
proof -
  obtain b s1 where l: "request_loop eng chain raw s = Some (b, s1)"
    using assms(1) by (auto simp: process_downstream_chunk_def split: bind_splits)
  note k = request_loop_owned[OF l assms(2)]
  have con: "owned t' = owned t" if "connect_upstream eng (t\<lparr>upstream_connecting := True\<rparr>) = Some t'" "\<not> closing t"
    for t t' :: "('a, 'b) HttpSession"
    using connect_upstream_owned[OF that(1)] that(2) by (simp add: owned_defs)
  from k l assms(1) show ?thesis
    by (cases b)
      (auto simp: process_downstream_chunk_def conserved_def dest!: con pull_request_owned read_chunk_owned
        split: bind_splits if_splits option.splits, simp_all add: owned_defs)
qed

lemma retry_owned:
  "retry_upstream_write_once n s = Some s' \<Longrightarrow> \<not> closing s \<Longrightarrow> owned s' = owned s"
  "retry_upstream_after_read_failure s = Some s' \<Longrightarrow> \<not> closing s \<Longrightarrow> owned s' = owned s"
  by (auto simp: retry_upstream_write_once_def retry_upstream_after_read_failure_def acquire_fresh_connection_def
      drop_upstream_def owned_defs Let_def split: bind_splits acquisition.splits option.splits)

lemma started_write_owned:
  "owned (s\<lparr>pending := p, io := io s @ [UpstreamWrite k b]\<rparr>) = owned s"
  by (simp add: owned_defs)

lemma retry_acquired_owned:
  assumes "on_retry_acquire n err sock s = Some s'" "\<not> closing s"
  shows "owned s' = owned s + delivered (AcquireDone err sock)"
  using assms by (cases sock)
    (auto simp: on_retry_acquire_def Let_def started_write_owned set_upstream_owned split: bind_splits if_splits)

lemma snapshot_acquired_owned:
  assumes "on_snapshot_acquire err sock s = Some s'" "\<not> closing s"
  shows "owned s' = owned s + delivered (AcquireDone err sock)"
  using assms by (cases sock)
    (auto simp: on_snapshot_acquire_def Let_def started_write_owned set_upstream_owned split: bind_splits if_splits)

text \<open>Every completion: what the session, its log and the pools own grows by the connection that
  was delivered, if one was.\<close>

lemma complete_owned:
  assumes "complete eng chain c x s = Some s'" "\<not> closing s" "awaits c s"
  shows "owned s' = owned s + delivered x"
proof -
  have frame: "owned (s\<lparr>upstream_retry_used := u\<rparr>) = owned s"
    "owned (count_upstream_bytes w (s\<lparr>upstream_wrote_once := u\<rparr>)) = owned s"
    "owned (count_upstream_bytes w s) = owned s" for u w
    by (simp_all add: owned_defs count_upstream_bytes_def)
  have down: "conserved (owned s) (s\<lparr>read_buf := Some b\<rparr>)" if "awaits AwaitRequestRead s" for b
    using assms(2) that requesting_not_direct by (simp add: conserved_def owned_defs)
  have up: "conserved (owned s) (s\<lparr>upstream_response_read_any := True, read_buf := Some b\<rparr>)"
    if "awaits AwaitResponseRead s" for b
    using assms(2) that responding_not_direct by (simp add: conserved_def owned_defs)
  show ?thesis
    using assms
    by (cases "(eng, chain, c, x, s)" rule: complete.cases)
      (auto simp: on_request_read_def on_request_written_def on_retry_written_def on_snapshot_written_def
        on_response_read_def on_response_written_def frame simp del: awaits.simps
        dest!: process_downstream_owned[OF _ down] process_upstream_owned[OF _ up] on_acquire_owned
          retry_acquired_owned snapshot_acquired_owned retry_owned pull_request_owned pull_response_owned start_response_owned
        split: if_splits bind_splits)
qed

section \<open>A shard and its connections\<close>

definition shard_owned :: "('e, 'v) GatewayShard \<Rightarrow> socket_id multiset" where
  "shard_owned sh = idle_sockets (shard_upstreams sh) + (\<Sum>p\<leftarrow>shard_sessions sh. parted (snd p))"

text \<open>The runs of a shard with the upstream connections it opened, in order. A new connection is a
  new socket object, different from all before.\<close>

inductive shard_history ::
  "'e llhttp_engine \<Rightarrow> ('e, 'v) GatewayShard \<Rightarrow> socket_id list \<Rightarrow> ('e, 'v) GatewayShard \<Rightarrow> bool"
  for eng sh0 where
  begins: "shard_history eng sh0 [] sh0"
| task: "\<lbrakk>shard_history eng sh0 ks sh; run_posted eng sh = Some sh'\<rbrakk> \<Longrightarrow> shard_history eng sh0 ks sh'"
| io_done:
    "\<lbrakk>shard_history eng sh0 ks sh; j < length (shard_sessions sh);
      c \<in> set (pending (snd (shard_sessions sh ! j))); fits (snd (shard_sessions sh ! j)) c x;
      run_completion eng j c x sh = Some sh'; mset new = delivered x; set new \<inter> set ks = {}\<rbrakk> \<Longrightarrow>
     shard_history eng sh0 (ks @ new) sh'"
| dns: "shard_history eng sh0 ks sh \<Longrightarrow> shard_history eng sh0 ks (run_dns_refresh err resolve sh)"
| accepted: "shard_history eng sh0 ks sh \<Longrightarrow> shard_history eng sh0 ks (accept_from sock sh)"

lemma sum_list_replace:
  fixes f :: "'a \<Rightarrow> 'b :: cancel_comm_monoid_add"
  assumes "j < length xs"
  shows "(\<Sum>x\<leftarrow>xs[j := y]. f x) + f (xs ! j) = (\<Sum>x\<leftarrow>xs. f x) + f y"
  using assms
proof (induction xs arbitrary: j)
  case (Cons x xs)
  then show ?case by (cases j) (auto simp: add.commute add.left_commute add.assoc)
qed simp

lemma exchange:
  fixes S :: "'b :: cancel_comm_monoid_add"
  assumes "S' + p = S + q" "q + i' = p + i + d"
  shows "i' + S' = i + S + d"
proof -
  have "(i' + S') + p = i' + (S' + p)" by (simp add: add.assoc)
  also have "\<dots> = S + (q + i')" unfolding assms(1) by (simp add: ac_simps)
  also have "\<dots> = (i + S + d) + p" unfolding assms(2) by (simp add: ac_simps)
  finally show ?thesis by (simp only: add_right_cancel)
qed

lemma parted_load [simp]: "parted (load sh s) = parted s"
  by (simp add: parted_def held_def load_def)

lemma completion_shard_owned:
  assumes "shard_invar sh" "j < length (shard_sessions sh)"
    and "c \<in> set (pending (snd (shard_sessions sh ! j)))" "run_completion eng j c x sh = Some sh'"
  shows "shard_owned sh' = shard_owned sh + delivered x"
proof -
  obtain sock s0 where js: "shard_sessions sh ! j = (sock, s0)" by fastforce
  then have "hs_invar (load sh s0)"
    using assms(1) nth_mem[OF assms(2)] by (auto simp: shard_invar_def)
  then have op: "\<not> closing s0" "pending s0 = [c]" "awaits c (load sh s0)"
    using assms(3) js by (auto simp: hs_invar_def split: if_splits)
  obtain s' where s': "complete eng (shard_chain sh) c x ((load sh s0)\<lparr>pending := []\<rparr>) = Some s'"
    "sh' = store s' (sh\<lparr>shard_sessions := (shard_sessions sh)[j := (sock, s')]\<rparr>)"
    using assms(4) js op(2) by (auto simp: run_completion_def split: bind_splits)
  have aw: "awaits c ((load sh s0)\<lparr>pending := []\<rparr>)" using op(3) by (cases c) (auto simp: phase_defs)
  have "owned s' = owned ((load sh s0)\<lparr>pending := []\<rparr>) + delivered x"
    by (rule complete_owned[OF s'(1) _ aw]) (use op(1) in simp)
  then have o: "parted s' + idle_sockets (upstream_manager s') =
      parted s0 + idle_sockets (shard_upstreams sh) + delivered x"
    by (simp add: owned_def parted_def held_def load_def)
  have "(\<Sum>p\<leftarrow>shard_sessions sh'. parted (snd p)) + parted s0 = (\<Sum>p\<leftarrow>shard_sessions sh. parted (snd p)) + parted s'"
    using sum_list_replace[OF assms(2), of "\<lambda>p. parted (snd p)" "(sock, s')"] js s'(2) by (simp add: store_def)
  from exchange[OF this o] s'(2) show ?thesis by (simp add: shard_owned_def store_def)
qed

lemma task_shard_owned:
  assumes "run_posted eng sh = Some sh'"
  shows "shard_owned sh' = shard_owned sh"
  using assms
  by (auto simp: run_posted_def dispatch_accept_def session_start_def HttpSession_new_def read_request_chunk_def
      store_def shard_owned_def parted_def held_def split: list.splits bind_splits prod.splits)

lemma history_accounts:
  assumes "shard_history eng sh0 ks sh" "shard_invar sh0" "shard_owned sh0 = {#}"
  shows "shard_invar sh \<and> distinct ks \<and> mset ks = shard_owned sh"
  using assms(1)
proof (induction rule: shard_history.induct)
  case begins
  then show ?case using assms(2,3) by simp
next
  case (task ks sh sh')
  then obtain sock rest where "posted sh = sock # rest" by (auto simp: run_posted_def split: list.splits)
  with run_posted_ok[of sh sock rest eng] task task_shard_owned[OF task.hyps(2)] show ?case by auto
next
  case (io_done ks sh j c x sh' new)
  then have inv: "shard_invar sh" by simp
  have "distinct new" using io_done.hyps(6) by (cases x rule: delivered.cases) (auto split: if_splits)
  with run_completion_ok[OF inv io_done.hyps(2-4), of eng] io_done completion_shard_owned[OF inv io_done.hyps(2,3,5)]
  show ?case by auto
next
  case (dns ks sh err resolve)
  then show ?case
    using run_dns_refresh_ok[of sh err resolve]
    by (auto simp: shard_owned_def run_dns_refresh_def on_refresh_timer_def resolve_all_def idle_sockets_def Let_def)
next
  case (accepted ks sh sock)
  then show ?case using accept_from_ok(1)[of sh sock] by (auto simp: shard_owned_def accept_from_def)
qed

section \<open>Properties\<close>

lemma count_in_sum: "i < length ms \<Longrightarrow> count (ms ! i) k \<le> count (sum_list ms) k"
proof (induction ms arbitrary: i)
  case (Cons m ms)
  then show ?case by (cases i) (auto intro: trans_le_add2)
qed simp

lemma count_pair_in_sum:
  "i < j \<Longrightarrow> j < length ms \<Longrightarrow> count (ms ! i) k + count (ms ! j) k \<le> count (sum_list ms) k"
proof (induction ms arbitrary: i j)
  case (Cons m ms)
  then show ?case
    by (cases i; cases j) (auto intro: count_in_sum trans_le_add2)
qed simp

text \<open>A session uses the connection \<open>k\<close>.\<close>

definition uses :: "loop_socket \<times> ('e, 'v) HttpSession \<Rightarrow> socket_id \<Rightarrow> bool" where
  "uses p k \<longleftrightarrow> \<not> closing (snd p) \<and> upstream (snd p) = Some k"

lemma uses_count: "uses p k \<Longrightarrow> 1 \<le> count (parted (snd p)) k"
  by (auto simp: uses_def parted_def held_def)

text \<open>C7. Upstream connections are never shared, leaked or closed twice. Let a shard run in any way,
  with every new connection a new socket. Then the connections it ever opened are exactly, each in
  one place: idle in a pool, held by a session that is open, or closed, once, by a session; in
  particular no two sessions use one connection and none uses a connection that is idle.\<close>

theorem upstream_connections_exclusive:
  fixes sh :: "('e, 'v) GatewayShard"
  assumes "upstreams cfg \<noteq> []"
    and "shard_history eng (GatewayShard_start resolve (GatewayShard_new l w cfg)) ks sh"
  shows "distinct ks \<and>
     mset ks = idle_sockets (shard_upstreams sh) +
       (\<Sum>p\<leftarrow>shard_sessions sh. held (snd p) + closed_sockets (io (snd p))) \<and>
     (\<forall>i j k. i < j \<and> j < length (shard_sessions sh) \<longrightarrow>
        \<not> (uses (shard_sessions sh ! i) k \<and> uses (shard_sessions sh ! j) k)) \<and>
     (\<forall>i k. i < length (shard_sessions sh) \<and> uses (shard_sessions sh ! i) k \<longrightarrow>
        k \<notin># idle_sockets (shard_upstreams sh))"
proof -
  let ?sh0 = "GatewayShard_start resolve (GatewayShard_new l w cfg) :: ('e, 'v) GatewayShard"
  have inv: "shard_invar ?sh0"
    by (rule GatewayShard_start_invar)
      (use shard_invar_new[OF assms(1)] in \<open>simp_all add: GatewayShard_new_def\<close>)
  have none: "shard_owned ?sh0 = {#}"
    by (simp add: shard_owned_def GatewayShard_start_def GatewayShard_new_def UpstreamManager_start_def Let_def
        resolve_all_def UpstreamManager_new_def idle_sockets_def)
  note acc = history_accounts[OF assms(2) inv none]
  let ?ps = "map (\<lambda>p. parted (snd p)) (shard_sessions sh)"
  have total: "mset ks = idle_sockets (shard_upstreams sh) + sum_list ?ps" and d: "distinct ks"
    using acc by (simp_all add: shard_owned_def)
  have once: "count (idle_sockets (shard_upstreams sh)) k + count (sum_list ?ps) k \<le> 1" for k
  proof -
    have "count (mset ks) k \<le> 1" using d by (simp add: distinct_count_atmost_1)
    then show ?thesis by (simp add: total)
  qed
  have two: False if "i < j" "j < length (shard_sessions sh)" "uses (shard_sessions sh ! i) k"
    "uses (shard_sessions sh ! j) k" for i j k
    using count_pair_in_sum[of i j ?ps k] uses_count[OF that(3)] uses_count[OF that(4)] that(1,2) once[of k] by simp
  have idle: "k \<notin># idle_sockets (shard_upstreams sh)"
    if "i < length (shard_sessions sh)" "uses (shard_sessions sh ! i) k" for i k
  proof -
    have "1 \<le> count (sum_list ?ps) k"
      by (rule le_trans[OF uses_count[OF that(2)]]) (use count_in_sum[of i ?ps k] that(1) in simp)
    with once[of k] have "count (idle_sockets (shard_upstreams sh)) k = 0" by linarith
    then show ?thesis by (simp add: not_in_iff)
  qed
  from d total two idle show ?thesis by (auto simp: parted_def)
qed

text \<open>A shard that accepts the session of \<open>Http_Session_Props\<close> and opens connection 7 for it.\<close>

definition sample_shard :: "(unit, nat) GatewayShard" where
  "sample_shard = GatewayShard_start (\<lambda>h p. (timeout_error, [])) (GatewayShard_new 1 0 sample_config)"

definition sample_serving :: "(unit, nat) HttpSession \<Rightarrow> (unit, nat) GatewayShard" where
  "sample_serving s = store s (sample_shard\<lparr>shard_sessions := [(\<lparr>native_handle = 40, bound_loop = 1\<rparr>, s)]\<rparr>)"

lemma sample_shard_fields:
  "shard_upstreams sample_shard = UpstreamManager_new sample_config" "shard_pool sample_shard = BufferPool_new 4 2"
  "shard_metrics sample_shard = LocalMetrics_init" "shard_chain sample_shard = [ViaHeaderFilter]"
  "shard_config sample_shard = sample_config" "shard_loop sample_shard = 1" "posted sample_shard = []"
  "shard_sessions sample_shard = []"
  by (simp_all add: sample_shard_def GatewayShard_start_def GatewayShard_new_def UpstreamManager_start_def Let_def
      resolve_all_def resolve_endpoint_def UpstreamManager_new_def sample_config_def build_default_filter_chain_def
      add_filter_def timeout_error_def Error_ok_def)

lemma sample_serving_step:
  assumes "complete sample_engine [ViaHeaderFilter] c x (s\<lparr>pending := []\<rparr>) = Some s'" "pending s = [c]"
  shows "run_completion sample_engine 0 c x (sample_serving s) = Some (sample_serving s')"
  using assms
  by (simp add: run_completion_def sample_serving_def store_def load_def sample_shard_fields)

lemma sample_history:
  "shard_history sample_engine sample_shard [7] (sample_serving sample_writing)"
proof -
  let ?sock = "\<lparr>native_handle = 40, bound_loop = 0\<rparr> :: loop_socket"
  note h = shard_history.accepted[OF shard_history.begins, of sample_engine sample_shard ?sock]
  have start: "session_start sample_engine (HttpSession_new 8 (UpstreamManager_new sample_config) (BufferPool_new 4 2)
      LocalMetrics_init) = Some sample_open" using sample_start by (simp add: sample_session_def)
  have "run_posted sample_engine (accept_from ?sock sample_shard) = Some (sample_serving sample_open)"
    using start
    by (simp add: run_posted_def accept_from_def sample_shard_fields dispatch_accept_def adopt_socket_def
        do_adopt_socket_def sample_serving_def store_def sample_config_def)
  note h = shard_history.task[OF h this]
  have s1: "shard_sessions (sample_serving s) = [(\<lparr>native_handle = 40, bound_loop = 1\<rparr>, s)]" for s
    by (simp add: sample_serving_def store_def)
  have p: "pending sample_open = [AwaitRequestRead]" "read_buf sample_open = Some (replicate 4 (CHR 0x00))"
    by (simp_all add: sample_open_eq)
  have "shard_history sample_engine sample_shard ([] @ []) (sample_serving sample_connecting)"
    by (rule shard_history.io_done[OF h, where j = 0 and c = AwaitRequestRead and x = "ReadDone Error_none ''GET''"])
      (use sample_serving_step[OF sample_connecting_step(1) p(1)] p s1 in simp_all)
  then have "shard_history sample_engine sample_shard (([] @ []) @ [7]) (sample_serving sample_writing)"
    by (rule shard_history.io_done[where j = 0 and c = AwaitAcquire and x = "AcquireDone Error_none (Some 7)"])
      (use sample_serving_step[OF sample_writing_step(1) sample_connecting_step(2)] sample_connecting_step(2) s1
        in simp_all)
  then show ?thesis by simp
qed

theorem upstream_connections_exclusive_witness:
  "{#7#} = idle_sockets (shard_upstreams (sample_serving sample_writing)) +
     (\<Sum>p\<leftarrow>shard_sessions (sample_serving sample_writing). held (snd p) + closed_sockets (io (snd p)))"
proof -
  have "upstreams sample_config \<noteq> []" by (simp add: sample_config_def)
  from upstream_connections_exclusive[OF this sample_history[unfolded sample_shard_def]] show ?thesis by simp
qed

end
