(* ===== verification/Boost_Adapters.thy ===== *)
theory Boost_Adapters
  imports Gateway_Shard
begin

text \<open>
  The adapters of \<open>src/net/boost/\<close>, which implement the interfaces of \<open>src/net/\<close> over Boost.Asio, and
  the callback type \<open>MoveOnlyFunction\<close> (\<open>src/util/move_only_function.hpp\<close>) they pass on. Asio itself
  is a parameter (record \<open>asio\<close>): how it parses and prints addresses, what a name lookup returns,
  whether descriptors and ports can be taken, and which descriptor a socket holds after the calls
  made on it. An adapter object records the calls it makes on its Asio object, in order. A method
  guarded by \<open>assert(is_owned_by_current_thread())\<close> is \<open>None\<close> where the assertion fails. Event loops
  are numbered; \<open>loops\<close> gives the state of each, and the number also names its \<open>io_context\<close>.
\<close>

section \<open>MoveOnlyFunction\<close>

text \<open>\<open>impl_\<close> is a null pointer or owns a function object; moving leaves null behind; calling
  dereferences it. A callback's result stands for what it does.\<close>

record ('x, 'r) MoveOnlyFunction =
  impl :: "('x \<Rightarrow> 'r) option"

definition mof_empty :: "('x, 'r) MoveOnlyFunction" where
  "mof_empty = \<lparr>impl = None\<rparr>"

definition mof_of :: "('x \<Rightarrow> 'r) \<Rightarrow> ('x, 'r) MoveOnlyFunction" where
  "mof_of f = \<lparr>impl = Some f\<rparr>"

text \<open>The moved-to and the moved-from object.\<close>

definition mof_move ::
  "('x, 'r) MoveOnlyFunction \<Rightarrow> ('x, 'r) MoveOnlyFunction \<times> ('x, 'r) MoveOnlyFunction" where
  "mof_move f = (\<lparr>impl = impl f\<rparr>, f\<lparr>impl := None\<rparr>)"

definition mof_call :: "('x, 'r) MoveOnlyFunction \<Rightarrow> 'x \<Rightarrow> 'r option" where
  "mof_call f x = (case impl f of None \<Rightarrow> None | Some g \<Rightarrow> Some (g x))"

definition mof_bool :: "('x, 'r) MoveOnlyFunction \<Rightarrow> bool" where
  "mof_bool f \<longleftrightarrow> impl f \<noteq> None"

section \<open>Error codes\<close>

record error_code =
  ec_value :: int
  ec_message :: string

definition ec_failed :: "error_code \<Rightarrow> bool" where
  "ec_failed ec \<longleftrightarrow> ec_value ec \<noteq> 0"

definition to_net_error :: "error_code \<Rightarrow> Error" where
  "to_net_error ec =
     (if \<not> ec_failed ec then Error_none
      else \<lparr>err_code = ec_value ec, err_message = ec_message ec\<rparr>)"

section \<open>Asio\<close>

text \<open>The calls on an Asio socket, from its construction on. \<open>Peer fd\<close> is a socket made by an
  acceptor, \<open>FromHandle fd\<close> one constructed from a native handle.\<close>

datatype 'a asio_call =
  Unopened | Peer nat | FromHandle nat | SetNoDelay | ConnectTo 'a "16 word" | ReadSome nat
| WriteAll byte_list | ShutdownBoth | CloseSocket | CancelAll | ReleaseHandle

record 'a asio =
  make_address :: "string \<Rightarrow> error_code \<times> 'a"
  address_to_string :: "'a \<Rightarrow> string"
  asio_lookup :: "string \<Rightarrow> string \<Rightarrow> error_code \<times> ('a \<times> 16 word) list"
  assign_throws :: "nat \<Rightarrow> bool"
  listen_throws :: "16 word \<Rightarrow> bool"
  handle_after :: "'a asio_call list \<Rightarrow> nat option"

text \<open>What the documentation of Asio says and the adapters rely on: printed addresses can be
  parsed, the empty string is not an address, a socket made from a descriptor holds it until it is
  closed or released, and \<open>set_option\<close> changes nothing about that.\<close>

definition addresses_documented :: "'a asio \<Rightarrow> bool" where
  "addresses_documented A \<longleftrightarrow>
     (\<forall>a. \<exists>ec. make_address A (address_to_string A a) = (ec, a) \<and> \<not> ec_failed ec) \<and>
     ec_failed (fst (make_address A []))"

definition handles_documented :: "'a asio \<Rightarrow> bool" where
  "handles_documented A \<longleftrightarrow>
     (\<forall>fd. handle_after A [Peer fd] = Some fd \<and> handle_after A [FromHandle fd] = Some fd) \<and>
     (\<forall>cs. handle_after A (cs @ [SetNoDelay]) = handle_after A cs \<and>
           handle_after A (cs @ [ReleaseHandle]) = None \<and> handle_after A (cs @ [CloseSocket]) = None)"

section \<open>Event loops\<close>

datatype 'k io_call = IoRun | IoStop | IoPost 'k

record 'k BoostEventLoop =
  loop_id :: nat
  has_run :: bool
  owner_thread_id :: nat
  work_guard :: bool
  io_calls :: "'k io_call list"

definition BoostEventLoop_new :: "nat \<Rightarrow> 'k BoostEventLoop" where
  "BoostEventLoop_new i =
     \<lparr>loop_id = i, has_run = False, owner_thread_id = 0, work_guard = True, io_calls = []\<rparr>"

definition create_event_loop :: "nat \<Rightarrow> 'k BoostEventLoop" where
  "create_event_loop i = BoostEventLoop_new i"

definition BoostEventLoop_run :: "nat \<Rightarrow> 'k BoostEventLoop \<Rightarrow> 'k BoostEventLoop" where
  "BoostEventLoop_run this_thread l =
     l\<lparr>owner_thread_id := this_thread, has_run := True, io_calls := io_calls l @ [IoRun]\<rparr>"

definition BoostEventLoop_stop :: "'k BoostEventLoop \<Rightarrow> 'k BoostEventLoop" where
  "BoostEventLoop_stop l = l\<lparr>work_guard := False, io_calls := io_calls l @ [IoStop]\<rparr>"

definition BoostEventLoop_post :: "'k \<Rightarrow> 'k BoostEventLoop \<Rightarrow> 'k BoostEventLoop" where
  "BoostEventLoop_post task l = l\<lparr>io_calls := io_calls l @ [IoPost task]\<rparr>"

definition is_current_thread :: "nat \<Rightarrow> 'k BoostEventLoop \<Rightarrow> bool" where
  "is_current_thread this_thread l \<longleftrightarrow> has_run l \<and> this_thread = owner_thread_id l"

section \<open>Sockets\<close>

text \<open>\<open>sock_owner\<close> is the reference to the event loop that the ownership check asks, \<open>sock_context\<close> the
  \<open>io_context\<close> on which Asio runs the completion handlers.\<close>

record 'a BoostSocket =
  sock_owner :: nat
  sock_context :: nat
  sock_calls :: "'a asio_call list"

definition does :: "'a asio_call \<Rightarrow> 'a BoostSocket \<Rightarrow> 'a BoostSocket" where
  "does c s = s\<lparr>sock_calls := sock_calls s @ [c]\<rparr>"

text \<open>The three constructors; the third throws if Asio cannot take the descriptor.\<close>

definition BoostSocket_new :: "nat \<Rightarrow> nat \<Rightarrow> 'a BoostSocket" where
  "BoostSocket_new owner io_context =
     \<lparr>sock_owner = owner, sock_context = io_context, sock_calls = [Unopened]\<rparr>"

definition BoostSocket_existing :: "nat \<Rightarrow> nat \<Rightarrow> nat \<Rightarrow> 'a BoostSocket" where
  "BoostSocket_existing owner peer_context fd =
     does SetNoDelay \<lparr>sock_owner = owner, sock_context = peer_context, sock_calls = [Peer fd]\<rparr>"

definition BoostSocket_from_fd :: "'a asio \<Rightarrow> nat \<Rightarrow> nat \<Rightarrow> nat \<Rightarrow> 'a BoostSocket option" where
  "BoostSocket_from_fd A owner io_context native_fd =
     (if assign_throws A native_fd then None
      else Some (does SetNoDelay
        \<lparr>sock_owner = owner, sock_context = io_context, sock_calls = [FromHandle native_fd]\<rparr>))"

definition is_owned_by_current_thread ::
  "nat \<Rightarrow> (nat \<Rightarrow> 'k BoostEventLoop) \<Rightarrow> 'a BoostSocket \<Rightarrow> bool" where
  "is_owned_by_current_thread this_thread loops s = is_current_thread this_thread (loops (sock_owner s))"

text \<open>\<open>async_connect\<close> calls back before it returns if the address does not parse; otherwise it hands
  Asio a completion handler. \<open>connect_handler\<close> is that handler.\<close>

datatype ('r, 'h) started = CalledBack 'r | Started 'h

definition connect_handler ::
  "(Error, 'r) MoveOnlyFunction \<Rightarrow> error_code \<Rightarrow> 'a BoostSocket \<Rightarrow> 'a BoostSocket \<times> 'r option" where
  "connect_handler cb ec s =
     (let s' = (if \<not> ec_failed ec then does SetNoDelay s else s) in (s', mof_call cb (to_net_error ec)))"

definition BoostSocket_async_connect ::
  "'a asio \<Rightarrow> nat \<Rightarrow> (nat \<Rightarrow> 'k BoostEventLoop) \<Rightarrow> Endpoint \<Rightarrow> (Error, 'r) MoveOnlyFunction \<Rightarrow> 'a BoostSocket
     \<Rightarrow> ('a BoostSocket \<times> ('r option, error_code \<Rightarrow> 'a BoostSocket \<Rightarrow> 'a BoostSocket \<times> 'r option) started) option" where
  "BoostSocket_async_connect A this_thread loops endpoint cb s =
     (if \<not> is_owned_by_current_thread this_thread loops s then None
      else let (parse_ec, address) = make_address A (host endpoint) in
        if ec_failed parse_ec then Some (s, CalledBack (mof_call cb (to_net_error parse_ec)))
        else Some (does (ConnectTo address (port endpoint)) s, Started (connect_handler cb)))"

text \<open>The handler given to Asio by reads and writes: what the caller's callback receives.\<close>

definition io_handler :: "(Error \<times> nat, 'r) MoveOnlyFunction \<Rightarrow> error_code \<Rightarrow> nat \<Rightarrow> 'r option" where
  "io_handler cb ec n = mof_call cb (to_net_error ec, n)"

definition guarded ::
  "nat \<Rightarrow> (nat \<Rightarrow> 'k BoostEventLoop) \<Rightarrow> 'a asio_call \<Rightarrow> 'a BoostSocket \<Rightarrow> 'a BoostSocket option" where
  "guarded this_thread loops c s =
     (if is_owned_by_current_thread this_thread loops s then Some (does c s) else None)"

definition BoostSocket_async_read_some ::
  "nat \<Rightarrow> (nat \<Rightarrow> 'k BoostEventLoop) \<Rightarrow> nat \<Rightarrow> (Error \<times> nat, 'r) MoveOnlyFunction \<Rightarrow> 'a BoostSocket
     \<Rightarrow> ('a BoostSocket \<times> (error_code \<Rightarrow> nat \<Rightarrow> 'r option)) option" where
  "BoostSocket_async_read_some this_thread loops buf_size cb s =
     map_option (\<lambda>s'. (s', io_handler cb)) (guarded this_thread loops (ReadSome buf_size) s)"

definition BoostSocket_async_write ::
  "nat \<Rightarrow> (nat \<Rightarrow> 'k BoostEventLoop) \<Rightarrow> byte_list \<Rightarrow> (Error \<times> nat, 'r) MoveOnlyFunction \<Rightarrow> 'a BoostSocket
     \<Rightarrow> ('a BoostSocket \<times> (error_code \<Rightarrow> nat \<Rightarrow> 'r option)) option" where
  "BoostSocket_async_write this_thread loops bytes cb s =
     map_option (\<lambda>s'. (s', io_handler cb)) (guarded this_thread loops (WriteAll bytes) s)"

definition BoostSocket_shutdown ::
  "nat \<Rightarrow> (nat \<Rightarrow> 'k BoostEventLoop) \<Rightarrow> 'a BoostSocket \<Rightarrow> 'a BoostSocket option" where
  "BoostSocket_shutdown this_thread loops s = guarded this_thread loops ShutdownBoth s"

definition BoostSocket_close ::
  "nat \<Rightarrow> (nat \<Rightarrow> 'k BoostEventLoop) \<Rightarrow> 'a BoostSocket \<Rightarrow> 'a BoostSocket option" where
  "BoostSocket_close this_thread loops s = guarded this_thread loops CloseSocket s"

definition BoostSocket_cancel ::
  "nat \<Rightarrow> (nat \<Rightarrow> 'k BoostEventLoop) \<Rightarrow> 'a BoostSocket \<Rightarrow> 'a BoostSocket option" where
  "BoostSocket_cancel this_thread loops s = guarded this_thread loops CancelAll s"

definition BoostSocket_is_open :: "'a asio \<Rightarrow> 'a BoostSocket \<Rightarrow> bool" where
  "BoostSocket_is_open A s \<longleftrightarrow> handle_after A (sock_calls s) \<noteq> None"

text \<open>\<open>release\<close> throws if the socket is not open.\<close>

definition release_native_handle :: "'a asio \<Rightarrow> 'a BoostSocket \<Rightarrow> (nat \<times> 'a BoostSocket) option" where
  "release_native_handle A s =
     (case handle_after A (sock_calls s) of None \<Rightarrow> None | Some fd \<Rightarrow> Some (fd, does ReleaseHandle s))"

section \<open>Acceptors, timers and resolvers\<close>

record BoostAcceptor =
  acc_owner :: nat
  acc_context :: nat
  acc_port :: "16 word"
  acc_waiting :: nat
  acc_open :: bool

definition BoostAcceptor_new :: "'a asio \<Rightarrow> nat \<Rightarrow> nat \<Rightarrow> 16 word \<Rightarrow> BoostAcceptor option" where
  "BoostAcceptor_new A owner io_context p =
     (if listen_throws A p then None
      else Some \<lparr>acc_owner = owner, acc_context = io_context, acc_port = p, acc_waiting = 0, acc_open = True\<rparr>)"

definition BoostAcceptor_async_accept :: "BoostAcceptor \<Rightarrow> BoostAcceptor" where
  "BoostAcceptor_async_accept acc = acc\<lparr>acc_waiting := acc_waiting acc + 1\<rparr>"

text \<open>The completion handler: what the caller's callback receives. The peer socket that Asio
  makes lives on the acceptor's \<open>io_context\<close>.\<close>

definition accept_handler ::
  "(Error \<times> 'a BoostSocket option, 'r) MoveOnlyFunction \<Rightarrow> error_code \<Rightarrow> nat \<Rightarrow> BoostAcceptor
     \<Rightarrow> BoostAcceptor \<times> 'r option" where
  "accept_handler cb ec fd acc =
     (acc\<lparr>acc_waiting := acc_waiting acc - 1\<rparr>,
      if ec_failed ec then mof_call cb (to_net_error ec, None)
      else mof_call cb (Error_none, Some (BoostSocket_existing (acc_owner acc) (acc_context acc) fd)))"

definition BoostAcceptor_close :: "BoostAcceptor \<Rightarrow> BoostAcceptor" where
  "BoostAcceptor_close acc = acc\<lparr>acc_open := False\<rparr>"

datatype timer_call = TimerExpiresAfter nat | TimerAsyncWait | TimerCancel

record BoostTimer =
  timer_context :: nat
  timer_calls :: "timer_call list"

definition BoostTimer_new :: "nat \<Rightarrow> BoostTimer" where
  "BoostTimer_new io_context = \<lparr>timer_context = io_context, timer_calls = []\<rparr>"

definition BoostTimer_expires_after :: "nat \<Rightarrow> BoostTimer \<Rightarrow> BoostTimer" where
  "BoostTimer_expires_after d t = t\<lparr>timer_calls := timer_calls t @ [TimerExpiresAfter d]\<rparr>"

definition BoostTimer_async_wait ::
  "(Error, 'r) MoveOnlyFunction \<Rightarrow> BoostTimer \<Rightarrow> BoostTimer \<times> (error_code \<Rightarrow> 'r option)" where
  "BoostTimer_async_wait cb t =
     (t\<lparr>timer_calls := timer_calls t @ [TimerAsyncWait]\<rparr>, \<lambda>ec. mof_call cb (to_net_error ec))"

definition BoostTimer_cancel :: "BoostTimer \<Rightarrow> BoostTimer" where
  "BoostTimer_cancel t = t\<lparr>timer_calls := timer_calls t @ [TimerCancel]\<rparr>"

definition BoostResolver_resolve :: "'a asio \<Rightarrow> resolver" where
  "BoostResolver_resolve A h p =
     (let (ec, results) = asio_lookup A h (to_string (unat p)) in
      if ec_failed ec then (to_net_error ec, [])
      else (Error_none, map (\<lambda>(a, q). \<lparr>host = address_to_string A a, port = q\<rparr>) results))"

section \<open>The event loop as factory\<close>

definition create_socket :: "'k BoostEventLoop \<Rightarrow> 'a BoostSocket" where
  "create_socket l = BoostSocket_new (loop_id l) (loop_id l)"

definition create_acceptor :: "'a asio \<Rightarrow> 16 word \<Rightarrow> 'k BoostEventLoop \<Rightarrow> BoostAcceptor option" where
  "create_acceptor A p l = BoostAcceptor_new A (loop_id l) (loop_id l) p"

definition create_resolver :: "'a asio \<Rightarrow> resolver" where
  "create_resolver A = BoostResolver_resolve A"

definition create_timer :: "'k BoostEventLoop \<Rightarrow> BoostTimer" where
  "create_timer l = BoostTimer_new (loop_id l)"

text \<open>The foreign socket after its handle was released, and the socket rebuilt from the handle.\<close>

definition BoostEventLoop_do_adopt_socket ::
  "'a asio \<Rightarrow> 'a BoostSocket \<Rightarrow> 'k BoostEventLoop \<Rightarrow> ('a BoostSocket \<times> 'a BoostSocket) option" where
  "BoostEventLoop_do_adopt_socket A foreign_socket l =
     do { (fd, dead) \<leftarrow> release_native_handle A foreign_socket;
          s \<leftarrow> BoostSocket_from_fd A (loop_id l) (loop_id l) fd;
          Some (dead, s) }"

section \<open>Connecting an upstream over the adapters\<close>

text \<open>\<open>UpstreamManager::connect_fresh\<close> with these adapters: the new socket and the race of
  \<open>Net_Core\<close> after \<open>start_op\<close> has returned.\<close>

definition connect_over ::
  "'a asio \<Rightarrow> nat \<Rightarrow> (nat \<Rightarrow> 'k BoostEventLoop) \<Rightarrow> 'k BoostEventLoop \<Rightarrow> Endpoint \<Rightarrow> nat
     \<Rightarrow> ('a BoostSocket \<times> race) option" where
  "connect_over A this_thread loops l target timeout =
     (let r = race_with_timeout timeout in
      case BoostSocket_async_connect A this_thread loops target (mof_of (\<lambda>err. race_on_op err r)) (create_socket l) of
        None \<Rightarrow> None
      | Some (s, CalledBack r') \<Rightarrow> map_option (Pair s) r'
      | Some (s, Started h) \<Rightarrow> Some (s, r))"

section \<open>The contract of sockets\<close>

text \<open>\<open>ISocket\<close> (\<open>src/net/socket.hpp\<close>) asks every implementation to check in each operation that
  the calling thread owns the socket. A client then gets through any sequence of operations on a
  socket it owns, and not even through the first on another.\<close>

fun run_ops :: "('o \<Rightarrow> 's \<Rightarrow> 's option) \<Rightarrow> 'o list \<Rightarrow> 's \<Rightarrow> 's option" where
  "run_ops f [] s = Some s"
| "run_ops f (x # xs) s = Option.bind (f x s) (run_ops f xs)"

locale owned_socket =
  fixes owned :: "'s \<Rightarrow> bool" and perform :: "'o \<Rightarrow> 's \<Rightarrow> 's option"
  assumes owner_passes: "owned s \<Longrightarrow> \<exists>s'. perform x s = Some s' \<and> owned s'"
    and others_stopped: "\<not> owned s \<Longrightarrow> perform x s = None"
begin

lemma run_ops_owner: "owned s \<Longrightarrow> \<exists>s'. run_ops perform xs s = Some s' \<and> owned s'"
proof (induction xs arbitrary: s)
  case (Cons x xs)
  from owner_passes[OF Cons.prems, of x] Cons.IH show ?case by fastforce
qed simp

lemma run_ops_stopped: "\<not> owned s \<Longrightarrow> xs \<noteq> [] \<Longrightarrow> run_ops perform xs s = None"
  by (cases xs) (simp_all add: others_stopped)

end

datatype socket_op =
  OpConnect Endpoint | OpRead nat | OpWrite byte_list | OpShutdown | OpClose | OpCancel

fun boost_perform ::
  "'a asio \<Rightarrow> nat \<Rightarrow> (nat \<Rightarrow> 'k BoostEventLoop) \<Rightarrow> socket_op \<Rightarrow> 'a BoostSocket \<Rightarrow> 'a BoostSocket option" where
  "boost_perform A t loops (OpConnect ep) s =
     map_option fst (BoostSocket_async_connect A t loops ep (mof_of (\<lambda>_. ())) s)"
| "boost_perform A t loops (OpRead n) s =
     map_option fst (BoostSocket_async_read_some t loops n (mof_of (\<lambda>_. ())) s)"
| "boost_perform A t loops (OpWrite bs) s =
     map_option fst (BoostSocket_async_write t loops bs (mof_of (\<lambda>_. ())) s)"
| "boost_perform A t loops OpShutdown s = BoostSocket_shutdown t loops s"
| "boost_perform A t loops OpClose s = BoostSocket_close t loops s"
| "boost_perform A t loops OpCancel s = BoostSocket_cancel t loops s"

lemmas boost_socket_defs = BoostSocket_async_connect_def BoostSocket_async_read_some_def
  BoostSocket_async_write_def BoostSocket_shutdown_def BoostSocket_close_def BoostSocket_cancel_def guarded_def

lemma owned_does [simp]:
  "is_owned_by_current_thread t loops (does c s) = is_owned_by_current_thread t loops s"
  "sock_calls (does c s) = sock_calls s @ [c]" "sock_owner (does c s) = sock_owner s"
  "sock_context (does c s) = sock_context s"
  by (simp_all add: is_owned_by_current_thread_def does_def)

interpretation boost_socket: owned_socket "is_owned_by_current_thread t loops" "boost_perform A t loops"
  for A :: "'a asio" and t and loops :: "nat \<Rightarrow> 'k BoostEventLoop"
proof
  fix s :: "'a BoostSocket" and x
  show "\<exists>s'. boost_perform A t loops x s = Some s' \<and> is_owned_by_current_thread t loops s'"
    if "is_owned_by_current_thread t loops s"
    using that by (cases x) (auto simp: boost_socket_defs split: prod.splits)
  show "boost_perform A t loops x s = None" if "\<not> is_owned_by_current_thread t loops s"
    using that by (cases x) (simp_all add: boost_socket_defs)
qed

section \<open>Properties\<close>

lemma to_net_error_ok [simp]: "Error_ok (to_net_error ec) \<longleftrightarrow> \<not> ec_failed ec"
  by (simp add: to_net_error_def Error_ok_def Error_none_def ec_failed_def)

lemma mof_call_of [simp]: "mof_call (mof_of f) x = Some (f x)"
  by (simp add: mof_call_def mof_of_def)

text \<open>A callback that was moved away must not be called; the object it was moved to behaves as it did.\<close>

lemma mof_move_call:
  "mof_call (fst (mof_move f)) x = mof_call f x" "mof_call (snd (mof_move f)) x = None"
  "mof_bool f \<longleftrightarrow> (\<forall>x. mof_call f x \<noteq> None)"
  by (auto simp: mof_move_def mof_call_def mof_bool_def split: option.splits)

text \<open>No thread owns a loop before \<open>run\<close>; then the thread that called it does, also after \<open>stop\<close>.\<close>

lemma is_current_thread_simps [simp]:
  "\<not> is_current_thread t (create_event_loop i)"
  "is_current_thread t (BoostEventLoop_run t' l) \<longleftrightarrow> t = t'"
  "is_current_thread t (BoostEventLoop_stop l) = is_current_thread t l"
  "is_current_thread t (BoostEventLoop_post k l) = is_current_thread t l"
  by (simp_all add: is_current_thread_def create_event_loop_def BoostEventLoop_new_def BoostEventLoop_run_def
      BoostEventLoop_stop_def BoostEventLoop_post_def)

text \<open>A socket as the shard model sees it: its descriptor, and the loop its completions run on.\<close>

definition as_loop_socket :: "'a asio \<Rightarrow> 'a BoostSocket \<Rightarrow> loop_socket" where
  "as_loop_socket A s =
     \<lparr>native_handle = the (handle_after A (sock_calls s)), bound_loop = sock_context s\<rparr>"

lemma adopt_existing:
  assumes "handles_documented A" "\<not> assign_throws A fd"
  shows "BoostEventLoop_do_adopt_socket A (BoostSocket_existing li li fd) l =
    Some (does ReleaseHandle (BoostSocket_existing li li fd),
      does SetNoDelay \<lparr>sock_owner = loop_id l, sock_context = loop_id l, sock_calls = [FromHandle fd]\<rparr>)"
proof -
  have "handle_after A ([Peer fd] @ [SetNoDelay]) = Some fd"
    using assms(1) unfolding handles_documented_def by metis
  with assms(2) show ?thesis
    by (simp add: BoostEventLoop_do_adopt_socket_def release_native_handle_def BoostSocket_existing_def
        BoostSocket_from_fd_def does_def)
qed

text \<open>C17. Adoption moves a connection to the shard, and is needed. Let the listener's acceptor
  accept a connection, and let \<open>t\<close> be the thread that runs the shard's loop and not the listener's.
  On \<open>t\<close>, every operation on the accepted socket itself fails its ownership check. Adopting it on
  the shard's loop leaves the old socket closed and gives one on which every sequence of
  operations passes its checks on \<open>t\<close>, which exactly the shard's thread owns, and which has the
  same descriptor, now bound to the shard's loop: what \<open>Gateway_Shard.do_adopt_socket\<close> says.\<close>

theorem adoption_rebinds:
  fixes A :: "'a asio"
  assumes "handles_documented A" "\<not> assign_throws A fd"
    and "\<And>i. loop_id (loops i) = i"
    and "create_acceptor A p (loops li) = Some acc" "\<not> ec_failed ec"
    and "is_current_thread t (loops wi)" "\<not> is_current_thread t (loops li)"
  shows "\<exists>s dead s'. snd (accept_handler (mof_of id) ec fd acc) = Some (Error_none, Some s) \<and>
     (\<forall>ops. ops \<noteq> [] \<longrightarrow> run_ops (boost_perform A t loops) ops s = None) \<and>
     BoostEventLoop_do_adopt_socket A s (loops wi) = Some (dead, s') \<and> \<not> BoostSocket_is_open A dead \<and>
     (\<forall>ops. \<exists>s''. run_ops (boost_perform A t loops) ops s' = Some s'') \<and>
     (\<forall>t'. is_owned_by_current_thread t' loops s' \<longleftrightarrow> is_current_thread t' (loops wi)) \<and>
     as_loop_socket A s' = do_adopt_socket wi (as_loop_socket A s)"
proof -
  let ?s = "BoostSocket_existing li li fd :: 'a BoostSocket"
  let ?s' = "does SetNoDelay \<lparr>sock_owner = wi, sock_context = wi, sock_calls = [FromHandle fd]\<rparr>
      :: 'a BoostSocket"
  note law = assms(1)[unfolded handles_documented_def]
  have acc: "acc_owner acc = li" "acc_context acc = li"
    using assms(3,4) by (auto simp: create_acceptor_def BoostAcceptor_new_def split: if_splits)
  have h: "handle_after A ([Peer fd] @ [SetNoDelay]) = Some fd"
    "handle_after A ([FromHandle fd] @ [SetNoDelay]) = Some fd"
    using law by metis+
  have own: "\<not> is_owned_by_current_thread t loops ?s"
    "is_owned_by_current_thread t' loops ?s' \<longleftrightarrow> is_current_thread t' (loops wi)" for t'
    using assms(7) by (simp_all add: is_owned_by_current_thread_def BoostSocket_existing_def)
  have "as_loop_socket A ?s' = do_adopt_socket wi (as_loop_socket A ?s)"
    using h by (simp add: as_loop_socket_def do_adopt_socket_def BoostSocket_existing_def)
  moreover have "\<not> BoostSocket_is_open A (does ReleaseHandle ?s)"
    using law by (simp add: BoostSocket_is_open_def)
  moreover have "\<exists>s''. run_ops (boost_perform A t loops) ops ?s' = Some s''" for ops
    using boost_socket.run_ops_owner own(2) assms(6) by blast
  ultimately show ?thesis
    using adopt_existing[OF assms(1,2), of li "loops wi"] assms(3,5) acc own
      boost_socket.run_ops_stopped[OF own(1)]
    by - (rule exI[of _ ?s], rule exI[of _ "does ReleaseHandle ?s"], rule exI[of _ ?s'],
        simp add: accept_handler_def)
qed

text \<open>A library that knows one name: addresses are strings, printed with a mark in front.\<close>

definition sample_handle :: "string asio_call list \<Rightarrow> nat option" where
  "sample_handle cs = fold (\<lambda>c h. case c of Peer fd \<Rightarrow> Some fd | FromHandle fd \<Rightarrow> Some fd
     | ReleaseHandle \<Rightarrow> None | CloseSocket \<Rightarrow> None | _ \<Rightarrow> h) cs None"

definition sample_asio :: "string asio" where
  "sample_asio =
     \<lparr>make_address = (\<lambda>h. (\<lparr>ec_value = (if h = [] then 22 else 0), ec_message = ''Invalid argument''\<rparr>, tl h)),
      address_to_string = (\<lambda>a. CHR ''@'' # a),
      asio_lookup = (\<lambda>h p. if h = ''backend'' then (\<lparr>ec_value = 0, ec_message = []\<rparr>, [(''10.0.0.1'', 9000)])
                            else (\<lparr>ec_value = 1, ec_message = ''Host not found''\<rparr>, [])),
      assign_throws = (\<lambda>fd. False), listen_throws = (\<lambda>p. p < 1024), handle_after = sample_handle\<rparr>"

lemma sample_asio_handles: "handles_documented sample_asio"
  by (simp add: handles_documented_def sample_asio_def sample_handle_def)

definition sample_loops :: "nat \<Rightarrow> unit BoostEventLoop" where
  "sample_loops i = BoostEventLoop_run (i + 100) (create_event_loop i)"

lemma sample_loops_simps [simp]:
  "loop_id (sample_loops i) = i" "is_current_thread t (sample_loops i) \<longleftrightarrow> t = i + 100"
proof -
  show "loop_id (sample_loops i) = i"
    by (simp add: sample_loops_def BoostEventLoop_run_def create_event_loop_def BoostEventLoop_new_def)
qed (simp add: sample_loops_def)

theorem adoption_rebinds_witness:
  "\<exists>s dead s'. BoostEventLoop_do_adopt_socket sample_asio s (sample_loops 1) = Some (dead, s') \<and>
     run_ops (boost_perform sample_asio 101 sample_loops) [OpRead 10] s = None \<and>
     as_loop_socket sample_asio s' = do_adopt_socket 1 (as_loop_socket sample_asio s)"
proof -
  have "create_acceptor sample_asio 8080 (sample_loops 0) =
      Some \<lparr>acc_owner = 0, acc_context = 0, acc_port = 8080, acc_waiting = 0, acc_open = True\<rparr>"
    by (simp add: create_acceptor_def BoostAcceptor_new_def sample_asio_def)
  from adoption_rebinds[where A = sample_asio and loops = sample_loops and li = 0 and wi = 1 and t = 101
      and fd = 7 and ec = "\<lparr>ec_value = 0, ec_message = []\<rparr>", OF sample_asio_handles _ _ this]
  obtain s dead s' where "BoostEventLoop_do_adopt_socket sample_asio s (sample_loops 1) = Some (dead, s')"
    "\<forall>ops. ops \<noteq> [] \<longrightarrow> run_ops (boost_perform sample_asio 101 sample_loops) ops s = None"
    "as_loop_socket sample_asio s' = do_adopt_socket 1 (as_loop_socket sample_asio s)"
    by (auto simp: ec_failed_def sample_asio_def)
  then show ?thesis by blast
qed

lemma start_resolves:
  assumes "i < length (upstreams cfg)"
  shows "connect_fresh i (fst (UpstreamManager_start resolve (UpstreamManager_new cfg))) =
    Some (Connecting
      (let (err, results) = resolve (cfg_host (upstreams cfg ! i)) (cfg_port (upstreams cfg ! i)) in
       if \<not> Error_ok err \<or> results = [] then Endpoint_init else hd results)
      (connect_timeout_seconds cfg))"
  using assms
  by (simp add: connect_fresh_def UpstreamManager_start_def Let_def resolve_all_def UpstreamManager_new_def
      resolve_endpoint_def split: prod.splits)

text \<open>C27. What the resolver finds can be connected to, and what it does not find fails cleanly. After
  the shard's first resolution, on the shard's thread: if the lookup of the \<open>i\<close>-th upstream's host
  and port succeeds with at least one entry, a fresh connection is attempted to exactly the first
  entry's address and port, and the race with the timeout is on. If it fails or finds nothing, the
  attempt ends before \<open>connect_fresh\<close> returns: nothing was asked of the network, the caller is
  told an error, and told nothing more whatever the timer does.\<close>

theorem upstream_connects_or_fails:
  fixes A :: "'a asio"
  assumes "addresses_documented A" "i < length (upstreams cfg)"
    and "is_current_thread t (loops w)" "\<And>k. loop_id (loops k) = k"
    and "asio_lookup A (cfg_host (upstreams cfg ! i)) (to_string (unat (cfg_port (upstreams cfg ! i)))) =
           (ec, results)"
  shows "\<exists>target timeout s r.
     connect_fresh i (fst (UpstreamManager_start (create_resolver A) (UpstreamManager_new cfg))) =
       Some (Connecting target timeout) \<and>
     connect_over A t loops (loops w) target timeout = Some (s, r) \<and>
     (if \<not> ec_failed ec \<and> results \<noteq> []
      then sock_calls s = [Unopened, ConnectTo (fst (hd results)) (snd (hd results))] \<and>
           r = race_with_timeout (connect_timeout_seconds cfg)
      else sock_calls s = [Unopened] \<and>
           (\<exists>e. \<not> Error_ok e \<and> on_done_calls r = [e] \<and> (\<forall>e'. on_done_calls (race_on_timer e' r) = [e])))"
proof -
  let ?timeout = "connect_timeout_seconds cfg"
  have own: "is_owned_by_current_thread t loops (create_socket (loops w) :: 'a BoostSocket)"
    using assms(3,4) by (simp add: is_owned_by_current_thread_def create_socket_def BoostSocket_new_def)
  have res: "create_resolver A (cfg_host (upstreams cfg ! i)) (cfg_port (upstreams cfg ! i)) =
      (if ec_failed ec then (to_net_error ec, [])
       else (Error_none, map (\<lambda>(a, q). \<lparr>host = address_to_string A a, port = q\<rparr>) results))"
    using assms(5) by (simp add: create_resolver_def BoostResolver_resolve_def)
  show ?thesis
  proof (cases "\<not> ec_failed ec \<and> results \<noteq> []")
    case True
    then obtain a q rest where r: "results = (a, q) # rest" by (cases results) auto
    obtain ec' where "make_address A (address_to_string A a) = (ec', a)" "\<not> ec_failed ec'"
      using assms(1) by (auto simp: addresses_documented_def)
    with own have "connect_over A t loops (loops w) \<lparr>host = address_to_string A a, port = q\<rparr> ?timeout =
        Some (does (ConnectTo a q) (create_socket (loops w)), race_with_timeout ?timeout)"
      by (simp add: connect_over_def BoostSocket_async_connect_def)
    with True r show ?thesis
      by (simp add: start_resolves[OF assms(2)] res Error_ok_def Error_none_def create_socket_def BoostSocket_new_def)
  next
    case False
    obtain pe a where pe: "make_address A [] = (pe, a)" "ec_failed pe"
      using assms(1) by (cases "make_address A []") (auto simp: addresses_documented_def)
    let ?r = "race_on_op (to_net_error pe) (race_with_timeout ?timeout)"
    have "connect_over A t loops (loops w) Endpoint_init ?timeout = Some (create_socket (loops w), ?r)"
      using own pe by (simp add: connect_over_def BoostSocket_async_connect_def Endpoint_init_def)
    moreover have "connect_fresh i (fst (UpstreamManager_start (create_resolver A) (UpstreamManager_new cfg))) =
        Some (Connecting Endpoint_init ?timeout)"
      using False by (auto simp: start_resolves[OF assms(2)] res)
    moreover have "on_done_calls ?r = [to_net_error pe]" "on_done_calls (race_on_timer e' ?r) = [to_net_error pe]" for e'
      by (simp_all add: on_done_calls_def race_on_op_def race_on_timer_def race_with_timeout_def Let_def map_filter_def)
    ultimately show ?thesis
      using False pe(2) by (auto simp: create_socket_def BoostSocket_new_def intro: exI[of _ "to_net_error pe"])
  qed
qed

definition sample_upstreams :: Config where
  "sample_upstreams = (Config_default 8)\<lparr>upstreams :=
     [\<lparr>cfg_host = ''backend'', cfg_port = 9000\<rparr>, \<lparr>cfg_host = ''nowhere'', cfg_port = 80\<rparr>]\<rparr>"

theorem upstream_connects_or_fails_witness:
  "(\<exists>target timeout s r. connect_over sample_asio 101 sample_loops (sample_loops 1) target timeout = Some (s, r) \<and>
      sock_calls s = [Unopened, ConnectTo ''10.0.0.1'' 9000]) \<and>
   (\<exists>target timeout s r e. connect_over sample_asio 101 sample_loops (sample_loops 1) target timeout = Some (s, r) \<and>
      sock_calls s = [Unopened] \<and> on_done_calls r = [e] \<and> \<not> Error_ok e)"
proof -
  have law: "addresses_documented sample_asio"
    by (simp add: addresses_documented_def sample_asio_def ec_failed_def)
  let ?u = "upstreams sample_upstreams"
  have found: "asio_lookup sample_asio (cfg_host (?u ! 0)) (to_string (unat (cfg_port (?u ! 0)))) =
      (\<lparr>ec_value = 0, ec_message = []\<rparr>, [(''10.0.0.1'', 9000)])"
    and lost: "asio_lookup sample_asio (cfg_host (?u ! 1)) (to_string (unat (cfg_port (?u ! 1)))) =
      (\<lparr>ec_value = 1, ec_message = ''Host not found''\<rparr>, [])"
    by (simp_all add: sample_asio_def sample_upstreams_def)
  have n: "0 < length ?u" "1 < length ?u" by (simp_all add: sample_upstreams_def)
  have t: "is_current_thread 101 (sample_loops 1)" "loop_id (sample_loops k) = k" for k by simp_all
  note applied = upstream_connects_or_fails[where loops = sample_loops and w = 1 and t = 101, OF law _ t]
  show ?thesis
  proof (rule conjI, goal_cases)
    case 1
    from applied[OF n(1) found] show ?case by (auto simp: ec_failed_def)
  next
    case 2
    from applied[OF n(2) lost] show ?case unfolding ec_failed_def by simp blast
  qed
qed

end
