(* ===== verification/Connect_Attempt.thy ===== *)
theory Connect_Attempt
  imports Boost_Adapters
begin

text \<open>
  One fresh upstream connection, from \<open>UpstreamManager::connect_fresh\<close> (\<open>src/upstream/\<close>) through
  \<open>race_with_timeout\<close> (\<open>src/net/\<close>) down to the socket and timer adapters (\<open>src/net/boost/\<close>). The race of
  \<open>Net_Core\<close> decides; what it does to the timer, the socket and the caller is carried out on the
  adapters, in order. The timer's and the connect's handlers run in either order on the shard's
  thread, with any outcome.
\<close>

section \<open>State and effects\<close>

text \<open>\<open>told\<close> is what the caller's callback received.\<close>

record 'a attempt =
  at_race :: race
  at_timer :: BoostTimer
  at_socket :: "'a BoostSocket"
  told :: "(Error \<times> 'a BoostSocket option) list"

text \<open>The lambdas of \<open>connect_fresh\<close>: \<open>cancel_connecting\<close> and \<open>deliver_result\<close>, and the calls of the race
  on its timer. \<open>StartOp\<close> is \<open>start_connecting\<close>, carried out by \<open>attempt_start\<close>.\<close>

fun perform_effect ::
  "nat \<Rightarrow> (nat \<Rightarrow> 'k BoostEventLoop) \<Rightarrow> race_effect \<Rightarrow> 'a attempt \<Rightarrow> 'a attempt option" where
  "perform_effect t loops (ExpiresAfter d) a = Some (a\<lparr>at_timer := BoostTimer_expires_after d (at_timer a)\<rparr>)"
| "perform_effect t loops AsyncWait a = Some (a\<lparr>at_timer := fst (BoostTimer_async_wait (mof_of (\<lambda>_. ())) (at_timer a))\<rparr>)"
| "perform_effect t loops StartOp a = Some a"
| "perform_effect t loops CancelOp a =
     map_option (\<lambda>s. a\<lparr>at_socket := s\<rparr>) (BoostSocket_cancel t loops (at_socket a))"
| "perform_effect t loops CancelTimer a = Some (a\<lparr>at_timer := BoostTimer_cancel (at_timer a)\<rparr>)"
| "perform_effect t loops (OnDone err) a =
     Some (a\<lparr>told := told a @ [if \<not> Error_ok err then (err, None) else (Error_none, Some (at_socket a))]\<rparr>)"

text \<open>A handler moves the race on and the new effects are carried out.\<close>

definition advance ::
  "nat \<Rightarrow> (nat \<Rightarrow> 'k BoostEventLoop) \<Rightarrow> (race \<Rightarrow> race) \<Rightarrow> 'a attempt \<Rightarrow> 'a attempt option" where
  "advance t loops f a =
     (let r' = f (at_race a)
      in run_ops (perform_effect t loops) (drop (length (race_effects (at_race a))) (race_effects r'))
           (a\<lparr>at_race := r'\<rparr>))"

definition on_timer :: "nat \<Rightarrow> (nat \<Rightarrow> 'k BoostEventLoop) \<Rightarrow> error_code \<Rightarrow> 'a attempt \<Rightarrow> 'a attempt option" where
  "on_timer t loops ec a = advance t loops (race_on_timer (to_net_error ec)) a"

text \<open>The connect's handler first disables Nagle's algorithm on a connected socket.\<close>

definition on_connect :: "nat \<Rightarrow> (nat \<Rightarrow> 'k BoostEventLoop) \<Rightarrow> error_code \<Rightarrow> 'a attempt \<Rightarrow> 'a attempt option" where
  "on_connect t loops ec a =
     (let s = fst (connect_handler (mof_of (\<lambda>_. ())) ec (at_socket a))
      in advance t loops (race_on_op (to_net_error ec)) (a\<lparr>at_socket := s\<rparr>))"

definition attempt_start ::
  "'a asio \<Rightarrow> nat \<Rightarrow> (nat \<Rightarrow> 'k BoostEventLoop) \<Rightarrow> 'k BoostEventLoop \<Rightarrow> Endpoint \<Rightarrow> nat \<Rightarrow> 'a attempt option" where
  "attempt_start A t loops l target timeout =
     do { (s, r) \<leftarrow> connect_over A t loops l target timeout;
          run_ops (perform_effect t loops) (race_effects r)
            \<lparr>at_race = r, at_timer = create_timer l, at_socket = s, told = []\<rparr> }"

inductive attempt_step ::
  "nat \<Rightarrow> (nat \<Rightarrow> 'k BoostEventLoop) \<Rightarrow> 'a attempt \<Rightarrow> 'a attempt \<Rightarrow> bool" for t loops where
  timer: "timer_waiting (at_race a) \<Longrightarrow> on_timer t loops ec a = Some a' \<Longrightarrow> attempt_step t loops a a'"
| connect: "op_running (at_race a) \<Longrightarrow> on_connect t loops ec a = Some a' \<Longrightarrow> attempt_step t loops a a'"

inductive attempt_reachable ::
  "nat \<Rightarrow> (nat \<Rightarrow> 'k BoostEventLoop) \<Rightarrow> 'a attempt \<Rightarrow> 'a attempt \<Rightarrow> bool" for t loops a0 where
  begins: "attempt_reachable t loops a0 a0"
| step: "attempt_reachable t loops a0 a \<Longrightarrow> attempt_step t loops a a' \<Longrightarrow> attempt_reachable t loops a0 a'"

section \<open>Invariant\<close>

text \<open>The outcomes: still open, connected, failed, timed out. After a timeout the connect's handler
  may still report success, to nobody.\<close>

definition attempt_invar :: "'a \<Rightarrow> 16 word \<Rightarrow> nat \<Rightarrow> 'a attempt \<Rightarrow> bool" where
  "attempt_invar addr p d a \<longleftrightarrow>
     (let dial = [Unopened, ConnectTo addr p]; arm = [TimerExpiresAfter d, TimerAsyncWait];
          calls = sock_calls (at_socket a); timer = timer_calls (at_timer a)
      in (\<not> race_done (at_race a) \<and> op_running (at_race a) \<and> calls = dial \<and> timer = arm \<and> told a = []) \<or>
         (race_done (at_race a) \<and> \<not> op_running (at_race a) \<and> timer = arm @ [TimerCancel] \<and>
            (calls = dial @ [SetNoDelay] \<and> told a = [(Error_none, Some (at_socket a))] \<or>
             calls = dial \<and> (\<exists>e. \<not> Error_ok e \<and> told a = [(e, None)]))) \<or>
         (race_done (at_race a) \<and> \<not> timer_waiting (at_race a) \<and> timer = arm \<and> told a = [(timeout_error, None)] \<and>
            (op_running (at_race a) \<and> calls = dial @ [CancelAll] \<or>
             \<not> op_running (at_race a) \<and> (calls = dial @ [CancelAll] \<or> calls = dial @ [CancelAll, SetNoDelay]))))"

abbreviation bound :: "'a attempt \<Rightarrow> nat \<times> nat" where
  "bound a \<equiv> (sock_owner (at_socket a), sock_context (at_socket a))"

lemma race_handler_effects:
  "race_done r \<Longrightarrow> race_effects (race_on_timer e r) = race_effects r"
  "race_done r \<Longrightarrow> race_effects (race_on_op e r) = race_effects r"
  "\<not> race_done r \<Longrightarrow> race_effects (race_on_op e r) = race_effects r @ [CancelTimer, OnDone e]"
  "\<not> race_done r \<Longrightarrow> race_effects (race_on_timer e r) =
     race_effects r @ (if Error_ok e then [CancelOp, OnDone timeout_error] else [])"
  "race_done (race_on_timer e r) \<longleftrightarrow> race_done r \<or> Error_ok e" "race_done (race_on_op e r)"
  "\<not> timer_waiting (race_on_timer e r)" "op_running (race_on_timer e r) = op_running r"
  "timer_waiting (race_on_op e r) = timer_waiting r" "\<not> op_running (race_on_op e r)"
  by (auto simp: race_on_timer_def race_on_op_def Let_def)

text \<open>Both handlers run, keep the invariant and the socket's owner.\<close>

lemma attempt_step_ok:
  fixes a :: "'a attempt"
  assumes "attempt_invar addr p d a" "is_owned_by_current_thread t loops (at_socket a)"
  shows "timer_waiting (at_race a) \<Longrightarrow> \<exists>a'. on_timer t loops ec a = Some a' \<and> attempt_invar addr p d a' \<and>
           bound a' = bound a"
    and "op_running (at_race a) \<Longrightarrow> \<exists>a'. on_connect t loops ec a = Some a' \<and> attempt_invar addr p d a' \<and>
           bound a' = bound a"
proof -
  note defs = advance_def Let_def race_handler_effects attempt_invar_def BoostTimer_cancel_def boost_socket_defs
  show "timer_waiting (at_race a) \<Longrightarrow> \<exists>a'. on_timer t loops ec a = Some a' \<and> attempt_invar addr p d a' \<and>
      bound a' = bound a"
    using assms by (cases "race_done (at_race a)"; cases "ec_failed ec") (auto simp: on_timer_def defs)
  show "op_running (at_race a) \<Longrightarrow> \<exists>a'. on_connect t loops ec a = Some a' \<and> attempt_invar addr p d a' \<and>
      bound a' = bound a"
    using assms by (cases "race_done (at_race a)"; cases "ec_failed ec")
      (auto simp: on_connect_def connect_handler_def defs)
qed

lemma attempt_start_ok:
  fixes A :: "'a asio"
  assumes "make_address A (host target) = (pe, addr)" "\<not> ec_failed pe"
    and "is_current_thread t (loops w)" "\<And>k. loop_id (loops k) = k"
  shows "\<exists>a. attempt_start A t loops (loops w) target d = Some a \<and> attempt_invar addr (port target) d a \<and>
     bound a = (w, w)"
proof -
  have own: "is_owned_by_current_thread t loops (create_socket (loops w) :: 'a BoostSocket)"
    using assms(3,4) by (simp add: is_owned_by_current_thread_def create_socket_def BoostSocket_new_def)
  have "connect_over A t loops (loops w) target d =
      Some (does (ConnectTo addr (port target)) (create_socket (loops w)), race_with_timeout d)"
    using own assms(1,2) by (simp add: connect_over_def BoostSocket_async_connect_def)
  then show ?thesis
    using assms(4)
    by (simp add: attempt_start_def race_with_timeout_def attempt_invar_def Let_def create_socket_def BoostSocket_new_def
        create_timer_def BoostTimer_new_def BoostTimer_expires_after_def BoostTimer_async_wait_def)
qed

lemma attempt_reachable_ok:
  assumes "attempt_reachable t loops a0 a" "attempt_invar addr p d a0" "bound a0 = (w, w)"
    and "is_current_thread t (loops w)"
  shows "attempt_invar addr p d a \<and> bound a = (w, w)"
  using assms(1)
proof (induction rule: attempt_reachable.induct)
  case (step a a')
  then have inv: "attempt_invar addr p d a" "is_owned_by_current_thread t loops (at_socket a)"
    using assms(4) by (simp_all add: is_owned_by_current_thread_def)
  from step(2) show ?case
  proof (cases rule: attempt_step.cases)
    case (timer ec)
    with attempt_step_ok(1)[OF inv timer(1), of ec] step.IH show ?thesis by auto
  next
    case (connect ec)
    with attempt_step_ok(2)[OF inv connect(1), of ec] step.IH show ?thesis by auto
  qed
qed (use assms(2,3) in simp)

text \<open>What the invariant says to the caller.\<close>

lemma attempt_facts:
  assumes "attempt_invar addr p d a"
  shows "length (told a) \<le> 1" "\<not> op_running (at_race a) \<Longrightarrow> length (told a) = 1"
    and "(e, Some s) \<in> set (told a) \<Longrightarrow> e = Error_none \<and> s = at_socket a \<and>
           sock_calls s = [Unopened, ConnectTo addr p, SetNoDelay]"
    and "(e, None) \<in> set (told a) \<Longrightarrow> \<not> Error_ok e"
    and "CancelAll \<in> set (sock_calls (at_socket a)) \<Longrightarrow> told a = [(timeout_error, None)]"
    and "TimerCancel \<in> set (timer_calls (at_timer a)) \<longleftrightarrow>
           told a \<noteq> [] \<and> CancelAll \<notin> set (sock_calls (at_socket a))"
  using assms by (auto simp: attempt_invar_def Let_def)

section \<open>Property\<close>

text \<open>C18. What a fresh connection comes to. If the address parses and the shard's thread starts the
  attempt, then in every order and with every outcome of the timer and of the connect: both
  handlers run; the caller is told at most once, and exactly once when the connect has reported; a
  socket it is given lives on the shard's loop, was connected to the resolved address, has Nagle's algorithm
  off and was not cancelled; without a socket it is given an error; the socket is cancelled only
  after the timeout was reported, and the timer exactly if the connect reported in time.\<close>

theorem fresh_connection_outcomes:
  fixes A :: "'a asio"
  assumes "make_address A (host target) = (pe, addr)" "\<not> ec_failed pe"
    and "is_current_thread t (loops w)" "\<And>k. loop_id (loops k) = k"
  shows "\<exists>a0. attempt_start A t loops (loops w) target d = Some a0 \<and>
     (\<forall>a. attempt_reachable t loops a0 a \<longrightarrow>
        (timer_waiting (at_race a) \<longrightarrow> (\<forall>ec. \<exists>a'. on_timer t loops ec a = Some a')) \<and>
        (op_running (at_race a) \<longrightarrow> (\<forall>ec. \<exists>a'. on_connect t loops ec a = Some a')) \<and>
        length (told a) \<le> 1 \<and> (\<not> op_running (at_race a) \<longrightarrow> length (told a) = 1) \<and>
        (\<forall>e s. (e, Some s) \<in> set (told a) \<longrightarrow> e = Error_none \<and> sock_context s = w \<and>
           sock_calls s = [Unopened, ConnectTo addr (port target), SetNoDelay]) \<and>
        (\<forall>e. (e, None) \<in> set (told a) \<longrightarrow> \<not> Error_ok e) \<and>
        (CancelAll \<in> set (sock_calls (at_socket a)) \<longrightarrow> told a = [(timeout_error, None)]) \<and>
        (TimerCancel \<in> set (timer_calls (at_timer a)) \<longleftrightarrow>
           told a \<noteq> [] \<and> CancelAll \<notin> set (sock_calls (at_socket a))))"
proof -
  obtain a0 where a0: "attempt_start A t loops (loops w) target d = Some a0" "attempt_invar addr (port target) d a0"
    "bound a0 = (w, w)" using attempt_start_ok[OF assms, of d] by blast
  show ?thesis
  proof (rule exI[of _ a0], rule conjI[OF a0(1)], rule allI, rule impI)
    fix a assume "attempt_reachable t loops a0 a"
    from attempt_reachable_ok[OF this a0(2,3) assms(3)]
    have inv: "attempt_invar addr (port target) d a" and b: "bound a = (w, w)" by simp_all
    then have own: "is_owned_by_current_thread t loops (at_socket a)"
      using assms(3) by (simp add: is_owned_by_current_thread_def)
    note f = attempt_facts[OF inv]
    have "timer_waiting (at_race a) \<longrightarrow> (\<forall>ec. \<exists>a'. on_timer t loops ec a = Some a')"
      "op_running (at_race a) \<longrightarrow> (\<forall>ec. \<exists>a'. on_connect t loops ec a = Some a')"
      using attempt_step_ok[OF inv own] by blast+
    moreover have "\<forall>e s. (e, Some s) \<in> set (told a) \<longrightarrow> e = Error_none \<and> sock_context s = w \<and>
        sock_calls s = [Unopened, ConnectTo addr (port target), SetNoDelay]"
    proof (intro allI impI)
      fix e s assume "(e, Some s) \<in> set (told a)"
      from f(3)[OF this] b show "e = Error_none \<and> sock_context s = w \<and>
        sock_calls s = [Unopened, ConnectTo addr (port target), SetNoDelay]" by auto
    qed
    moreover have "\<forall>e. (e, None) \<in> set (told a) \<longrightarrow> \<not> Error_ok e" using f(4) by blast
    moreover have "\<not> op_running (at_race a) \<longrightarrow> length (told a) = 1"
      "CancelAll \<in> set (sock_calls (at_socket a)) \<longrightarrow> told a = [(timeout_error, None)]" using f(2,5) by blast+
    ultimately show "(timer_waiting (at_race a) \<longrightarrow> (\<forall>ec. \<exists>a'. on_timer t loops ec a = Some a')) \<and>
        (op_running (at_race a) \<longrightarrow> (\<forall>ec. \<exists>a'. on_connect t loops ec a = Some a')) \<and>
        length (told a) \<le> 1 \<and> (\<not> op_running (at_race a) \<longrightarrow> length (told a) = 1) \<and>
        (\<forall>e s. (e, Some s) \<in> set (told a) \<longrightarrow> e = Error_none \<and> sock_context s = w \<and>
           sock_calls s = [Unopened, ConnectTo addr (port target), SetNoDelay]) \<and>
        (\<forall>e. (e, None) \<in> set (told a) \<longrightarrow> \<not> Error_ok e) \<and>
        (CancelAll \<in> set (sock_calls (at_socket a)) \<longrightarrow> told a = [(timeout_error, None)]) \<and>
        (TimerCancel \<in> set (timer_calls (at_timer a)) \<longleftrightarrow>
           told a \<noteq> [] \<and> CancelAll \<notin> set (sock_calls (at_socket a)))"
      using f(1,6) by (intro conjI)
  qed
qed

theorem fresh_connection_outcomes_witness:
  "\<exists>a0 a. attempt_start sample_asio 101 sample_loops (sample_loops 1) \<lparr>host = ''@10.0.0.1'', port = 9000\<rparr> 5 = Some a0 \<and>
     on_connect 101 sample_loops \<lparr>ec_value = 0, ec_message = []\<rparr> a0 = Some a"
proof -
  let ?t = "\<lparr>host = ''@10.0.0.1'', port = 9000\<rparr> :: Endpoint"
  have "make_address sample_asio (host ?t) = (\<lparr>ec_value = 0, ec_message = ''Invalid argument''\<rparr>, ''10.0.0.1'')"
    by (simp add: sample_asio_def)
  note m = this
  have "\<exists>a0. attempt_start sample_asio 101 sample_loops (sample_loops 1) ?t 5 = Some a0 \<and>
      (op_running (at_race a0) \<longrightarrow> (\<forall>ec. \<exists>a'. on_connect 101 sample_loops ec a0 = Some a'))"
    using fresh_connection_outcomes[OF m, where t = 101 and loops = sample_loops and w = 1 and d = 5]
      attempt_reachable.begins by (fastforce simp: ec_failed_def)
  moreover have "op_running (at_race a)"
    if "attempt_start sample_asio 101 sample_loops (sample_loops 1) ?t 5 = Some a" for a
    using that m
    by (simp add: attempt_start_def connect_over_def BoostSocket_async_connect_def is_owned_by_current_thread_def
        create_socket_def BoostSocket_new_def ec_failed_def race_with_timeout_def) auto
  ultimately show ?thesis by blast
qed

end
