(* ===== verification/Cpu_Topology.thy ===== *)
theory Cpu_Topology
  imports Prelude "HOL-Library.Multiset"
begin

text \<open>
  The assignment of shards to cores: \<open>build_shard_cpu_plan\<close> (\<open>src/util/cpu_topology.cpp\<close>) and
  the use \<open>GatewayRuntime::start\<close> makes of it. hwloc is a parameter: the return codes of
  initialisation and loading, the number of core kinds, and the CPU numbers of a kind (\<open>None\<close> if
  the query fails).
\<close>

record ShardCpuPlan =
  cpus :: "int list"
  top_tier_count :: nat

record hwloc =
  topology_init :: int
  topology_load :: int
  cpukinds_get_nr :: int
  cpukinds_get_info :: "nat \<Rightarrow> int list option"

definition homogeneous_fallback :: "nat \<Rightarrow> ShardCpuPlan" where
  "homogeneous_fallback n = \<lparr>cpus = map int [0..<n], top_tier_count = n\<rparr>"

text \<open>The loop that collects the kinds, and the loop from the last kind to the first that fills the
  plan; \<open>fastest\<close> says that it is at kind \<open>nr_kinds - 1\<close>.\<close>

definition collect_kinds :: "hwloc \<Rightarrow> nat \<Rightarrow> int list list" where
  "collect_kinds hw nr =
     map (\<lambda>i. case cpukinds_get_info hw i of None \<Rightarrow> [] | Some cs \<Rightarrow> cs) [0..<nr]"

fun fill_plan :: "bool \<Rightarrow> int list list \<Rightarrow> ShardCpuPlan \<Rightarrow> ShardCpuPlan" where
  "fill_plan fastest [] plan = plan"
| "fill_plan fastest (k # ks) plan =
     (let plan1 = plan\<lparr>cpus := cpus plan @ sort k\<rparr>
      in fill_plan False ks
           (if fastest then plan1\<lparr>top_tier_count := length (cpus plan1)\<rparr> else plan1))"

definition build_shard_cpu_plan :: "hwloc \<Rightarrow> nat \<Rightarrow> ShardCpuPlan" where
  "build_shard_cpu_plan hw n =
     (if topology_init hw \<noteq> 0 then homogeneous_fallback n
      else if topology_load hw \<noteq> 0 then homogeneous_fallback n
      else if cpukinds_get_nr hw \<le> 0 then homogeneous_fallback n
      else
        let kinds = collect_kinds hw (nat (cpukinds_get_nr hw));
            plan = fill_plan True (rev kinds) \<lparr>cpus = [], top_tier_count = 0\<rparr>
        in if cpus plan = [] then homogeneous_fallback n else plan)"

text \<open>The core a shard is started on, and whether the start warns about a lower-tier core.\<close>

definition shard_core :: "ShardCpuPlan \<Rightarrow> nat \<Rightarrow> int" where
  "shard_core plan i = (if i < length (cpus plan) then cpus plan ! i else int i)"

definition lower_tier_warning :: "ShardCpuPlan \<Rightarrow> nat \<Rightarrow> bool" where
  "lower_tier_warning plan i \<longleftrightarrow> i < length (cpus plan) \<and> i \<ge> top_tier_count plan"

section \<open>Lemmas\<close>

lemma fill_plan_cpus: "cpus (fill_plan fastest ks plan) = cpus plan @ concat (map sort ks)"
  by (induction fastest ks plan rule: fill_plan.induct) (auto simp: Let_def)

lemma fill_plan_top:
  "top_tier_count (fill_plan fastest ks plan) =
     (if fastest \<and> ks \<noteq> [] then length (cpus plan) + length (hd ks) else top_tier_count plan)"
  by (induction fastest ks plan rule: fill_plan.induct) (auto simp: Let_def)

lemma mset_concat_sort: "mset (concat (map sort kss)) = mset (concat kss)"
  by (induction kss) auto

section \<open>Properties\<close>

text \<open>C30. The plan loses no core and prefers the fast ones: if hwloc reports core kinds with
  disjoint sets of CPUs, not all empty, the plan lists every reported CPU exactly once, its first
  \<open>top_tier_count\<close> entries are the CPUs of the last (fastest) kind in ascending order, and shards
  within the number of listed CPUs run on pairwise different cores.\<close>

theorem cpu_plan_complete:
  assumes "topology_init hw = 0" "topology_load hw = 0" "cpukinds_get_nr hw = int (Suc m)"
    and "distinct (concat (collect_kinds hw (Suc m)))" "concat (collect_kinds hw (Suc m)) \<noteq> []"
  shows "mset (cpus (build_shard_cpu_plan hw n)) = mset (concat (collect_kinds hw (Suc m))) \<and>
     take (top_tier_count (build_shard_cpu_plan hw n)) (cpus (build_shard_cpu_plan hw n)) =
       sort (last (collect_kinds hw (Suc m))) \<and>
     inj_on (shard_core (build_shard_cpu_plan hw n)) {..<length (cpus (build_shard_cpu_plan hw n))}"
proof -
  let ?ks = "collect_kinds hw (Suc m)"
  let ?p = "fill_plan True (rev ?ks) \<lparr>cpus = [], top_tier_count = 0\<rparr>"
  have ne: "?ks \<noteq> []" by (simp add: collect_kinds_def)
  have c: "cpus ?p = concat (map sort (rev ?ks))" by (simp add: fill_plan_cpus)
  have ms: "mset (cpus ?p) = mset (concat ?ks)"
    unfolding c mset_concat_sort by (simp add: mset_concat rev_map[symmetric] sum_list_rev)
  have nn: "cpus ?p \<noteq> []" using ms assms(5) by (metis mset_zero_iff_right)
  have nr: "\<not> cpukinds_get_nr hw \<le> 0" "nat (cpukinds_get_nr hw) = Suc m" using assms(3) by simp_all
  have b: "build_shard_cpu_plan hw n = ?p"
    using assms(1,2) nr nn unfolding build_shard_cpu_plan_def nr(2) by (simp add: Let_def)
  have t: "take (top_tier_count ?p) (cpus ?p) = sort (last ?ks)"
  proof -
    obtain rest where r: "rev ?ks = last ?ks # rest" using ne by (metis append_butlast_last_id rev_eq_Cons_iff rev_rev_ident)
    show ?thesis unfolding fill_plan_cpus fill_plan_top r by simp
  qed
  have d: "distinct (cpus ?p)" using ms assms(4) by (metis mset_eq_imp_distinct_iff)
  have "inj_on (shard_core ?p) {..<length (cpus ?p)}"
    using d by (auto simp: inj_on_def shard_core_def nth_eq_iff_index_eq)
  with ms t show ?thesis by (simp add: b)
qed

definition sample_hwloc :: hwloc where
  "sample_hwloc = \<lparr>topology_init = 0, topology_load = 0, cpukinds_get_nr = 2,
     cpukinds_get_info = (\<lambda>i. if i = 0 then Some [4, 5] else Some [1, 0])\<rparr>"

theorem cpu_plan_complete_witness:
  "take (top_tier_count (build_shard_cpu_plan sample_hwloc 8)) (cpus (build_shard_cpu_plan sample_hwloc 8)) = [0, 1]"
proof -
  have "topology_init sample_hwloc = 0" "topology_load sample_hwloc = 0"
    "cpukinds_get_nr sample_hwloc = int (Suc 1)"
    "distinct (concat (collect_kinds sample_hwloc (Suc 1)))" "concat (collect_kinds sample_hwloc (Suc 1)) \<noteq> []"
    "sort (last (collect_kinds sample_hwloc (Suc 1))) = [0, 1]"
    by (simp_all add: sample_hwloc_def collect_kinds_def)
  with cpu_plan_complete[of sample_hwloc 1 8] show ?thesis by simp
qed

end
