(* ===== verification/Gateway_Runtime.thy ===== *)
theory Gateway_Runtime
  imports Gateway_Shard Cpu_Topology
begin

text \<open>
  \<open>GatewayRuntime\<close>, \<open>Listener\<close> and \<open>MetricsAggregator\<close> (\<open>src/runtime/\<close>): starting the shards on
  their cores, distributing accepted connections round-robin, summing the shards' counters, and
  stopping. Threads are not modelled as such: every operation names the loop it runs on, and the
  only effect of one loop on another is a posted task. Text output is the data it shows.
\<close>

section \<open>Metrics reports\<close>

record Totals =
  t_accepted :: "64 word"
  t_active :: "64 word"
  t_closed :: "64 word"
  t_down_up_bytes :: "64 word"
  t_up_down_bytes :: "64 word"
  t_connect_errors :: "64 word"
  t_requests :: "64 word"
  t_upstream_retries :: "64 word"

definition Totals_zero :: Totals where
  "Totals_zero = \<lparr>t_accepted = 0, t_active = 0, t_closed = 0, t_down_up_bytes = 0,
     t_up_down_bytes = 0, t_connect_errors = 0, t_requests = 0, t_upstream_retries = 0\<rparr>"

fun aggregate_loop :: "LocalMetrics list \<Rightarrow> Totals \<Rightarrow> Totals" where
  "aggregate_loop [] t = t"
| "aggregate_loop (m # ms) t =
     aggregate_loop ms
       (t\<lparr>t_accepted := t_accepted t + connections_accepted m,
          t_active := t_active t + connections_active m,
          t_closed := t_closed t + connections_closed m,
          t_down_up_bytes := t_down_up_bytes t + bytes_downstream_to_upstream m,
          t_up_down_bytes := t_up_down_bytes t + bytes_upstream_to_downstream m,
          t_connect_errors := t_connect_errors t + upstream_connect_errors m,
          t_requests := t_requests t + requests_handled m,
          t_upstream_retries := t_upstream_retries t + upstream_retries m\<rparr>)"

definition aggregate :: "('e, 'v) GatewayShard list \<Rightarrow> Totals" where
  "aggregate shs = aggregate_loop (map shard_metrics shs) Totals_zero"

record MetricsAggregator =
  interval_seconds :: nat
  has_timer :: bool
  armed_for :: "nat option"

definition MetricsAggregator_new :: "nat \<Rightarrow> MetricsAggregator" where
  "MetricsAggregator_new interval = \<lparr>interval_seconds = interval, has_timer = False, armed_for = None\<rparr>"

definition aggregator_schedule :: "MetricsAggregator \<Rightarrow> MetricsAggregator" where
  "aggregator_schedule a = a\<lparr>armed_for := Some (interval_seconds a)\<rparr>"

definition aggregator_start :: "MetricsAggregator \<Rightarrow> MetricsAggregator" where
  "aggregator_start a =
     (if interval_seconds a = 0 then a else aggregator_schedule (a\<lparr>has_timer := True\<rparr>))"

text \<open>The timer's callback: the report it prints, if any.\<close>

definition aggregator_on_timer ::
  "Error \<Rightarrow> ('e, 'v) GatewayShard list \<Rightarrow> MetricsAggregator \<Rightarrow> Totals option \<times> MetricsAggregator" where
  "aggregator_on_timer err shs a =
     (if \<not> Error_ok err then (None, a\<lparr>armed_for := None\<rparr>)
      else (Some (aggregate shs), aggregator_schedule a))"

text \<open>\<open>stop\<close> cancels the timer, whose callback then sees an error.\<close>

definition aggregator_stop :: "('e, 'v) GatewayShard list \<Rightarrow> MetricsAggregator \<Rightarrow> MetricsAggregator" where
  "aggregator_stop shs a =
     (if has_timer a \<and> armed_for a \<noteq> None then snd (aggregator_on_timer timeout_error shs a) else a)"

text \<open>\<open>print_metrics_summary\<close>: one row per shard and the totals, summed as the rows are printed.\<close>

fun summary_loop ::
  "('e, 'v) GatewayShard list \<Rightarrow> (nat \<times> LocalMetrics) list \<times> Totals \<Rightarrow> (nat \<times> LocalMetrics) list \<times> Totals" where
  "summary_loop [] acc = acc"
| "summary_loop (sh # shs) (rows, t) =
     (let m = shard_metrics sh in
      summary_loop shs
        (rows @ [(shard_index sh, m)],
         t\<lparr>t_accepted := t_accepted t + connections_accepted m,
           t_closed := t_closed t + connections_closed m,
           t_active := t_active t + connections_active m,
           t_down_up_bytes := t_down_up_bytes t + bytes_downstream_to_upstream m,
           t_up_down_bytes := t_up_down_bytes t + bytes_upstream_to_downstream m,
           t_connect_errors := t_connect_errors t + upstream_connect_errors m,
           t_requests := t_requests t + requests_handled m,
           t_upstream_retries := t_upstream_retries t + upstream_retries m\<rparr>))"

definition print_metrics_summary ::
  "('e, 'v) GatewayShard list \<Rightarrow> (nat \<times> LocalMetrics) list \<times> Totals" where
  "print_metrics_summary shs = summary_loop shs ([], Totals_zero)"

section \<open>Runtime and listener\<close>

text \<open>\<open>accepting\<close>: an accept is outstanding. A listener whose port cannot be opened is not constructed.
  \<open>listener_stop\<close> is \<open>Listener::stop\<close>.\<close>

record Listener =
  next_shard :: nat
  stopping :: bool
  accepting :: bool
  acceptor_open :: bool

definition Listener_new :: Listener where
  [simp]: "Listener_new = \<lparr>next_shard = 0, stopping = False, accepting = False, acceptor_open = True\<rparr>"

definition do_accept :: "'m Listener_scheme \<Rightarrow> 'm Listener_scheme" where
  [simp]: "do_accept l = l\<lparr>accepting := True\<rparr>"

definition listener_start :: "'m Listener_scheme \<Rightarrow> 'm Listener_scheme" where
  [simp]: "listener_start l = do_accept l"

definition listener_stop :: "'m Listener_scheme \<Rightarrow> 'm Listener_scheme" where
  "listener_stop l = l\<lparr>stopping := True, acceptor_open := False\<rparr>"

text \<open>The runtime, with its listener's members among its own.\<close>

record ('e, 'v) GatewayRuntime = Listener +
  rt_config :: Config
  shards :: "('e, 'v) GatewayShard list"
  shard_cores :: "int list"
  aggregator :: MetricsAggregator
  listener_running :: bool
  shards_stopped :: nat
  stopped :: bool

text \<open>\<open>start\<close>: shard \<open>i\<close> has event loop \<open>i + 1\<close>, the listener has loop 0.\<close>

definition GatewayRuntime_start ::
  "hwloc \<Rightarrow> nat \<Rightarrow> resolver \<Rightarrow> Config \<Rightarrow> ('e, 'v) GatewayRuntime" where
  "GatewayRuntime_start hw ncpu resolve cfg =
     (let plan = build_shard_cpu_plan hw ncpu; l = listener_start Listener_new
      in \<lparr>next_shard = next_shard l, stopping = stopping l, accepting = accepting l, acceptor_open = acceptor_open l,
          rt_config = cfg,
          shards = map (\<lambda>i. GatewayShard_start resolve (GatewayShard_new (Suc i) i cfg))
                     [0..<shard_count cfg],
          shard_cores = map (shard_core plan) [0..<shard_count cfg],
          aggregator = aggregator_start (MetricsAggregator_new (metrics_report_interval_seconds cfg)),
          listener_running = True, shards_stopped = 0, stopped = False\<rparr>)"

definition pick_shard :: "('e, 'v) GatewayRuntime \<Rightarrow> (nat \<times> ('e, 'v) GatewayRuntime) option" where
  "pick_shard rt =
     (if next_shard rt < length (shards rt)
      then Some (next_shard rt, rt\<lparr>next_shard := (next_shard rt + 1) mod length (shards rt)\<rparr>)
      else None)"

text \<open>The callback of \<open>async_accept\<close>; \<open>handle\<close> is the accepted connection, bound to the
  listener's loop.\<close>

definition on_accept_done ::
  "Error \<Rightarrow> nat \<Rightarrow> ('e, 'v) GatewayRuntime \<Rightarrow> ('e, 'v) GatewayRuntime option" where
  "on_accept_done err handle rt =
     (if stopping rt then Some (rt\<lparr>accepting := False\<rparr>)
      else if Error_ok err then
        do { (i, rt1) \<leftarrow> pick_shard rt;
             Some (do_accept (rt1\<lparr>shards := (shards rt1)[i := accept_from
                          \<lparr>native_handle = handle, bound_loop = 0\<rparr> (shards rt1 ! i)]\<rparr>)) }
      else Some (do_accept rt))"

text \<open>The three stages of \<open>GatewayRuntime::stop\<close>: the listener is told to stop, its loop is stopped
  and joined, the shards are stopped and joined. The other threads run between them.\<close>

definition stop_begin :: "('e, 'v) GatewayRuntime \<Rightarrow> ('e, 'v) GatewayRuntime" where
  "stop_begin rt = listener_stop (rt\<lparr>stopped := True\<rparr>)"

definition stop_listener_loop :: "('e, 'v) GatewayRuntime \<Rightarrow> ('e, 'v) GatewayRuntime" where
  "stop_listener_loop rt =
     rt\<lparr>aggregator := aggregator_stop (shards rt) (aggregator rt), listener_running := False\<rparr>"

text \<open>\<open>GatewayShard::stop\<close> stops the loop of the next shard and joins its thread; the loop goes over the
  shards in order, and the later ones run on meanwhile.\<close>

definition stop_next_shard :: "('e, 'v) GatewayRuntime \<Rightarrow> ('e, 'v) GatewayRuntime" where
  "stop_next_shard rt = rt\<lparr>shards_stopped := shards_stopped rt + 1\<rparr>"

fun stop_shards_loop :: "nat \<Rightarrow> ('e, 'v) GatewayRuntime \<Rightarrow> ('e, 'v) GatewayRuntime" where
  "stop_shards_loop 0 rt = rt"
| "stop_shards_loop (Suc n) rt = stop_shards_loop n (stop_next_shard rt)"

definition stop_shards :: "('e, 'v) GatewayRuntime \<Rightarrow> ('e, 'v) GatewayRuntime" where
  "stop_shards rt = stop_shards_loop (length (shards rt) - shards_stopped rt) rt"

definition GatewayRuntime_stop :: "('e, 'v) GatewayRuntime \<Rightarrow> ('e, 'v) GatewayRuntime" where
  "GatewayRuntime_stop rt =
     (if stopped rt then rt else stop_shards (stop_listener_loop (stop_begin rt)))"

section \<open>Steps\<close>

text \<open>The interleavings of the listener's thread, the shards' threads and \<open>stop\<close>; the list holds the
  handle of a connection that is accepted in the step.\<close>

inductive runtime_step ::
  "'e llhttp_engine \<Rightarrow> ('e, 'v) GatewayRuntime \<Rightarrow> nat list \<Rightarrow> ('e, 'v) GatewayRuntime \<Rightarrow> bool"
  for eng where
  accept_done:
    "\<lbrakk>listener_running rt; accepting rt; on_accept_done err h rt = Some rt';
      hs = (if stopping rt \<or> \<not> Error_ok err then [] else [h])\<rbrakk> \<Longrightarrow> runtime_step eng rt hs rt'"
| report:
    "\<lbrakk>listener_running rt; armed_for (aggregator rt) \<noteq> None\<rbrakk> \<Longrightarrow>
     runtime_step eng rt []
       (rt\<lparr>aggregator := snd (aggregator_on_timer err (shards rt) (aggregator rt))\<rparr>)"
| shard_thread:
    "\<lbrakk>shards_stopped rt \<le> i; i < length (shards rt); shard_runs eng (shards rt ! i) sh\<rbrakk> \<Longrightarrow>
     runtime_step eng rt [] (rt\<lparr>shards := (shards rt)[i := sh]\<rparr>)"
| begin_stop: "\<not> stopped rt \<Longrightarrow> runtime_step eng rt [] (stop_begin rt)"
| join_listener: "stopped rt \<Longrightarrow> runtime_step eng rt [] (stop_listener_loop rt)"
| join_shard:
    "\<lbrakk>stopped rt; \<not> listener_running rt; shards_stopped rt < length (shards rt)\<rbrakk> \<Longrightarrow>
     runtime_step eng rt [] (stop_next_shard rt)"

inductive runtime_reachable ::
  "'e llhttp_engine \<Rightarrow> ('e, 'v) GatewayRuntime \<Rightarrow> nat list \<Rightarrow> ('e, 'v) GatewayRuntime \<Rightarrow> bool"
  for eng rt0 where
  base: "runtime_reachable eng rt0 [] rt0"
| step: "runtime_reachable eng rt0 hs rt \<Longrightarrow> runtime_step eng rt hs' rt' \<Longrightarrow>
    runtime_reachable eng rt0 (hs @ hs') rt'"

lemma stop_shards_loop_eq: "stop_shards_loop n rt = rt\<lparr>shards_stopped := shards_stopped rt + n\<rparr>"
  by (induction n arbitrary: rt) (simp_all add: stop_next_shard_def)

lemmas stop_shards_eq = stop_shards_def stop_shards_loop_eq

section \<open>Invariant\<close>

interpretation rr_listener: round_robin pick_shard next_shard "\<lambda>rt. length (shards rt)"
  by unfold_locales (auto simp: pick_shard_def)

text \<open>Shard \<open>i\<close> of \<open>n\<close> has, in order, every \<open>n\<close>-th of the accepted connections.\<close>

definition dealt :: "nat \<Rightarrow> nat \<Rightarrow> nat list \<Rightarrow> nat list" where
  "dealt n i hs = nths hs {k. k mod n = i}"

definition runtime_invar :: "nat \<Rightarrow> nat list \<Rightarrow> ('e, 'v) GatewayRuntime \<Rightarrow> bool" where
  "runtime_invar n hs rt \<longleftrightarrow>
     0 < n \<and> length (shards rt) = n \<and> next_shard rt = length hs mod n \<and>
     (\<forall>i < n. shard_invar (shards rt ! i) \<and> shard_loop (shards rt ! i) = Suc i \<and>
        shard_handles (shards rt ! i) = dealt n i hs)"

lemma dealt_snoc: "dealt n i (hs @ [h]) = dealt n i hs @ (if length hs mod n = i then [h] else [])"
  by (simp add: dealt_def nths_append)

lemma runtime_start_invar:
  assumes "1 \<le> shard_count cfg" "upstreams cfg \<noteq> []"
  shows "runtime_invar (shard_count cfg) []
     (GatewayRuntime_start hw ncpu resolve cfg :: ('e, 'v) GatewayRuntime)"
proof -
  have "shard_invar (GatewayShard_start resolve (GatewayShard_new (Suc i) i cfg) :: ('e, 'v) GatewayShard)" for i
    by (rule GatewayShard_start_invar) (use shard_invar_new[OF assms(2)] in \<open>simp_all add: GatewayShard_new_def\<close>)
  with assms(1) show ?thesis
    by (simp add: runtime_invar_def GatewayRuntime_start_def Let_def GatewayShard_start_def
        GatewayShard_new_def shard_handles_def dealt_def)
qed

lemma on_accept_ok:
  assumes "runtime_invar n hs rt"
  shows "\<exists>rt'. on_accept_done err h rt = Some rt' \<and>
     runtime_invar n (hs @ (if stopping rt \<or> \<not> Error_ok err then [] else [h])) rt'"
proof (cases "stopping rt \<or> \<not> Error_ok err")
  case True
  with assms show ?thesis by (auto simp: on_accept_done_def runtime_invar_def)
next
  case False
  have n: "0 < n" "next_shard rt < length (shards rt)" "next_shard rt = length hs mod n"
    "length (shards rt) = n" using assms by (simp_all add: runtime_invar_def)
  let ?i = "next_shard rt"
  let ?sh = "accept_from \<lparr>native_handle = h, bound_loop = 0\<rparr> (shards rt ! ?i)"
  let ?rt = "rt\<lparr>next_shard := (?i + 1) mod n, shards := (shards rt)[?i := ?sh], accepting := True\<rparr>"
  have "on_accept_done err h rt = Some ?rt"
    using False n(2,4) by (simp add: on_accept_done_def pick_shard_def)
  moreover have "runtime_invar n (hs @ [h]) ?rt"
    using assms n accept_from_ok[where sh = "shards rt ! ?i"]
    by (auto simp: runtime_invar_def dealt_snoc nth_list_update mod_Suc_eq)
  ultimately show ?thesis using False by simp
qed

lemma runtime_step_invar:
  assumes "runtime_step eng rt hs' rt'" "runtime_invar n hs rt"
  shows "runtime_invar n (hs @ hs') rt'"
  using assms(1)
proof (cases rule: runtime_step.cases)
  case (accept_done err h)
  with on_accept_ok[OF assms(2), of err h] show ?thesis by auto
next
  case (shard_thread i sh)
  with assms(2) shard_runs_ok[OF shard_thread(5)] show ?thesis
    by (auto simp: runtime_invar_def nth_list_update)
qed (use assms(2) in \<open>auto simp: runtime_invar_def stop_begin_def listener_stop_def
    stop_listener_loop_def stop_next_shard_def\<close>)

lemma runtime_reachable_invar:
  assumes "runtime_reachable eng rt0 hs rt" "runtime_invar n [] rt0"
  shows "runtime_invar n hs rt"
  using assms by (induction rule: runtime_reachable.induct) (auto intro: runtime_step_invar)

section \<open>Reports\<close>

lemma aggregate_loop_sums:
  "t_accepted (aggregate_loop ms t) = t_accepted t + (\<Sum>m\<leftarrow>ms. connections_accepted m)"
  "t_active (aggregate_loop ms t) = t_active t + (\<Sum>m\<leftarrow>ms. connections_active m)"
  "t_closed (aggregate_loop ms t) = t_closed t + (\<Sum>m\<leftarrow>ms. connections_closed m)"
  by (induction ms t rule: aggregate_loop.induct) (auto simp: add.assoc)

lemma Totals_reorder:
  "t\<lparr>t_accepted := a, t_closed := c, t_active := b\<rparr> = t\<lparr>t_accepted := a, t_active := b, t_closed := c\<rparr>"
  by (cases t) simp

lemma summary_loop_totals:
  "summary_loop shs (rows, t) =
     (rows @ map (\<lambda>sh. (shard_index sh, shard_metrics sh)) shs, aggregate_loop (map shard_metrics shs) t)"
  by (induction shs arbitrary: rows t) (simp_all add: Let_def Totals_reorder)

lemma aggregate_counts:
  assumes "\<And>sh. sh \<in> set shs \<Longrightarrow> shard_counts sh"
  shows "t_accepted (aggregate shs) = of_nat (\<Sum>sh\<leftarrow>shs. length (shard_sessions sh)) \<and>
     t_active (aggregate shs) = of_nat (\<Sum>sh\<leftarrow>shs. open_sessions sh) \<and>
     t_closed (aggregate shs) = t_accepted (aggregate shs) - t_active (aggregate shs)"
  using assms
  by (induction shs)
    (auto simp: aggregate_def aggregate_loop_sums Totals_zero_def shard_counts_def conns_def)

end
