(* ===== verification/Gateway_Main.thy ===== *)
theory Gateway_Main
  imports Gateway_Runtime Boost_Adapters
begin

text \<open>
  The program as a whole: \<open>main\<close> (\<open>src/main.cpp\<close>), \<open>run_until_signal\<close>
  (\<open>src/runtime/gateway_runtime.cpp\<close>) and the pinning of a shard's thread
  (\<open>src/util/cpu_affinity.hpp\<close>). The outcome of \<open>main\<close> is a relation, because it depends on
  what the clients, the upstreams and the scheduler do before the signal arrives.
\<close>

section \<open>Pinning\<close>

definition int_to_string :: "int \<Rightarrow> string" where
  "int_to_string z = (if z < 0 then CHR ''-'' # to_string (nat (- z)) else to_string (nat z))"

text \<open>\<open>CPU_SET\<close> ignores numbers that do not fit a \<open>cpu_set_t\<close> of 1024 bits. The system call and
  \<open>strerror\<close> are parameters; the result is what is printed, and the thread goes on in any case.\<close>

definition cpu_set_of :: "int \<Rightarrow> int list" where
  "cpu_set_of cpu = (if 0 \<le> cpu \<and> cpu < 1024 then [cpu] else [])"

definition pin_thread_to_cpu :: "(int list \<Rightarrow> int) \<Rightarrow> (int \<Rightarrow> string) \<Rightarrow> int \<Rightarrow> string" where
  "pin_thread_to_cpu setaffinity strerror cpu =
     (let rc = setaffinity (cpu_set_of cpu) in
      if rc \<noteq> 0
      then ''pin_thread_to_cpu('' @ int_to_string cpu @ '') failed: '' @ strerror rc @
           '' -- continuing unpinned'' @ [LF]
      else [])"

section \<open>Running until a signal\<close>

text \<open>The signal arrives and \<open>stop\<close> runs: here without steps of other threads in between; the
  relation \<open>runtime_step\<close> also has the runs in which they interleave.\<close>

definition run_until_signal :: "('e, 'v) GatewayRuntime \<Rightarrow> ('e, 'v) GatewayRuntime" where
  "run_until_signal rt = GatewayRuntime_stop rt"

definition has_returned :: "('e, 'v) GatewayRuntime \<Rightarrow> bool" where
  "has_returned rt \<longleftrightarrow> stopped rt \<and> \<not> listener_running rt \<and> length (shards rt) \<le> shards_stopped rt"

section \<open>main\<close>

text \<open>\<open>ExitedEarly\<close> is \<open>std::exit\<close> while the arguments are read; \<open>Terminated\<close> is the uncaught
  exception of an acceptor that cannot be opened; \<open>Returned\<close> has the exit status, the summary printed
  last and the state it was printed from.\<close>

datatype ('e, 'v) main_outcome =
  ExitedEarly program_exit
| Terminated
| Returned int "(nat \<times> LocalMetrics) list \<times> Totals" "('e, 'v) GatewayRuntime"

inductive gateway_main ::
  "'e llhttp_engine \<Rightarrow> 'a asio \<Rightarrow> hwloc \<Rightarrow> 'j json_lib \<Rightarrow> (string \<Rightarrow> string option) \<Rightarrow> nat \<Rightarrow> string list
     \<Rightarrow> ('e, 'v) main_outcome \<Rightarrow> bool"
  for eng A hw lib read_file ncpu args where
  refused: "from_args lib read_file ncpu args = Inl e \<Longrightarrow>
    gateway_main eng A hw lib read_file ncpu args (ExitedEarly e)"
| port_taken:
    "\<lbrakk>from_args lib read_file ncpu args = Inr cfg;
      create_acceptor A (listen_port cfg) (create_event_loop 0 :: unit BoostEventLoop) = None\<rbrakk> \<Longrightarrow>
     gateway_main eng A hw lib read_file ncpu args Terminated"
| served:
    "\<lbrakk>from_args lib read_file ncpu args = Inr cfg;
      create_acceptor A (listen_port cfg) (create_event_loop 0 :: unit BoostEventLoop) = Some acc;
      runtime_reachable eng (GatewayRuntime_start hw ncpu (create_resolver A) cfg) hs rt;
      has_returned rt\<rbrakk> \<Longrightarrow>
     gateway_main eng A hw lib read_file ncpu args (Returned 0 (print_metrics_summary (shards rt)) rt)"

inductive_cases gateway_mainE: "gateway_main eng A hw lib read_file ncpu args out"

section \<open>Lemmas\<close>

lemma pin_warns: "pin_thread_to_cpu setaffinity strerror cpu \<noteq> [] \<longleftrightarrow> setaffinity (cpu_set_of cpu) \<noteq> 0"
  by (simp add: pin_thread_to_cpu_def Let_def)

lemma stop_shards_reachable:
  assumes "runtime_reachable eng rt0 hs rt" "stopped rt" "\<not> listener_running rt"
    and "shards_stopped rt + n \<le> length (shards rt)"
  shows "runtime_reachable eng rt0 hs (stop_shards_loop n rt)"
  using assms
proof (induction n arbitrary: rt)
  case (Suc n)
  have "runtime_step eng rt [] (stop_next_shard rt)" by (rule runtime_step.join_shard) (use Suc.prems in simp_all)
  from runtime_reachable.step[OF Suc.prems(1) this] Suc show ?case by (simp add: stop_next_shard_def)
qed simp

lemma run_until_signal_reachable:
  assumes "runtime_reachable eng rt0 hs rt" "\<not> stopped rt"
  shows "runtime_reachable eng rt0 hs (run_until_signal rt) \<and> has_returned (run_until_signal rt) \<and>
     shards (run_until_signal rt) = shards rt"
proof -
  let ?a = "stop_begin rt" and ?b = "stop_listener_loop (stop_begin rt)"
  have "runtime_step eng rt [] ?a" using assms(2) by (rule runtime_step.begin_stop)
  moreover have "runtime_step eng ?a [] ?b"
    by (rule runtime_step.join_listener) (simp add: stop_begin_def listener_stop_def)
  ultimately have b: "runtime_reachable eng rt0 hs ?b"
    using runtime_reachable.step[OF runtime_reachable.step[OF assms(1)]] by fastforce
  have "runtime_reachable eng rt0 hs (stop_shards ?b)"
    if "shards_stopped rt \<le> length (shards rt)"
    unfolding stop_shards_def by (rule stop_shards_reachable[OF b])
      (use that in \<open>simp_all add: stop_listener_loop_def stop_begin_def listener_stop_def\<close>)
  moreover have "stop_shards ?b = ?b" if "length (shards rt) < shards_stopped rt"
    using that by (simp add: stop_shards_def stop_listener_loop_def stop_begin_def listener_stop_def)
  ultimately have "runtime_reachable eng rt0 hs (stop_shards ?b)"
    using b by (cases "shards_stopped rt \<le> length (shards rt)") simp_all
  with assms(2) show ?thesis
    by (simp add: run_until_signal_def GatewayRuntime_stop_def has_returned_def stop_shards_eq
        stop_listener_loop_def stop_begin_def listener_stop_def)
qed

text \<open>Shards keep their numbers.\<close>

lemma shard_runs_index: "shard_runs eng sh sh' \<Longrightarrow> shard_index sh' = shard_index sh"
  by (induction rule: shard_runs.induct)
    (auto simp: run_posted_def dispatch_accept_def store_def run_completion_def run_dns_refresh_def Let_def
      split: list.splits bind_splits prod.splits)

lemma runtime_indices:
  assumes "runtime_reachable eng (GatewayRuntime_start hw ncpu resolve cfg) hs rt"
  shows "map shard_index (shards rt) = [0..<shard_count cfg]"
  using assms
proof (induction rule: runtime_reachable.induct)
  case base
  then show ?case
    by (simp add: GatewayRuntime_start_def Let_def GatewayShard_start_def GatewayShard_new_def comp_def)
next
  case (step hs rt1 hs' rt2)
  have keep: "map shard_index ((shards rt1)[i := sh]) = map shard_index (shards rt1)"
    if "i < length (shards rt1) \<longrightarrow> shard_index sh = shard_index (shards rt1 ! i)" for i sh
    using that by (cases "i < length (shards rt1)") (simp_all add: map_update list_update_same_conv list_update_beyond)
  from step(2) have "map shard_index (shards rt2) = map shard_index (shards rt1)"
    by (cases rule: runtime_step.cases)
      (auto simp: on_accept_done_def pick_shard_def accept_from_def stop_begin_def listener_stop_def
        stop_listener_loop_def stop_next_shard_def shard_runs_index intro!: keep split: if_splits bind_splits)
  with step.IH show ?case by simp
qed

end
