(* ===== verification/Thread_Ownership.thy ===== *)
theory Thread_Ownership
  imports Gateway_Main
begin

text \<open>
  The threads of the process and the assertions that guard them. The main thread starts and stops
  the gateway; the listener's thread and one thread per shard call \<open>run\<close> of their event loops, and
  Asio runs a handler on the thread that runs the \<open>io_context\<close> of the object it was started on. A
  step of the process is labelled with its thread. The assertions of \<open>HttpSession\<close>,
  \<open>UpstreamManager\<close>, \<open>GatewayShard::dispatch_accept\<close> and \<open>BoostSocket\<close> are checked where the source has
  them: a checked operation is \<open>None\<close> if one fails.
\<close>

section \<open>Threads and assertions\<close>

record ('e, 'v) process =
  proc_runtime :: "('e, 'v) GatewayRuntime"
  proc_loops :: "nat \<Rightarrow> unit BoostEventLoop"

text \<open>Thread 0 is the main thread; the thread spawned for loop \<open>l\<close> is \<open>l + 1\<close>.\<close>

definition thread_of_loop :: "nat \<Rightarrow> nat" where
  "thread_of_loop l = l + 1"

abbreviation shard_thread :: "nat \<Rightarrow> nat" where
  "shard_thread i \<equiv> thread_of_loop (Suc i)"

definition process_start :: "('e, 'v) GatewayRuntime \<Rightarrow> ('e, 'v) process" where
  "process_start rt = \<lparr>proc_runtime = rt, proc_loops = create_event_loop\<rparr>"

definition assert_on_owning_thread :: "nat \<Rightarrow> (nat \<Rightarrow> 'k BoostEventLoop) \<Rightarrow> nat \<Rightarrow> unit option" where
  "assert_on_owning_thread this_thread loops l =
     (if is_current_thread this_thread (loops l) then Some () else None)"

abbreviation proc_shard :: "('e, 'v) process \<Rightarrow> nat \<Rightarrow> ('e, 'v) GatewayShard" where
  "proc_shard ps i \<equiv> shards (proc_runtime ps) ! i"

text \<open>A posted task: \<open>dispatch_accept\<close> asserts that the shard's thread runs it, and the first read of
  the new session asserts it again for the adopted socket.\<close>

definition checked_task ::
  "'e llhttp_engine \<Rightarrow> nat \<Rightarrow> ('e, 'v) process \<Rightarrow> nat \<Rightarrow> ('e, 'v) GatewayShard option" where
  "checked_task eng this_thread ps i =
     do { let sh = proc_shard ps i;
          _ \<leftarrow> assert_on_owning_thread this_thread (proc_loops ps) (shard_loop sh);
          sh' \<leftarrow> run_posted eng sh;
          _ \<leftarrow> assert_on_owning_thread this_thread (proc_loops ps) (bound_loop (fst (last (shard_sessions sh'))));
          Some sh' }"

text \<open>A completion: the callback, the manager and the upstream sockets assert the shard's thread, the
  downstream socket asserts the thread of the loop it is bound to.\<close>

definition checked_completion ::
  "'e llhttp_engine \<Rightarrow> nat \<Rightarrow> ('e, 'v) process \<Rightarrow> nat \<Rightarrow> nat \<Rightarrow> continuation \<Rightarrow> completion
     \<Rightarrow> ('e, 'v) GatewayShard option" where
  "checked_completion eng this_thread ps i j c x =
     do { let sh = proc_shard ps i;
          _ \<leftarrow> assert_on_owning_thread this_thread (proc_loops ps) (shard_loop sh);
          _ \<leftarrow> assert_on_owning_thread this_thread (proc_loops ps) (bound_loop (fst (shard_sessions sh ! j)));
          run_completion eng j c x sh }"

text \<open>The \<open>io_context\<close> an operation was started on: that of the client's socket for reads of requests
  and writes of responses, the shard's for everything else.\<close>

fun completion_loop :: "continuation \<Rightarrow> loop_socket \<Rightarrow> nat \<Rightarrow> nat" where
  "completion_loop AwaitRequestRead sock l = bound_loop sock"
| "completion_loop AwaitResponseWrite sock l = bound_loop sock"
| "completion_loop _ sock l = l"

section \<open>Steps\<close>

abbreviation with_shard :: "('e, 'v) process \<Rightarrow> nat \<Rightarrow> ('e, 'v) GatewayShard \<Rightarrow> ('e, 'v) process" where
  "with_shard ps i sh \<equiv>
     ps\<lparr>proc_runtime := (proc_runtime ps)\<lparr>shards := (shards (proc_runtime ps))[i := sh]\<rparr>\<rparr>"

inductive process_step ::
  "'e llhttp_engine \<Rightarrow> ('e, 'v) process \<Rightarrow> nat \<Rightarrow> ('e, 'v) process \<Rightarrow> bool" for eng where
  runs_loop:
    "\<not> has_run (proc_loops ps l) \<Longrightarrow>
     process_step eng ps (thread_of_loop l)
       (ps\<lparr>proc_loops := (proc_loops ps)(l := BoostEventLoop_run (thread_of_loop l) (proc_loops ps l))\<rparr>)"
| accepts:
    "\<lbrakk>is_current_thread t (proc_loops ps 0); listener_running (proc_runtime ps); accepting (proc_runtime ps);
      on_accept_done err h (proc_runtime ps) = Some rt'\<rbrakk> \<Longrightarrow>
     process_step eng ps t (ps\<lparr>proc_runtime := rt'\<rparr>)"
| reports:
    "\<lbrakk>is_current_thread t (proc_loops ps 0); listener_running (proc_runtime ps);
      armed_for (aggregator (proc_runtime ps)) \<noteq> None\<rbrakk> \<Longrightarrow>
     process_step eng ps t (ps\<lparr>proc_runtime := (proc_runtime ps)\<lparr>aggregator :=
       snd (aggregator_on_timer err (shards (proc_runtime ps)) (aggregator (proc_runtime ps)))\<rparr>\<rparr>)"
| task:
    "\<lbrakk>shards_stopped (proc_runtime ps) \<le> i; i < length (shards (proc_runtime ps));
      is_current_thread t (proc_loops ps (shard_loop (proc_shard ps i)));
      checked_task eng t ps i = Some sh\<rbrakk> \<Longrightarrow> process_step eng ps t (with_shard ps i sh)"
| io_done:
    "\<lbrakk>shards_stopped (proc_runtime ps) \<le> i; i < length (shards (proc_runtime ps));
      j < length (shard_sessions (proc_shard ps i)); shard_sessions (proc_shard ps i) ! j = (sock, s);
      c \<in> set (pending s); fits s c x;
      is_current_thread t (proc_loops ps (completion_loop c sock (shard_loop (proc_shard ps i))));
      checked_completion eng t ps i j c x = Some sh\<rbrakk> \<Longrightarrow> process_step eng ps t (with_shard ps i sh)"
| dns:
    "\<lbrakk>shards_stopped (proc_runtime ps) \<le> i; i < length (shards (proc_runtime ps));
      is_current_thread t (proc_loops ps (shard_loop (proc_shard ps i)))\<rbrakk> \<Longrightarrow>
     process_step eng ps t (with_shard ps i (run_dns_refresh err resolve (proc_shard ps i)))"
| stops_listener:
    "\<not> stopped (proc_runtime ps) \<Longrightarrow>
     process_step eng ps 0 (ps\<lparr>proc_runtime := stop_begin (proc_runtime ps)\<rparr>)"
| joins_listener:
    "stopped (proc_runtime ps) \<Longrightarrow>
     process_step eng ps 0 (ps\<lparr>proc_runtime := stop_listener_loop (proc_runtime ps)\<rparr>)"
| joins_shard:
    "\<lbrakk>stopped (proc_runtime ps); \<not> listener_running (proc_runtime ps);
      shards_stopped (proc_runtime ps) < length (shards (proc_runtime ps))\<rbrakk> \<Longrightarrow>
     process_step eng ps 0 (ps\<lparr>proc_runtime := stop_next_shard (proc_runtime ps)\<rparr>)"

inductive process_reachable ::
  "'e llhttp_engine \<Rightarrow> ('e, 'v) process \<Rightarrow> ('e, 'v) process \<Rightarrow> bool" for eng ps0 where
  begins: "process_reachable eng ps0 ps0"
| step: "process_reachable eng ps0 ps \<Longrightarrow> process_step eng ps t ps' \<Longrightarrow> process_reachable eng ps0 ps'"

section \<open>The threads refine the interleavings\<close>

lemma checked_task_runs: "checked_task eng t ps i = Some sh \<Longrightarrow> run_posted eng (proc_shard ps i) = Some sh"
  by (auto simp: checked_task_def Let_def split: bind_splits)

lemma checked_completion_runs:
  "checked_completion eng t ps i j c x = Some sh \<Longrightarrow> run_completion eng j c x (proc_shard ps i) = Some sh"
  by (auto simp: checked_completion_def Let_def split: bind_splits)

lemma process_step_runtime:
  assumes "process_step eng ps t ps'"
  shows "proc_runtime ps' = proc_runtime ps \<or> (\<exists>hs. runtime_step eng (proc_runtime ps) hs (proc_runtime ps'))"
  using assms
proof (cases rule: process_step.cases)
  case (accepts err h rt')
  then show ?thesis using runtime_step.accept_done[OF accepts(3-5) refl] by auto
next
  case (reports err)
  then show ?thesis using runtime_step.report[of "proc_runtime ps"] by auto
next
  case (task i sh)
  then show ?thesis
    using runtime_step.shard_thread[OF task(2,3) shard_runs.task[OF checked_task_runs[OF task(5)]]] by auto
next
  case (io_done i j sock s c x sh)
  then have "shard_runs eng (proc_shard ps i) sh"
    using checked_completion_runs[OF io_done(9)] by (intro shard_runs.io_done) simp_all
  from runtime_step.shard_thread[OF io_done(2,3) this] io_done(1) show ?thesis by auto
next
  case (dns i err resolve)
  then show ?thesis using runtime_step.shard_thread[OF dns(2,3) shard_runs.dns] by auto
qed (auto intro: runtime_step.intros)

lemma process_reachable_runtime:
  assumes "process_reachable eng (process_start rt0) ps"
  shows "\<exists>hs. runtime_reachable eng rt0 hs (proc_runtime ps)"
  using assms
proof (induction rule: process_reachable.induct)
  case begins
  then show ?case by (auto simp: process_start_def intro: runtime_reachable.base)
next
  case (step ps t ps')
  then show ?case using process_step_runtime[OF step(2)] by (metis runtime_reachable.step)
qed

lemma loop_owners:
  assumes "process_reachable eng (process_start rt0) ps"
  shows "is_current_thread t (proc_loops ps l) \<Longrightarrow> t = thread_of_loop l"
  using assms
proof (induction arbitrary: t l rule: process_reachable.induct)
  case begins
  then show ?case by (simp add: process_start_def)
next
  case (step ps t0 ps')
  from step(2) step.IH step.prems show ?case
    by (cases rule: process_step.cases) (auto split: if_splits)
qed

section \<open>What a thread may touch\<close>

text \<open>The shard as another thread sees it: the same but for connections queued at the end.\<close>

definition only_queued :: "('e, 'v) GatewayShard \<Rightarrow> ('e, 'v) GatewayShard \<Rightarrow> bool" where
  "only_queued sh sh' \<longleftrightarrow> (\<exists>q. sh' = sh\<lparr>posted := posted sh @ q\<rparr>)"

lemma only_queued_same [simp]: "only_queued sh sh"
  unfolding only_queued_def by (rule exI[of _ "[]"]) simp

lemma only_queued_accept [simp]: "only_queued sh (accept_from sock sh)"
  by (auto simp: only_queued_def accept_from_def)

lemma on_accept_queues:
  assumes "on_accept_done err h rt = Some rt'"
  shows "only_queued (shards rt ! i) (shards rt' ! i)"
  using assms
  by (cases "i < length (shards rt)")
    (auto simp: on_accept_done_def pick_shard_def nth_list_update split: if_splits bind_splits)

lemma step_by_other_thread:
  assumes "process_reachable eng (process_start rt0) ps" "runtime_invar n hs (proc_runtime ps)"
    and "process_step eng ps t ps'" "i < n" "t \<noteq> shard_thread i"
  shows "only_queued (proc_shard ps i) (proc_shard ps' i)"
proof -
  note own = loop_owners[OF assms(1)]
  have sl: "shard_loop (proc_shard ps k) = Suc k" "length (shards (proc_runtime ps)) = n" if "k < n" for k
    using assms(2) that by (simp_all add: runtime_invar_def)
  have bl: "bound_loop sock = Suc k"
    if "k < n" "j < length (shard_sessions (proc_shard ps k))" "shard_sessions (proc_shard ps k) ! j = (sock, s)" for k j sock s
  proof -
    have "shard_invar (proc_shard ps k)" using assms(2) that(1) by (simp add: runtime_invar_def)
    with nth_mem[OF that(2)] that(3) sl(1)[OF that(1)] show ?thesis by (auto simp: shard_invar_def)
  qed
  have other: "k \<noteq> i" if "k < n" "is_current_thread t (proc_loops ps (Suc k))" for k
    using own[OF that(2)] assms(5) by (auto simp: thread_of_loop_def)
  from assms(3) show ?thesis
  proof (cases rule: process_step.cases)
    case (accepts err h rt')
    with on_accept_queues show ?thesis by auto
  next
    case (task k sh)
    with other[of k] sl(1)[of k] assms(4) sl(2)[OF assms(4)] show ?thesis by simp
  next
    case (io_done k j sock s c x sh)
    then have "completion_loop c sock (shard_loop (proc_shard ps k)) = Suc k"
      using bl[of k j sock s] sl(1)[of k] sl(2)[OF assms(4)] by (cases c) simp_all
    with other[of k] io_done sl(2)[OF assms(4)] show ?thesis by simp
  next
    case (dns k err resolve)
    with other[of k] sl(1)[of k] sl(2)[OF assms(4)] show ?thesis by simp
  qed (auto simp: stop_begin_def listener_stop_def stop_listener_loop_def stop_next_shard_def)
qed

lemma checked_task_ok:
  assumes "shard_invar (proc_shard ps i)" "is_current_thread t (proc_loops ps (shard_loop (proc_shard ps i)))"
    and "posted (proc_shard ps i) \<noteq> []"
  shows "\<exists>sh. checked_task eng t ps i = Some sh"
proof -
  obtain sock rest where "posted (proc_shard ps i) = sock # rest" using assms(3) by (cases "posted (proc_shard ps i)") simp_all
  from run_posted_ok[OF assms(1) this, of eng] assms(2) show ?thesis
    by (auto simp: checked_task_def Let_def assert_on_owning_thread_def)
qed

lemma checked_completion_ok:
  assumes "shard_invar (proc_shard ps i)" "j < length (shard_sessions (proc_shard ps i))"
    and "shard_sessions (proc_shard ps i) ! j = (sock, s)" "c \<in> set (pending s)" "fits s c x"
    and "is_current_thread t (proc_loops ps (completion_loop c sock (shard_loop (proc_shard ps i))))"
  shows "bound_loop sock = shard_loop (proc_shard ps i) \<and> (\<exists>sh. checked_completion eng t ps i j c x = Some sh)"
proof -
  have b: "bound_loop sock = shard_loop (proc_shard ps i)"
    using assms(1,3) nth_mem[OF assms(2)] by (auto simp: shard_invar_def)
  then have "completion_loop c sock (shard_loop (proc_shard ps i)) = shard_loop (proc_shard ps i)" by (cases c) simp_all
  with b run_completion_ok[OF assms(1,2), of c x eng] assms(3-6) show ?thesis
    by (auto simp: checked_completion_def Let_def assert_on_owning_thread_def)
qed

end
