(* ===== verification/Raw_Session.thy ===== *)
theory Raw_Session
  imports Http_Session_Proofs
begin

text \<open>
  \<open>Session\<close> (\<open>src/session/session.hpp\<close>), the byte relay that preceded \<open>HttpSession\<close>: two relays,
  client to upstream and upstream to client, run side by side over one pair of sockets. Unlike
  \<open>HttpSession\<close> it has two outstanding operations, so that one relay may close the session while
  an operation of the other is outstanding. \<open>None\<close> is a null pointer dereference, as in
  \<open>Http_Session\<close>.
\<close>

section \<open>State\<close>

datatype raw_op =
  RawAwaitAcquire | RawAwaitDownRead | RawAwaitUpWrite | RawAwaitUpRead | RawAwaitDownWrite

datatype raw_event =
    RawConnect Endpoint nat | RawUpWrite socket_id byte_list | RawDownWrite byte_list
  | RawDownClosed | RawUpClosed socket_id | RawUpCancelled socket_id | RawUpReleased socket_id

text \<open>\<open>raw_upstream_open\<close> is what \<open>upstream_->is_open()\<close> returns.\<close>

record RawSession =
  raw_upstream :: "socket_id option"
  raw_upstream_open :: bool
  raw_manager :: UpstreamManager
  raw_endpoint :: nat
  raw_upstream_healthy :: bool
  raw_pool :: BufferPool
  raw_down_to_up :: "byte_list option"
  raw_up_to_down :: "byte_list option"
  raw_metrics :: LocalMetrics
  raw_closing :: bool
  raw_pending :: "raw_op list"
  raw_io :: "raw_event list"

definition RawSession_new :: "UpstreamManager \<Rightarrow> BufferPool \<Rightarrow> LocalMetrics \<Rightarrow> RawSession" where
  "RawSession_new um pool m =
     \<lparr>raw_upstream = None, raw_upstream_open = True, raw_manager = um, raw_endpoint = 0,
      raw_upstream_healthy = True, raw_pool = pool, raw_down_to_up = None, raw_up_to_down = None,
      raw_metrics = m, raw_closing = False, raw_pending = [], raw_io = []\<rparr>"

section \<open>Operations\<close>

definition raw_close_upstream :: "RawSession \<Rightarrow> RawSession option" where
  "raw_close_upstream s =
     (case raw_upstream s of
        None \<Rightarrow> Some s
      | Some k \<Rightarrow>
          if raw_upstream_healthy s \<and> raw_upstream_open s then
            do { (um, full) \<leftarrow> release_connection (raw_endpoint s) k (raw_manager s);
                 Some (s\<lparr>raw_upstream := None, raw_manager := um,
                         raw_io := raw_io s @ [RawUpCancelled k,
                           case full of None \<Rightarrow> RawUpReleased k | Some x \<Rightarrow> RawUpClosed x]\<rparr>) }
          else Some (s\<lparr>raw_io := raw_io s @ [RawUpClosed k]\<rparr>))"

definition raw_close :: "RawSession \<Rightarrow> RawSession option" where
  "raw_close s =
     (if raw_closing s then Some s
      else
        do { s1 \<leftarrow> raw_close_upstream (s\<lparr>raw_closing := True, raw_io := raw_io s @ [RawDownClosed]\<rparr>);
             Some (s1\<lparr>raw_down_to_up := None, raw_up_to_down := None,
                      raw_pool := BufferPool_release (raw_up_to_down s1)
                        (BufferPool_release (raw_down_to_up s1) (raw_pool s1)),
                      raw_metrics := on_close (raw_metrics s1)\<rparr>) })"

definition raw_relay_down :: "RawSession \<Rightarrow> RawSession option" where
  "raw_relay_down s =
     do { _ \<leftarrow> raw_down_to_up s; Some (s\<lparr>raw_pending := raw_pending s @ [RawAwaitDownRead]\<rparr>) }"

definition raw_relay_up :: "RawSession \<Rightarrow> RawSession option" where
  "raw_relay_up s =
     do { _ \<leftarrow> raw_upstream s; _ \<leftarrow> raw_up_to_down s;
          Some (s\<lparr>raw_pending := raw_pending s @ [RawAwaitUpRead]\<rparr>) }"

definition raw_on_down_read :: "Error \<Rightarrow> byte_list \<Rightarrow> RawSession \<Rightarrow> RawSession option" where
  "raw_on_down_read err bs s =
     (if \<not> Error_ok err then raw_close s
      else do { k \<leftarrow> raw_upstream s; b \<leftarrow> raw_down_to_up s;
                Some (s\<lparr>raw_down_to_up := Some (overwrite b bs),
                        raw_pending := raw_pending s @ [RawAwaitUpWrite],
                        raw_io := raw_io s @ [RawUpWrite k (take (length bs) (overwrite b bs))]\<rparr>) })"

definition raw_on_up_write :: "Error \<Rightarrow> nat \<Rightarrow> RawSession \<Rightarrow> RawSession option" where
  "raw_on_up_write err written s =
     (if \<not> Error_ok err then raw_close (s\<lparr>raw_upstream_healthy := False\<rparr>)
      else raw_relay_down
        (s\<lparr>raw_metrics := (raw_metrics s)\<lparr>bytes_downstream_to_upstream :=
             bytes_downstream_to_upstream (raw_metrics s) + of_nat written\<rparr>\<rparr>))"

definition raw_on_up_read :: "Error \<Rightarrow> byte_list \<Rightarrow> RawSession \<Rightarrow> RawSession option" where
  "raw_on_up_read err bs s =
     (if \<not> Error_ok err then raw_close (s\<lparr>raw_upstream_healthy := False\<rparr>)
      else do { b \<leftarrow> raw_up_to_down s;
                Some (s\<lparr>raw_up_to_down := Some (overwrite b bs),
                        raw_pending := raw_pending s @ [RawAwaitDownWrite],
                        raw_io := raw_io s @ [RawDownWrite (take (length bs) (overwrite b bs))]\<rparr>) })"

definition raw_on_down_write :: "Error \<Rightarrow> nat \<Rightarrow> RawSession \<Rightarrow> RawSession option" where
  "raw_on_down_write err written s =
     (if \<not> Error_ok err then raw_close s
      else raw_relay_up
        (s\<lparr>raw_metrics := (raw_metrics s)\<lparr>bytes_upstream_to_downstream :=
             bytes_upstream_to_downstream (raw_metrics s) + of_nat written\<rparr>\<rparr>))"

definition raw_on_upstream_ready :: "RawSession \<Rightarrow> RawSession option" where
  "raw_on_upstream_ready s =
     (let (b1, p1) = BufferPool_acquire (raw_pool s); (b2, p2) = BufferPool_acquire p1 in
      do { s1 \<leftarrow> raw_relay_down
                   (s\<lparr>raw_down_to_up := Some b1, raw_up_to_down := Some b2, raw_pool := p2\<rparr>);
           raw_relay_up s1 })"

definition raw_on_acquire :: "Error \<Rightarrow> socket_id option \<Rightarrow> RawSession \<Rightarrow> RawSession option" where
  "raw_on_acquire err sock s =
     (if \<not> Error_ok err \<or> sock = None then
        raw_close (s\<lparr>raw_metrics := (raw_metrics s)\<lparr>upstream_connect_errors :=
                       upstream_connect_errors (raw_metrics s) + 1\<rparr>,
                     raw_upstream_healthy := False\<rparr>)
      else raw_on_upstream_ready (s\<lparr>raw_upstream := sock\<rparr>))"

definition raw_connect_upstream :: "RawSession \<Rightarrow> RawSession option" where
  "raw_connect_upstream s =
     do { (idx, um1) \<leftarrow> select_endpoint (raw_manager s);
          (acq, um2) \<leftarrow> acquire_connection idx um1;
          let s1 = s\<lparr>raw_endpoint := idx, raw_manager := um2\<rparr>;
          case acq of
            Pooled k \<Rightarrow> raw_on_acquire Error_none (Some k) s1
          | Connecting ep timeout \<Rightarrow>
              Some (s1\<lparr>raw_pending := raw_pending s1 @ [RawAwaitAcquire],
                       raw_io := raw_io s1 @ [RawConnect ep timeout]\<rparr>) }"

definition raw_start :: "RawSession \<Rightarrow> RawSession option" where
  "raw_start s = raw_connect_upstream (s\<lparr>raw_metrics := on_accept (raw_metrics s)\<rparr>)"

section \<open>The event loop\<close>

fun raw_complete :: "raw_op \<Rightarrow> completion \<Rightarrow> RawSession \<Rightarrow> RawSession option" where
  "raw_complete RawAwaitAcquire (AcquireDone err k) s = raw_on_acquire err k s"
| "raw_complete RawAwaitDownRead (ReadDone err bs) s = raw_on_down_read err bs s"
| "raw_complete RawAwaitUpWrite (WriteDone err n) s = raw_on_up_write err n s"
| "raw_complete RawAwaitUpRead (ReadDone err bs) s = raw_on_up_read err bs s"
| "raw_complete RawAwaitDownWrite (WriteDone err n) s = raw_on_down_write err n s"
| "raw_complete _ _ s = None"

text \<open>A read brings no more bytes than the buffer it was given has.\<close>

fun raw_fits :: "RawSession \<Rightarrow> raw_op \<Rightarrow> completion \<Rightarrow> bool" where
  "raw_fits s RawAwaitAcquire (AcquireDone err k) = True"
| "raw_fits s RawAwaitDownRead (ReadDone err bs) =
     (\<forall>b. raw_down_to_up s = Some b \<longrightarrow> length bs \<le> length b)"
| "raw_fits s RawAwaitUpWrite (WriteDone err n) = True"
| "raw_fits s RawAwaitUpRead (ReadDone err bs) =
     (\<forall>b. raw_up_to_down s = Some b \<longrightarrow> length bs \<le> length b)"
| "raw_fits s RawAwaitDownWrite (WriteDone err n) = True"
| "raw_fits s _ _ = False"

text \<open>Closing or cancelling the sockets makes outstanding operations complete with an error. An
  operation that had already succeeded when the session closed, but whose callback is still
  queued, is not covered by this: \<open>late_success\<close> excludes it.\<close>

definition late_success :: "RawSession \<Rightarrow> completion \<Rightarrow> bool" where
  "late_success s r \<longleftrightarrow> raw_closing s \<and> Error_ok (completion_error r)"

definition raw_run :: "raw_op \<Rightarrow> completion \<Rightarrow> RawSession \<Rightarrow> RawSession option" where
  "raw_run c r s = raw_complete c r (s\<lparr>raw_pending := remove1 c (raw_pending s)\<rparr>)"

inductive raw_reachable :: "RawSession \<Rightarrow> RawSession \<Rightarrow> bool" for s0 where
  start: "raw_start s0 = Some s \<Longrightarrow> raw_reachable s0 s"
| io_done: "\<lbrakk>raw_reachable s0 s; c \<in> set (raw_pending s); raw_fits s c r; \<not> late_success s r;
    raw_run c r s = Some s'\<rbrakk> \<Longrightarrow> raw_reachable s0 s'"
| others: "\<lbrakk>raw_reachable s0 s; um_invar um; length (endpoints um) = length (endpoints (raw_manager s));
    pool_invar p; buffer_size p = buffer_size (raw_pool s)\<rbrakk> \<Longrightarrow>
    raw_reachable s0 (s\<lparr>raw_manager := um, raw_pool := p, raw_metrics := m, raw_upstream_open := b\<rparr>)"

section \<open>Invariant\<close>

definition raw_shared_ok :: "RawSession \<Rightarrow> bool" where
  "raw_shared_ok s \<longleftrightarrow> um_invar (raw_manager s) \<and> pool_invar (raw_pool s) \<and>
     raw_endpoint s < length (endpoints (raw_manager s))"

definition buf_ok :: "RawSession \<Rightarrow> byte_list option \<Rightarrow> bool" where
  "buf_ok s bo \<longleftrightarrow> (\<exists>b. bo = Some b \<and> length b = buffer_size (raw_pool s))"

definition upstream_ends :: "raw_event list \<Rightarrow> nat" where
  "upstream_ends es = length (filter (\<lambda>e. case e of RawUpClosed k \<Rightarrow> True | RawUpReleased k \<Rightarrow> True
     | _ \<Rightarrow> False) es)"

definition opposite :: "raw_op \<Rightarrow> raw_op \<Rightarrow> bool" where
  "opposite a b \<longleftrightarrow> a \<in> {RawAwaitDownRead, RawAwaitUpWrite} \<and> b \<in> {RawAwaitUpRead, RawAwaitDownWrite} \<or>
     b \<in> {RawAwaitDownRead, RawAwaitUpWrite} \<and> a \<in> {RawAwaitUpRead, RawAwaitDownWrite}"

text \<open>Nothing is closed yet; the session waits for its connection, or relays.\<close>

definition raw_open :: "RawSession \<Rightarrow> bool" where
  "raw_open s \<longleftrightarrow> \<not> raw_closing s \<and> raw_shared_ok s \<and> count_list (raw_io s) RawDownClosed = 0 \<and>
     upstream_ends (raw_io s) = 0"

definition raw_waiting :: "RawSession \<Rightarrow> bool" where
  "raw_waiting s \<longleftrightarrow> raw_open s \<and> raw_upstream s = None \<and> raw_down_to_up s = None \<and> raw_up_to_down s = None"

definition raw_relaying :: "RawSession \<Rightarrow> bool" where
  "raw_relaying s \<longleftrightarrow> raw_open s \<and> raw_upstream s \<noteq> None \<and> buf_ok s (raw_down_to_up s) \<and>
     buf_ok s (raw_up_to_down s)"

definition raw_closed :: "RawSession \<Rightarrow> bool" where
  "raw_closed s \<longleftrightarrow> raw_closing s \<and> raw_shared_ok s \<and> raw_down_to_up s = None \<and> raw_up_to_down s = None \<and>
     count_list (raw_io s) RawDownClosed = 1 \<and> upstream_ends (raw_io s) \<le> 1 \<and>
     RawAwaitAcquire \<notin> set (raw_pending s) \<and> length (raw_pending s) \<le> 1"

definition raw_invar :: "RawSession \<Rightarrow> bool" where
  "raw_invar s \<longleftrightarrow> raw_closed s \<or> raw_waiting s \<and> raw_pending s = [RawAwaitAcquire] \<or>
     raw_relaying s \<and> (\<exists>a b. raw_pending s = [a, b] \<and> opposite a b)"

lemmas raw_defs = raw_open_def raw_waiting_def raw_relaying_def raw_closed_def raw_shared_ok_def buf_ok_def

lemma upstream_ends_append [simp]: "upstream_ends (xs @ ys) = upstream_ends xs + upstream_ends ys"
  by (simp add: upstream_ends_def)

lemma upstream_ends_simps [simp]:
  "upstream_ends [] = 0" "upstream_ends (RawDownClosed # es) = upstream_ends es"
  "upstream_ends (RawUpClosed k # es) = Suc (upstream_ends es)"
  "upstream_ends (RawUpReleased k # es) = Suc (upstream_ends es)"
  "upstream_ends (RawUpCancelled k # es) = upstream_ends es"
  "upstream_ends (RawConnect ep t # es) = upstream_ends es"
  "upstream_ends (RawUpWrite k b # es) = upstream_ends es"
  "upstream_ends (RawDownWrite b # es) = upstream_ends es"
  by (simp_all add: upstream_ends_def)

lemma pool_release_ok:
  "pool_invar p \<Longrightarrow> bo = None \<or> (\<exists>b. bo = Some b \<and> length b = buffer_size p) \<Longrightarrow>
     pool_invar (BufferPool_release bo p)"
  "buffer_size (BufferPool_release bo p) = buffer_size p"
  by (auto simp: bp.release_invar bp.release_none bp.release_consts)

lemma raw_close_upstream_ok:
  assumes "raw_shared_ok s"
  shows "\<exists>up um evs. raw_close_upstream s =
       Some (s\<lparr>raw_upstream := up, raw_manager := um, raw_io := raw_io s @ evs\<rparr>) \<and>
     um_invar um \<and> length (endpoints um) = length (endpoints (raw_manager s)) \<and>
     count_list evs RawDownClosed = 0 \<and> upstream_ends evs \<le> 1"
proof (cases "raw_upstream s")
  case None
  with assms show ?thesis
    by (intro exI[of _ None] exI[of _ "raw_manager s"] exI[of _ "[]"])
      (auto simp: raw_close_upstream_def raw_shared_ok_def)
next
  case (Some k)
  have "um_invar (raw_manager s)" "raw_endpoint s < um_count (raw_manager s)"
    using assms by (simp_all add: raw_shared_ok_def um_count_def)
  from um_pool.release_ok[OF this, of k] obtain um c where
    rel: "release_connection (raw_endpoint s) k (raw_manager s) = Some (um, c)"
      "um_invar um" "um_count um = um_count (raw_manager s)" by blast
  show ?thesis
  proof (cases "raw_upstream_healthy s \<and> raw_upstream_open s")
    case True
    with Some rel show ?thesis
      by (intro exI[of _ None] exI[of _ um]
          exI[of _ "[RawUpCancelled k, case c of None \<Rightarrow> RawUpReleased k | Some x \<Rightarrow> RawUpClosed x]"])
        (auto simp: raw_close_upstream_def um_count_def split: option.splits)
  next
    case False
    with Some assms show ?thesis
      by (intro exI[of _ "Some k"] exI[of _ "raw_manager s"] exI[of _ "[RawUpClosed k]"])
        (auto simp: raw_close_upstream_def raw_shared_ok_def)
  qed
qed

lemma raw_close_ok:
  assumes "raw_waiting s \<or> raw_relaying s" "RawAwaitAcquire \<notin> set (raw_pending s)"
    and "length (raw_pending s) \<le> 1"
  shows "\<exists>s'. raw_close s = Some s' \<and> raw_closed s' \<and> raw_pending s' = raw_pending s"
proof -
  let ?s = "s\<lparr>raw_closing := True, raw_io := raw_io s @ [RawDownClosed]\<rparr>"
  have o: "raw_open s" using assms(1) by (auto simp: raw_defs)
  then have "raw_shared_ok ?s" by (simp add: raw_defs)
  from raw_close_upstream_ok[OF this] obtain up um evs where
    c: "raw_close_upstream ?s = Some (?s\<lparr>raw_upstream := up, raw_manager := um, raw_io := raw_io ?s @ evs\<rparr>)"
      "um_invar um" "length (endpoints um) = length (endpoints (raw_manager s))"
      "count_list evs RawDownClosed = 0" "upstream_ends evs \<le> 1" by auto
  let ?p = "BufferPool_release (raw_up_to_down s) (BufferPool_release (raw_down_to_up s) (raw_pool s))"
  have "pool_invar ?p" using assms(1) by (intro pool_release_ok) (auto simp: raw_defs pool_release_ok(2))
  with c o assms(2,3) show ?thesis by (simp add: raw_close_def raw_defs)
qed

lemma raw_ready_ok:
  assumes "raw_waiting s" "raw_pending s = []"
  shows "\<exists>s'. raw_on_upstream_ready (s\<lparr>raw_upstream := Some k\<rparr>) = Some s' \<and> raw_relaying s' \<and>
     raw_pending s' = [RawAwaitDownRead, RawAwaitUpRead]"
proof -
  obtain b1 p1 where p1: "BufferPool_acquire (raw_pool s) = (b1, p1)" by fastforce
  obtain b2 p2 where p2: "BufferPool_acquire p1 = (b2, p2)" by fastforce
  have i: "pool_invar (raw_pool s)" using assms(1) by (simp add: raw_defs)
  have i1: "pool_invar p1" "length b1 = buffer_size (raw_pool s)" "buffer_size p1 = buffer_size (raw_pool s)"
    using bp.acquire_invar[OF i] bp.acquire_size[OF i] bp.acquire_consts[of "raw_pool s"] p1 by simp_all
  have i2: "pool_invar p2" "length b2 = buffer_size (raw_pool s)" "buffer_size p2 = buffer_size (raw_pool s)"
    using bp.acquire_invar[OF i1(1)] bp.acquire_size[OF i1(1)] bp.acquire_consts[of p1] p2 i1(3) by simp_all
  show ?thesis
    using assms i1 i2 p1 p2
    by (simp add: raw_on_upstream_ready_def raw_relay_down_def raw_relay_up_def raw_defs)
qed

lemma raw_acquire_ok:
  assumes "raw_waiting s" "raw_pending s = []"
  shows "\<exists>s'. raw_on_acquire err sock s = Some s' \<and> raw_invar s'"
proof (cases "\<not> Error_ok err \<or> sock = None")
  case True
  let ?s = "s\<lparr>raw_metrics := (raw_metrics s)\<lparr>upstream_connect_errors :=
      upstream_connect_errors (raw_metrics s) + 1\<rparr>, raw_upstream_healthy := False\<rparr>"
  have "raw_waiting ?s" using assms(1) by (simp add: raw_defs)
  with raw_close_ok[of ?s] assms(2) True show ?thesis by (auto simp: raw_on_acquire_def raw_invar_def)
next
  case False
  then obtain k where "sock = Some k" by auto
  with raw_ready_ok[OF assms, of k] False show ?thesis
    by (auto simp: raw_on_acquire_def raw_invar_def opposite_def)
qed

lemma raw_start_ok:
  assumes "um_invar um" "pool_invar pool"
  shows "\<exists>s. raw_start (RawSession_new um pool m) = Some s \<and> raw_invar s"
proof -
  obtain i um1 where sel: "select_endpoint um = Some (i, um1)" "um_invar um1" "i < um_count um1"
    using assms(1) by (auto simp: select_endpoint_def um_invar_def um_count_def Let_def)
  obtain a um2 where acq: "acquire_connection i um1 = Some (a, um2)" "um_invar um2"
    "um_count um2 = um_count um1" using um_pool.acquire_ok[OF sel(2,3)] by blast
  let ?s = "(RawSession_new um pool m)\<lparr>raw_metrics := on_accept m, raw_endpoint := i, raw_manager := um2\<rparr>"
  have w: "raw_waiting ?s" "raw_pending ?s = []"
    using acq sel assms(2) by (simp_all add: RawSession_new_def raw_defs um_count_def)
  show ?thesis
  proof (cases a)
    case (Pooled k)
    with sel acq raw_acquire_ok[OF w, of Error_none "Some k"] show ?thesis
      by (simp add: raw_start_def raw_connect_upstream_def RawSession_new_def)
  next
    case (Connecting ep t)
    with sel acq w show ?thesis
      by (auto simp: raw_start_def raw_connect_upstream_def RawSession_new_def raw_invar_def raw_defs)
  qed
qed

text \<open>A completion for a closed session that carries an error has no effect.\<close>

lemma raw_error_after_close:
  assumes "raw_closed s" "c \<in> set (raw_pending s)" "raw_fits s c r" "\<not> Error_ok (completion_error r)"
  shows "\<exists>s'. raw_run c r s = Some s' \<and> raw_closed s'"
proof -
  have "RawAwaitAcquire \<notin> set (remove1 c (raw_pending s))"
    "length (remove1 c (raw_pending s)) \<le> 1"
    using assms(1) by (auto simp: raw_closed_def length_remove1 dest: notin_set_remove1)
  with assms show ?thesis
    by (cases c; cases r)
      (auto simp: raw_run_def raw_on_down_read_def raw_on_up_write_def raw_on_up_read_def
        raw_on_down_write_def raw_close_def raw_defs)
qed

text \<open>One relay goes on or closes the session; \<open>b\<close> is the operation of the other one.\<close>

lemma raw_relay_ok:
  assumes "raw_relaying s" "raw_pending s = [b]" "opposite c b" "raw_fits s c r"
  shows "\<exists>s'. raw_complete c r s = Some s' \<and> raw_invar s' \<and>
     (\<not> Error_ok (completion_error r) \<longrightarrow> raw_closed s' \<and> raw_pending s' = [b])"
proof (cases "Error_ok (completion_error r)")
  case True
  with assms show ?thesis
    by (cases c; cases r)
      (auto simp: raw_on_down_read_def raw_on_up_write_def raw_on_up_read_def raw_on_down_write_def
        raw_relay_down_def raw_relay_up_def raw_invar_def raw_defs opposite_def length_overwrite)
next
  case False
  have b: "RawAwaitAcquire \<notin> set (raw_pending s)" using assms(2,3) by (auto simp: opposite_def)
  have "raw_relaying (s\<lparr>raw_upstream_healthy := False\<rparr>)" using assms(1) by (simp add: raw_defs)
  with raw_close_ok[of s] raw_close_ok[of "s\<lparr>raw_upstream_healthy := False\<rparr>"] assms b False show ?thesis
    by (cases c; cases r)
      (auto simp: raw_on_down_read_def raw_on_up_write_def raw_on_up_read_def raw_on_down_write_def
        raw_invar_def opposite_def)
qed

lemma raw_run_ok:
  assumes "raw_invar s" "c \<in> set (raw_pending s)" "raw_fits s c r" "\<not> late_success s r"
  shows "\<exists>s'. raw_run c r s = Some s' \<and> raw_invar s'"
  using assms(1)[unfolded raw_invar_def]
proof (elim disjE conjE exE)
  assume "raw_closed s"
  with raw_error_after_close[OF this assms(2,3)] assms(4) show ?thesis
    by (auto simp: late_success_def raw_closed_def raw_invar_def)
next
  assume w: "raw_waiting s" "raw_pending s = [RawAwaitAcquire]"
  then have "raw_waiting (s\<lparr>raw_pending := []\<rparr>)" by (simp add: raw_defs)
  with raw_acquire_ok[OF this] w assms(2,3) show ?thesis
    by (cases r) (auto simp: raw_run_def raw_invar_def)
next
  fix a b assume r: "raw_relaying s" "raw_pending s = [a, b]" "opposite a b"
  have "\<exists>o'. remove1 c [a, b] = [o'] \<and> opposite c o'" using assms(2) r(2,3) by (auto simp: opposite_def)
  then obtain o' where o': "remove1 c [a, b] = [o']" "opposite c o'" by blast
  have rs: "raw_relaying (s\<lparr>raw_pending := [o']\<rparr>)" using r(1) by (simp add: raw_defs)
  have f: "raw_fits (s\<lparr>raw_pending := [o']\<rparr>) c r" using assms(3) by (cases c; cases r) auto
  from raw_relay_ok[OF rs _ o'(2) f] r(2) o'(1) show ?thesis by (auto simp: raw_run_def raw_invar_def)
qed

lemma raw_reachable_invar:
  assumes "raw_reachable (RawSession_new um pool m) s" "um_invar um" "pool_invar pool"
  shows "raw_invar s"
  using assms(1)
proof (induction rule: raw_reachable.induct)
  case (start s)
  with raw_start_ok[OF assms(2,3), of m] show ?case by auto
next
  case (io_done s c r s')
  with raw_run_ok[of s c r] show ?case by auto
next
  case (others s um p m b)
  then show ?case by (auto simp: raw_invar_def raw_defs)
qed

section \<open>Properties\<close>

text \<open>C33. The byte relay is safe as long as no success is reported after it closed: in every reachable
  state every completion of an outstanding operation runs without dereferencing a null pointer;
  an open session waits for its connection or has exactly one operation outstanding per
  direction; a closed one has given back its buffers and closed the client connection once; and
  the upstream connection is given up, by closing it or by returning it to the pool, at most once.\<close>

theorem raw_session_safe:
  assumes "raw_reachable (RawSession_new um pool m) s" "um_invar um" "pool_invar pool"
  shows "(\<forall>c \<in> set (raw_pending s). \<forall>r. raw_fits s c r \<and> \<not> late_success s r \<longrightarrow>
        (\<exists>s'. raw_run c r s = Some s')) \<and>
     (\<not> raw_closing s \<longrightarrow> raw_pending s = [RawAwaitAcquire] \<or>
        (\<exists>a b. raw_pending s = [a, b] \<and> opposite a b)) \<and>
     (raw_closing s \<longrightarrow> raw_down_to_up s = None \<and> raw_up_to_down s = None) \<and>
     count_list (raw_io s) RawDownClosed = (if raw_closing s then 1 else 0) \<and>
     upstream_ends (raw_io s) \<le> (if raw_closing s then 1 else 0)"
proof -
  have inv: "raw_invar s" by (rule raw_reachable_invar[OF assms])
  have run: "\<forall>c \<in> set (raw_pending s). \<forall>r. raw_fits s c r \<and> \<not> late_success s r \<longrightarrow>
      (\<exists>s'. raw_run c r s = Some s')" using raw_run_ok[OF inv] by blast
  from inv show ?thesis unfolding raw_invar_def
  proof (elim disjE conjE exE)
    assume "raw_closed s" with run show ?thesis by (simp add: raw_closed_def)
  next
    assume "raw_waiting s" "raw_pending s = [RawAwaitAcquire]"
    with run show ?thesis by (simp add: raw_waiting_def raw_open_def)
  next
    fix a b assume "raw_relaying s" "raw_pending s = [a, b]" "opposite a b"
    with run show ?thesis by (simp add: raw_relaying_def raw_open_def)
  qed
qed

definition sample_raw :: RawSession where
  "sample_raw = RawSession_new (UpstreamManager_new sample_config) (BufferPool_new 4 2) LocalMetrics_init"

definition sample_raw_connecting :: RawSession where
  "sample_raw_connecting = the (raw_start sample_raw)"

definition sample_raw_relaying :: RawSession where
  "sample_raw_relaying = the (raw_run RawAwaitAcquire (AcquireDone Error_none (Some 7)) sample_raw_connecting)"

lemma sample_raw_um: "um_invar (UpstreamManager_new sample_config)"
  by (simp add: um_invar_new sample_config_def)

lemma sample_raw_start: "raw_start sample_raw = Some sample_raw_connecting"
  "raw_pending sample_raw_connecting = [RawAwaitAcquire]"
  by (simp_all add: sample_raw_connecting_def raw_start_def raw_connect_upstream_def sample_raw_def
      RawSession_new_def UpstreamManager_new_def sample_config_def select_endpoint_def Let_def
      acquire_connection_def connect_fresh_def)

lemma sample_raw_reachable: "raw_reachable sample_raw sample_raw_connecting"
  by (rule raw_reachable.start) (rule sample_raw_start)

theorem raw_session_safe_witness:
  "\<exists>s'. raw_run RawAwaitAcquire (AcquireDone timeout_error None) sample_raw_connecting = Some s'"
proof -
  have "RawAwaitAcquire \<in> set (raw_pending sample_raw_connecting)"
    "raw_fits sample_raw_connecting RawAwaitAcquire (AcquireDone timeout_error None) \<and>
     \<not> late_success sample_raw_connecting (AcquireDone timeout_error None)"
    by (simp_all add: sample_raw_start late_success_def timeout_error_def Error_ok_def)
  with raw_session_safe[OF sample_raw_reachable[unfolded sample_raw_def] sample_raw_um pool_invar_new]
  show ?thesis by blast
qed

text \<open>C40. The excluded case is a crash: while both relays run, let the operation of the
  upstream-to-client relay fail and close the session. If the read from the client had already
  succeeded, its callback then dereferences a null pointer, whatever was read.\<close>

theorem raw_late_read_crashes:
  assumes "raw_reachable (RawSession_new um pool m) s" "um_invar um" "pool_invar pool"
    and "c \<in> {RawAwaitUpRead, RawAwaitDownWrite}" "raw_pending s = [RawAwaitDownRead, c]"
    and "raw_fits s c r" "\<not> Error_ok (completion_error r)" "Error_ok err"
  shows "\<exists>s1. raw_run c r s = Some s1 \<and> RawAwaitDownRead \<in> set (raw_pending s1) \<and>
     raw_run RawAwaitDownRead (ReadDone err bs) s1 = None"
proof -
  have rel: "raw_relaying s" "c \<noteq> RawAwaitDownRead" "opposite c RawAwaitDownRead"
    using raw_reachable_invar[OF assms(1-3)] assms(4,5)
    by (auto simp: raw_invar_def raw_closed_def opposite_def)
  let ?s = "s\<lparr>raw_pending := [RawAwaitDownRead]\<rparr>"
  have "raw_relaying ?s" "raw_fits ?s c r"
    using rel(1) assms(6) by (cases c; cases r; simp add: raw_defs)+
  from raw_relay_ok[OF this(1) _ rel(3) this(2)] assms(7) obtain s1 where
    s1: "raw_complete c r ?s = Some s1" "raw_closed s1" "raw_pending s1 = [RawAwaitDownRead]" by auto
  then have "raw_run c r s = Some s1" using assms(5) rel(2) by (simp add: raw_run_def)
  moreover have "raw_run RawAwaitDownRead (ReadDone err bs) s1 = None"
    using s1(2) assms(8) by (auto simp: raw_run_def raw_on_down_read_def raw_closed_def)
  ultimately show ?thesis using s1(3) by simp
qed

lemma sample_raw_relaying_step:
  "raw_run RawAwaitAcquire (AcquireDone Error_none (Some 7)) sample_raw_connecting = Some sample_raw_relaying"
  "raw_pending sample_raw_relaying = [RawAwaitDownRead, RawAwaitUpRead]"
  by (simp_all add: sample_raw_relaying_def raw_run_def sample_raw_connecting_def raw_start_def
      raw_connect_upstream_def sample_raw_def RawSession_new_def UpstreamManager_new_def sample_config_def
      select_endpoint_def Let_def acquire_connection_def connect_fresh_def raw_on_acquire_def
      raw_on_upstream_ready_def BufferPool_acquire_def BufferPool_new_def raw_relay_down_def
      raw_relay_up_def Error_ok_def Error_none_def)

theorem raw_late_read_crashes_witness:
  "\<exists>s1. raw_run RawAwaitUpRead (ReadDone timeout_error []) sample_raw_relaying = Some s1 \<and>
     raw_run RawAwaitDownRead (ReadDone Error_none ''GET'') s1 = None"
proof -
  have "raw_reachable sample_raw sample_raw_relaying"
    by (rule raw_reachable.io_done[OF sample_raw_reachable _ _ _ sample_raw_relaying_step(1)])
      (simp_all add: sample_raw_start late_success_def sample_raw_connecting_def raw_start_def
        raw_connect_upstream_def sample_raw_def RawSession_new_def UpstreamManager_new_def
        sample_config_def select_endpoint_def Let_def acquire_connection_def connect_fresh_def)
  from raw_late_read_crashes[OF this[unfolded sample_raw_def] sample_raw_um pool_invar_new _
      sample_raw_relaying_step(2), of "ReadDone timeout_error []" Error_none "''GET''"]
  show ?thesis by (auto simp: timeout_error_def Error_none_def Error_ok_def)
qed

end
