(* ===== verification/Raw_Relay.thy ===== *)
theory Raw_Relay
  imports Raw_Session
begin

text \<open>
  What the byte relay of \<open>Raw_Session\<close> does with the bytes: it passes on exactly what it reads, in
  both directions, and it returns its upstream connection to the pool whatever was left on it.
\<close>

section \<open>Bytes read and bytes written\<close>

definition raw_up_bytes :: "raw_event list \<Rightarrow> byte_list" where
  "raw_up_bytes es = concat (map (\<lambda>e. case e of RawUpWrite k b \<Rightarrow> b | _ \<Rightarrow> []) es)"

definition raw_down_bytes :: "raw_event list \<Rightarrow> byte_list" where
  "raw_down_bytes es = concat (map (\<lambda>e. case e of RawDownWrite b \<Rightarrow> b | _ \<Rightarrow> []) es)"

definition raw_hops :: "raw_event list \<Rightarrow> socket_id set" where
  "raw_hops es = {k. \<exists>b. RawUpWrite k b \<in> set es}"

lemma raw_bytes_append [simp]:
  "raw_up_bytes (xs @ ys) = raw_up_bytes xs @ raw_up_bytes ys"
  "raw_down_bytes (xs @ ys) = raw_down_bytes xs @ raw_down_bytes ys"
  "raw_hops (xs @ ys) = raw_hops xs \<union> raw_hops ys"
  by (auto simp: raw_up_bytes_def raw_down_bytes_def raw_hops_def)

lemma raw_bytes_Nil [simp]: "raw_up_bytes [] = []" "raw_down_bytes [] = []" "raw_hops [] = {}"
  by (simp_all add: raw_up_bytes_def raw_down_bytes_def raw_hops_def)

lemma raw_bytes_Cons [simp]:
  "raw_up_bytes (e # es) = (case e of RawUpWrite k b \<Rightarrow> b | _ \<Rightarrow> []) @ raw_up_bytes es"
  "raw_down_bytes (e # es) = (case e of RawDownWrite b \<Rightarrow> b | _ \<Rightarrow> []) @ raw_down_bytes es"
  "raw_hops (e # es) = (case e of RawUpWrite k b \<Rightarrow> {k} | _ \<Rightarrow> {}) \<union> raw_hops es"
  by (auto simp: raw_up_bytes_def raw_down_bytes_def raw_hops_def split: raw_event.splits)

text \<open>The bytes a completion has read from the client, and from the upstream.\<close>

fun raw_read_down :: "raw_op \<Rightarrow> completion \<Rightarrow> byte_list" where
  "raw_read_down RawAwaitDownRead (ReadDone err bs) = (if Error_ok err then bs else [])"
| "raw_read_down _ _ = []"

fun raw_read_up :: "raw_op \<Rightarrow> completion \<Rightarrow> byte_list" where
  "raw_read_up RawAwaitUpRead (ReadDone err bs) = (if Error_ok err then bs else [])"
| "raw_read_up _ _ = []"

text \<open>Reachable states with everything that was read so far.\<close>

inductive raw_history :: "RawSession \<Rightarrow> byte_list \<Rightarrow> byte_list \<Rightarrow> RawSession \<Rightarrow> bool" for s0 where
  start: "raw_start s0 = Some s \<Longrightarrow> raw_history s0 [] [] s"
| io_done: "\<lbrakk>raw_history s0 d u s; c \<in> set (raw_pending s); raw_fits s c r; \<not> late_success s r;
    raw_run c r s = Some s'\<rbrakk> \<Longrightarrow> raw_history s0 (d @ raw_read_down c r) (u @ raw_read_up c r) s'"
| others: "\<lbrakk>raw_history s0 d u s; um_invar um; length (endpoints um) = length (endpoints (raw_manager s));
    pool_invar p; buffer_size p = buffer_size (raw_pool s)\<rbrakk> \<Longrightarrow>
    raw_history s0 d u (s\<lparr>raw_manager := um, raw_pool := p, raw_metrics := m, raw_upstream_open := b\<rparr>)"

lemma raw_history_reachable: "raw_history s0 d u s \<Longrightarrow> raw_reachable s0 s"
  by (induction rule: raw_history.induct) (auto intro: raw_reachable.intros)

lemma raw_reachable_history: "raw_reachable s0 s \<Longrightarrow> \<exists>d u. raw_history s0 d u s"
  by (induction rule: raw_reachable.induct) (blast intro: raw_history.intros)+

text \<open>The log carries the bytes that were read; all writes to an upstream go to the session's own.\<close>

definition one_hop :: "raw_event list \<Rightarrow> bool" where
  "one_hop es \<longleftrightarrow> (\<exists>k. raw_hops es \<subseteq> {k})"

definition carried :: "byte_list \<Rightarrow> byte_list \<Rightarrow> RawSession \<Rightarrow> bool" where
  "carried d u s \<longleftrightarrow> raw_up_bytes (raw_io s) = d \<and> raw_down_bytes (raw_io s) = u \<and> one_hop (raw_io s) \<and>
     (\<not> raw_closing s \<longrightarrow> raw_hops (raw_io s) \<subseteq> set_option (raw_upstream s))"

lemma one_hop_simps [simp]:
  "one_hop []" "one_hop [RawConnect ep t]"
  "raw_hops fs = {} \<Longrightarrow> one_hop (es @ fs) = one_hop es"
  "raw_hops es \<subseteq> {k} \<Longrightarrow> one_hop (es @ [RawUpWrite k b])"
  by (auto simp: one_hop_def)

lemma raw_close_carried:
  assumes "raw_close s = Some s'" "carried d u s"
  shows "carried d u s' \<and> raw_closing s'"
  using assms
  by (auto simp: raw_close_def raw_close_upstream_def carried_def split: option.splits if_splits bind_splits)

text \<open>A completion while the session is open, and the beginning of a session.\<close>

lemma raw_acquire_carried:
  assumes "raw_on_acquire err k s = Some s'" "carried d u s" "raw_upstream s = None" "\<not> raw_closing s"
  shows "carried d u s'"
proof -
  have "carried d u (s\<lparr>raw_metrics := m, raw_upstream_healthy := h\<rparr>)" for m h
    using assms(2) by (simp add: carried_def)
  from raw_close_carried[OF _ this] assms show ?thesis
    by (auto simp: raw_on_acquire_def raw_on_upstream_ready_def raw_relay_down_def raw_relay_up_def carried_def
        split: if_splits bind_splits prod.splits)
qed

lemma raw_relay_carried:
  assumes "raw_complete c r s = Some s'" "carried d u s" "c \<noteq> RawAwaitAcquire"
    and "\<not> raw_closing s \<or> \<not> Error_ok (completion_error r)"
  shows "carried (d @ raw_read_down c r) (u @ raw_read_up c r) s'"
proof -
  have h: "carried d u (s\<lparr>raw_upstream_healthy := False\<rparr>)" using assms(2) by (simp add: carried_def)
  note cl = raw_close_carried[OF _ assms(2)] raw_close_carried[OF _ h]
  show ?thesis
  proof (cases "Error_ok (completion_error r)")
    case False
    with assms(1,3) cl show ?thesis
      by (cases c; cases r)
        (auto simp: raw_on_down_read_def raw_on_up_write_def raw_on_up_read_def raw_on_down_write_def)
  next
    case True
    with assms show ?thesis
      by (cases c; cases r)
        (auto simp: raw_on_down_read_def raw_on_up_write_def raw_on_up_read_def raw_on_down_write_def
          raw_relay_down_def raw_relay_up_def carried_def split: bind_splits)
  qed
qed

lemma raw_start_carried:
  assumes "raw_start (RawSession_new um pool m) = Some s"
  shows "carried [] [] s"
proof -
  let ?s = "\<lambda>i um1. (RawSession_new um pool m)\<lparr>raw_metrics := on_accept m, raw_endpoint := i, raw_manager := um1\<rparr>"
  have new: "carried [] [] (?s i um1)" "raw_upstream (?s i um1) = None" "\<not> raw_closing (?s i um1)" for i um1
    by (simp_all add: carried_def RawSession_new_def)
  from assms obtain i um1 a um2 where "select_endpoint um = Some (i, um1)" "acquire_connection i um1 = Some (a, um2)"
    by (auto simp: raw_start_def raw_connect_upstream_def RawSession_new_def split: bind_splits)
  with assms show ?thesis
    using raw_acquire_carried[OF _ new(1)[of um2 i] new(2,3)]
    by (cases a) (auto simp: raw_start_def raw_connect_upstream_def Let_def RawSession_new_def carried_def)
qed

lemma raw_history_carried:
  assumes "raw_history (RawSession_new um pool m) d u s" "um_invar um" "pool_invar pool"
  shows "carried d u s"
  using assms(1)
proof (induction rule: raw_history.induct)
  case (start s)
  then show ?case by (rule raw_start_carried)
next
  case (io_done d u s c r s')
  let ?t = "s\<lparr>raw_pending := remove1 c (raw_pending s)\<rparr>"
  have inv: "raw_invar s" using raw_reachable_invar[OF raw_history_reachable[OF io_done(1)] assms(2,3)] .
  have t: "raw_complete c r ?t = Some s'" "carried d u ?t"
    using io_done(5,6) by (simp_all add: raw_run_def carried_def)
  show ?case
  proof (cases "c = RawAwaitAcquire")
    case True
    with inv io_done(2) have "raw_upstream ?t = None" "\<not> raw_closing ?t"
      by (auto simp: raw_invar_def raw_closed_def raw_waiting_def raw_open_def opposite_def)
    with raw_acquire_carried[OF _ t(2)] t(1) True show ?thesis by (cases r) auto
  next
    case False
    with raw_relay_carried[OF t] io_done(4) show ?thesis by (simp add: late_success_def)
  qed
next
  case (others d u s um p m b)
  then show ?case by (simp add: carried_def)
qed

section \<open>Properties\<close>

text \<open>C34. The byte relay is transparent: whatever the two directions interleave, and wherever reads are cut,
  the bytes given to the upstream's \<open>async_write\<close> are exactly the bytes read from the client, in order,
  the bytes given to the client's are exactly those read from the upstream, and all of them went to
  one upstream connection; also after the session has closed.\<close>

theorem raw_relay_exact:
  assumes "raw_history (RawSession_new um pool m) d u s" "um_invar um" "pool_invar pool"
  shows "raw_up_bytes (raw_io s) = d \<and> raw_down_bytes (raw_io s) = u \<and> (\<exists>k. raw_hops (raw_io s) \<subseteq> {k})"
  using raw_history_carried[OF assms] by (simp add: carried_def one_hop_def)

text \<open>C39. A connection is returned to the pool in the middle of a message: if the client's side ends
  while the relay is running, the upstream connection counts as healthy, although part of a request may
  have been written to it and its response may not have been read. Unless the pool is full, the next
  session of the shard that asks for this endpoint is given exactly this connection, with all that
  was written to it.\<close>

theorem raw_connection_reused_midway:
  assumes "raw_history (RawSession_new um pool m) d u s" "um_invar um" "pool_invar pool"
    and "\<not> raw_closing s" "RawAwaitDownRead \<in> set (raw_pending s)" "raw_upstream s = Some k"
    and "raw_upstream_healthy s" "raw_upstream_open s" "\<not> Error_ok err"
    and "length (idle_pools (raw_manager s) ! raw_endpoint s) < connection_pool_max_idle_per_endpoint (um_config (raw_manager s))"
  shows "\<exists>s1. raw_run RawAwaitDownRead (ReadDone err bs) s = Some s1 \<and> raw_closing s1 \<and>
     raw_up_bytes (raw_io s1) = d \<and> RawUpReleased k \<in> set (raw_io s1) \<and> (\<forall>j. RawUpClosed j \<notin> set (raw_io s1)) \<and>
     acquire_connection (raw_endpoint s) (raw_manager s1) = Some (Pooled k, raw_manager s)"
proof -
  have inv: "raw_relaying s"
    using raw_reachable_invar[OF raw_history_reachable[OF assms(1)] assms(2,3)] assms(4-6)
    by (auto simp: raw_invar_def raw_closed_def raw_waiting_def)
  then have m: "um_invar (raw_manager s)" "raw_endpoint s < length (endpoints (raw_manager s))"
    and ends: "upstream_ends (raw_io s) = 0"
    by (simp_all add: raw_relaying_def raw_open_def raw_shared_ok_def)
  from ends have nc: "RawUpClosed j \<notin> set (raw_io s)" for j
    by (auto simp: upstream_ends_def filter_empty_conv)
  obtain um1 where um1: "release_connection (raw_endpoint s) k (raw_manager s) = Some (um1, None)"
    "acquire_connection (raw_endpoint s) um1 = Some (Pooled k, raw_manager s)"
    using release_acquire_lifo[OF m, of k] assms(10) by auto
  have "raw_up_bytes (raw_io s) = d" using raw_history_carried[OF assms(1-3)] by (simp add: carried_def)
  with um1 nc assms(4,6-9) show ?thesis
    by (simp add: raw_run_def raw_on_down_read_def raw_close_def raw_close_upstream_def)
qed

text \<open>The client sends half a request and goes away.\<close>

definition sample_raw_sent :: RawSession where
  "sample_raw_sent = the (do {
     s \<leftarrow> raw_run RawAwaitDownRead (ReadDone Error_none ''GET'') sample_raw_relaying;
     raw_run RawAwaitUpWrite (WriteDone Error_none 3) s })"

lemmas sample_raw_simps = sample_raw_relaying_def raw_run_def sample_raw_connecting_def raw_start_def
  raw_connect_upstream_def sample_raw_def RawSession_new_def UpstreamManager_new_def sample_config_def
  select_endpoint_def Let_def acquire_connection_def connect_fresh_def raw_on_acquire_def
  raw_on_upstream_ready_def BufferPool_acquire_def BufferPool_new_def raw_relay_down_def
  raw_relay_up_def Error_ok_def Error_none_def raw_on_down_read_def raw_on_up_write_def overwrite_def late_success_def

lemma sample_raw_history:
  "raw_history sample_raw [] [] sample_raw_relaying"
  "raw_history sample_raw ''GET'' [] sample_raw_sent"
proof -
  have "raw_history sample_raw [] [] sample_raw_connecting"
    by (rule raw_history.start) (rule sample_raw_start)
  from raw_history.io_done[OF this _ _ _ sample_raw_relaying_step(1)]
  show r: "raw_history sample_raw [] [] sample_raw_relaying"
    by (simp add: sample_raw_start late_success_def sample_raw_simps)
  obtain s where s: "raw_run RawAwaitDownRead (ReadDone Error_none ''GET'') sample_raw_relaying = Some s"
    "raw_run RawAwaitUpWrite (WriteDone Error_none 3) s = Some sample_raw_sent" "RawAwaitUpWrite \<in> set (raw_pending s)"
    "\<not> raw_closing s"
    by (simp add: sample_raw_sent_def sample_raw_simps)
  from raw_history.io_done[OF r _ _ _ s(1)] have "raw_history sample_raw ''GET'' [] s"
    by (simp add: sample_raw_simps)
  from raw_history.io_done[OF this s(3) _ _ s(2)] s(4) show "raw_history sample_raw ''GET'' [] sample_raw_sent"
    by (simp add: late_success_def)
qed

theorem raw_relay_exact_witness: "raw_up_bytes (raw_io sample_raw_sent) = ''GET''"
  using raw_relay_exact[OF sample_raw_history(2)[unfolded sample_raw_def] sample_raw_um pool_invar_new] by blast

theorem raw_connection_reused_midway_witness:
  "\<exists>s1 um1. raw_run RawAwaitDownRead (ReadDone timeout_error []) sample_raw_sent = Some s1 \<and>
     raw_up_bytes (raw_io s1) = ''GET'' \<and> acquire_connection 0 (raw_manager s1) = Some (Pooled 7, um1)"
proof -
  have f: "\<not> raw_closing sample_raw_sent" "RawAwaitDownRead \<in> set (raw_pending sample_raw_sent)"
    "raw_upstream sample_raw_sent = Some 7" "raw_upstream_healthy sample_raw_sent" "raw_upstream_open sample_raw_sent"
    "\<not> Error_ok timeout_error" "length (idle_pools (raw_manager sample_raw_sent) ! raw_endpoint sample_raw_sent) <
       connection_pool_max_idle_per_endpoint (um_config (raw_manager sample_raw_sent))" "raw_endpoint sample_raw_sent = 0"
    by (simp_all add: sample_raw_sent_def sample_raw_simps timeout_error_def)
  from raw_connection_reused_midway[OF sample_raw_history(2)[unfolded sample_raw_def] sample_raw_um pool_invar_new f(1-7), of "[]"]
    f(8) show ?thesis by auto
qed

end
