(* ===== verification/Spec2Isabelle.thy ===== *)
theory Spec2Isabelle
  imports Forwarding_Props Connection_Ownership Connect_Attempt Thread_Ownership Raw_Relay
begin

text \<open>
  A model of the per-core-sharded HTTP gateway in \<open>src/\<close>, and the theorems that make it correct.

  \<^bold>\<open>The program.\<close> \<open>main\<close> reads a \<open>Config\<close> and starts a \<open>GatewayRuntime\<close>. The runtime owns one
  \<open>GatewayShard\<close> per configured shard, each with its own thread, event loop, \<open>BufferPool\<close>,
  \<open>LocalMetrics\<close>, \<open>UpstreamManager\<close> and \<open>FilterChain\<close>; shards share nothing. One \<open>Listener\<close> on a
  thread of its own accepts connections and hands each to the next shard by posting a task to its
  event loop; the shard rebinds the socket to its loop and starts an \<open>HttpSession\<close>. A session reads
  and parses the request, runs the filters over it, connects to an upstream, relays the
  request, reads the response, runs the filters over it in reverse, and relays it to the client;
  then it waits for the next request or closes. Failed connections are retried once. A
  \<open>MetricsAggregator\<close> sums the shards' counters.

  \<^bold>\<open>Theories\<close>, bottom up, and the files under \<open>src/src/\<close> they model:

  \<^item> \<open>Prelude\<close>: bytes and buffers, lemmas on lists, options, characters and words.
  \<^item> \<open>Http_Types\<close> (\<open>net/http/types.hpp\<close>): heads, headers, case-insensitive lookup and \<open>set_header\<close>.
  \<^item> \<open>Serializer\<close> (\<open>net/http/native/\<close>): both serializers. Locale \<open>serializer_contract\<close> is the contract of
    the interface; \<open>ser_unsent\<close>, the bytes still to be pulled, is the abstract state that \<open>start\<close>,
    \<open>provide_body\<close> and \<open>pull\<close> refine. Wire exactness, parse-back of what was written, termination.
  \<^item> \<open>Shard_Resources\<close> (\<open>util/buffer_pool.hpp\<close>, \<open>util/local_metrics.hpp\<close>): the pool (locale
    \<open>resource_pool\<close>) and the 64-bit counters.
  \<^item> \<open>Net_Core\<close> (\<open>net/types.hpp\<close>, \<open>net/race_with_timeout.cpp\<close>): the race of an operation with a timer as
    a step relation; locale \<open>round_robin\<close>, used by the upstream manager and the listener.
  \<^item> \<open>Gateway_Config\<close> (\<open>config/config.hpp\<close>): \<open>from_file\<close> and \<open>from_args\<close>, every exit and exception as a
    value; the JSON library is a parameter (record \<open>json_lib\<close>).
  \<^item> \<open>Upstream_Manager\<close> (\<open>upstream/\<close>): endpoints, DNS refresh, connection pools; locale
    \<open>connection_pool\<close>.
  \<^item> \<open>Filters\<close> (\<open>filter/\<close>): filters as records of functions, header and body phases, the body gate with
    its watermark; locale \<open>body_gate\<close>, interpreted for requests and responses.
  \<^item> \<open>Llhttp\<close> (\<open>third_party/llhttp\<close>: \<open>http.c\<close>, \<open>api.c\<close>, \<open>llhttp.h\<close>): flags and framing decisions. The
    generated state machine \<open>llhttp.c\<close> is a parameter: a function from parser state and bytes to
    the callback events it raises, an error code and the new state.
  \<^item> \<open>Llhttp_Parser\<close> (\<open>net/http/llhttp/\<close>): the request and the response parser over those events; locale
    \<open>body_source\<close>.
  \<^item> \<open>Http_Session\<close>, \<open>Http_Session_Proofs\<close>, \<open>Http_Session_Props\<close> (\<open>session/http_session.{hpp,cpp}\<close>): every
    method and callback; the event loop as a step relation with its invariant; the properties.
  \<^item> \<open>Session_Rules\<close>: one induction rule for each loop of the session, with an invariant that may speak
    of the input still to be parsed and of the body piece the loop holds back; used by the next groups.
  \<^item> \<open>Relay_Spec\<close>, \<open>Relay_Refinement\<close>, \<open>Relay_Props\<close>: what a session promises on the wire, as an automaton
    over its log (\<open>relay_step\<close>); the refinement relation and a simulation proof method by method; the
    refinement theorem, delivery of requests and responses, and the end of sessions whose peers fail.
  \<^item> \<open>Message_Stream\<close>: what a peer sent (its reads given to a parser that is never drained) and what the
    session passed on (head and pieces in the log), the two sides of the forwarding theorems.
  \<^item> \<open>Exchange_Frames\<close>: which methods leave the request or the response alone or begin the next request; \<open>exchange\<close>,
    reachable states together with the reads of the current exchange.
  \<^item> \<open>Request_Forwarding\<close>, \<open>Response_Forwarding\<close>, \<open>Forwarding_Props\<close>: the parse loops, the body gate and the serializers
    forward what was received, in every reachable state; the transparency of an exchange.
  \<^item> \<open>Raw_Session\<close>, \<open>Raw_Relay\<close> (\<open>session/session.hpp\<close>): the older byte relay, with its two concurrent
    directions: its safety, and what it does with the bytes.
  \<^item> \<open>Gateway_Shard\<close> (\<open>runtime/gateway_shard.{hpp,cpp}\<close>, socket adoption of \<open>net/event_loop.hpp\<close>): many
    sessions over shared resources, and the task queue.
  \<^item> \<open>Connection_Ownership\<close>: where the upstream connections of a shard are, method by method: idle in the
    pool, held by a session, or closed.
  \<^item> \<open>Boost_Adapters\<close> (\<open>net/boost/\<close>, \<open>util/move_only_function.hpp\<close>): the implementation of the network
    interfaces; Boost.Asio is a parameter (record \<open>asio\<close>). Locale \<open>owned_socket\<close> is the ownership contract
    of \<open>net/socket.hpp\<close>.
  \<^item> \<open>Connect_Attempt\<close> (\<open>connect_fresh\<close> of \<open>upstream/upstream_manager.cpp\<close>): one fresh connection, from the manager
    through the race down to the socket and timer adapters.
  \<^item> \<open>Cpu_Topology\<close> (\<open>util/cpu_topology.cpp\<close>): the assignment of shards to cores; hwloc is a parameter.
  \<^item> \<open>Gateway_Runtime\<close> (\<open>runtime/gateway_runtime.cpp\<close>, \<open>listener.hpp\<close>, \<open>metrics_aggregator.hpp\<close>): start, accept,
    reports, the stages of \<open>stop\<close> with one shard after the other, and their interleavings.
  \<^item> \<open>Gateway_Main\<close> (\<open>src/main.cpp\<close>, \<open>util/cpu_affinity.hpp\<close>, \<open>run_until_signal\<close>): the program's outcomes.
  \<^item> \<open>Thread_Ownership\<close>: the main thread, the listener's and the shards', each running its own loop; the
    \<open>assert\<close>s on the owning thread in sessions, shards and sockets; the threads refine the interleavings of
    \<open>Gateway_Runtime\<close>.
  \<^item> this theory: the properties of the gateway as a whole.

  \<^bold>\<open>How code becomes definitions.\<close> A class is a record with its members, a method a function on it.
  A method that could dereference a null pointer or index a vector out of range returns an option,
  \<open>None\<close> at that point; that such a method never returns \<open>None\<close> is what the safety theorems say.
  A lambda given to an asynchronous operation is a constructor of \<open>continuation\<close> and its body a
  handler; starting the operation appends it to \<open>pending\<close>. A step of the event loop takes one
  pending operation and any result the operation can have: errors, short reads, and every order.
  Operations that may complete synchronously (a pooled connection; an address that does
  not parse) do so at the end of the calling method, so that completing at once and completing in
  the next step are the same; for a pooled connection the model completes at once. What a session
  does to its sockets is recorded in order in \<open>io\<close>, together with what it gives its serializers
  (\<open>RequestStarted\<close>, \<open>RequestBody\<close>, \<open>ResponseStarted\<close>, \<open>ResponseBody\<close>) and the turn to the next request
  (\<open>NextRequest\<close>); no method reads the log. References to the shard's pool, manager and
  counters are copies loaded before and stored after each step of a session, which is exact because
  the steps of a shard run one after the other. The counters are 64-bit words, ports 16-bit words;
  sizes and indices are natural numbers.

  \<^bold>\<open>Loops\<close> need no fuel: the two parse loops of the session consume input (\<open>request_loop\<close>,
  \<open>response_loop\<close>) or empty the parser's scratch buffer (\<open>drain_request_loop\<close>, \<open>drain_response_loop\<close>)
  and are total functions with a termination proof; all others are structural.

  \<^bold>\<open>What is shown.\<close> For the gateway: no crash in any interleaving (\<open>gateway_safe\<close>), exact
  distribution of connections (\<open>connections_routed\<close>), exact reports (\<open>reports_exact\<close>), orderly stop
  (\<open>stop_quiesces\<close>), a session for every accepted connection (\<open>accepted_connections_served\<close>), threads that
  share nothing (\<open>threads_share_nothing\<close>), upstream connections that are never shared, leaked or closed twice
  (\<open>upstream_connections_exclusive\<close>), the outcomes of the program (\<open>main_outcomes\<close>). For a session: safety, refinement of the relay automaton
  (\<open>session_refines_relay\<close>), forwarding of exactly what was received in both directions, whatever the sizes of
  reads and buffers, with the head the filters leave and the end of the body where the sender ended it
  (\<open>request_forwarded_faithfully\<close>, \<open>response_forwarded_faithfully\<close>, and \<open>exchange_transparent\<close> for the gateway's own
  filters), handing over of complete requests (\<open>request_handed_over\<close>), delivery of complete
  responses and closing when peers fail, filters before upstreams, at most one retry with the same bytes, honest keep-alive, local rejection. For the parts: wire format and
  round trips of the serializers, assembly of heads and bodies by the parsers, exact relaying of bytes by the older
  session (\<open>raw_relay_exact\<close>), the limit of the filter gate, single completion of the race and what a fresh connection comes to (\<open>fresh_connection_outcomes\<close>), fairness,
  configuration errors and exit codes, the core plan, the move of a socket to its shard's thread and
  the connection to a resolved address by the Boost adapters. Some theorems describe
  behaviour that the code should not have: a buffered request body that is dropped
  (\<open>buffered_request_body_dropped\<close>), a second status line in a response
  (\<open>late_rejection_writes_second_head\<close>), pipelined requests that are merged
  (\<open>pipelined_request_overwrites\<close>), trailers that become headers (\<open>trailers_become_headers\<close>), and, in the byte
  relay, a connection that is pooled in the middle of a message (\<open>raw_connection_reused_midway\<close>) and a null
  pointer (\<open>raw_late_read_crashes\<close>).

  \<^bold>\<open>What is not modelled.\<close> The generated engine of llhttp and Boost.Asio itself (libraries behind the
  parameters above); the failure of creating a thread; text on standard output and error, which is represented by the data it shows. The handling of a
  task or completion is one step of its loop; that \<open>Listener::stop\<close> writes \<open>stopping_\<close> from another
  thread without synchronisation is outside the model, where that write is one atomic step.
\<close>

section \<open>The gateway as a whole\<close>

lemma gateway_invar:
  assumes "\<And>u. json_is_array lib u \<Longrightarrow> json_items lib u = [] \<Longrightarrow> json_empty lib u"
    and "from_file lib read_file ncpu path = Inr cfg"
    and "runtime_reachable eng (GatewayRuntime_start hw ncpu resolve cfg) hs rt"
  shows "runtime_invar (shard_count cfg) hs rt"
proof -
  have "1 \<le> shard_count cfg" "upstreams cfg \<noteq> []" using from_file_ready[OF assms(1,2)] by simp_all
  from runtime_reachable_invar[OF assms(3) runtime_start_invar[OF this]] show ?thesis .
qed

text \<open>A configuration for two shards, and the gateway started with it.\<close>

definition sample_gateway_doc :: json_value where
  "sample_gateway_doc = JObj [(''shard_count'', JNum 2),
     (''upstreams'', JArr [JObj [(''host'', JStr ''10.0.0.1''), (''port'', JNum 9000)]])]"

definition sample_gateway_config :: Config where
  "sample_gateway_config =
     (Config_default 8)\<lparr>shard_count := 2, upstreams := [\<lparr>cfg_host = ''10.0.0.1'', cfg_port = 9000\<rparr>]\<rparr>"

definition sample_resolver :: resolver where
  "sample_resolver = (\<lambda>h p. (Error_none, [\<lparr>host = h, port = p\<rparr>]))"

definition sample_gateway :: "(unit, nat) GatewayRuntime" where
  "sample_gateway = GatewayRuntime_start sample_hwloc 8 sample_resolver sample_gateway_config"

lemma sample_items: "json_is_array (sample_json d) u \<Longrightarrow> json_items (sample_json d) u = [] \<Longrightarrow>
    json_empty (sample_json d) u"
  by (cases u) (auto simp: sample_json_def)

lemma sample_loaded:
  "from_file (sample_json sample_gateway_doc) (\<lambda>_. Some ''doc'') 8 ''gw.json'' = Inr sample_gateway_config"
  by (simp add: from_file_def sample_json_def sample_gateway_doc_def load_fields_def load_field_def
      check_upstreams_def sum_bind_def throws_def sample_gateway_config_def Config_default_def)

definition sample_accepted :: "(unit, nat) GatewayRuntime" where
  "sample_accepted = the (on_accept_done Error_none 40 sample_gateway)"

lemma sample_accepted_reachable:
  "runtime_reachable sample_engine
     (GatewayRuntime_start sample_hwloc 8 sample_resolver sample_gateway_config) [40] sample_accepted"
proof -
  have "on_accept_done Error_none 40 sample_gateway = Some sample_accepted"
    by (simp add: sample_accepted_def on_accept_done_def sample_gateway_def GatewayRuntime_start_def
        sample_gateway_config_def Let_def pick_shard_def Error_ok_def Error_none_def)
  then have "runtime_step sample_engine sample_gateway [40] sample_accepted"
    by (intro runtime_step.accept_done[where err = Error_none and h = 40])
      (simp_all add: sample_gateway_def GatewayRuntime_start_def Let_def Error_ok_def Error_none_def)
  from runtime_reachable.step[OF runtime_reachable.base this] show ?thesis
    by (simp add: sample_gateway_def)
qed

text \<open>C1. The gateway never crashes on its own account. Start it with any configuration that
  \<open>from_file\<close> accepts and let the listener, the shards and \<open>stop\<close> interleave in any way, with any
  data from clients, upstreams and resolvers. Then the accept callback runs for every result; on
  every shard the task at the front of the queue runs, and every completion of an outstanding
  operation of a session runs: no null pointer, no index out of range, no division by zero. Every
  session's socket is bound to the event loop of the shard that serves it.\<close>

theorem gateway_safe:
  assumes "\<And>u. json_is_array lib u \<Longrightarrow> json_items lib u = [] \<Longrightarrow> json_empty lib u"
    and "from_file lib read_file ncpu path = Inr cfg"
    and "runtime_reachable eng (GatewayRuntime_start hw ncpu resolve cfg) hs rt"
  shows "(\<forall>err h. \<exists>rt'. on_accept_done err h rt = Some rt') \<and>
     (\<forall>i < length (shards rt). let sh = shards rt ! i in
        (posted sh \<noteq> [] \<longrightarrow> (\<exists>sh'. run_posted eng sh = Some sh')) \<and>
        (\<forall>j < length (shard_sessions sh).
           bound_loop (fst (shard_sessions sh ! j)) = Suc i \<and>
           (\<forall>c r. c \<in> set (pending (snd (shard_sessions sh ! j))) \<longrightarrow>
              fits (snd (shard_sessions sh ! j)) c r \<longrightarrow>
              (\<exists>sh'. run_completion eng j c r sh = Some sh'))))"
proof -
  have inv: "runtime_invar (shard_count cfg) hs rt" by (rule gateway_invar[OF assms])
  have acc: "\<exists>rt'. on_accept_done err h rt = Some rt'" for err h using on_accept_ok[OF inv] by blast
  have sh: "shard_invar (shards rt ! i)" "shard_loop (shards rt ! i) = Suc i"
    if "i < length (shards rt)" for i using inv that by (simp_all add: runtime_invar_def)
  have post: "\<exists>sh'. run_posted eng (shards rt ! i) = Some sh'"
    if "i < length (shards rt)" "posted (shards rt ! i) \<noteq> []" for i
    using run_posted_ok[OF sh(1)[OF that(1)]] that(2) by (cases "posted (shards rt ! i)") blast+
  have loop: "bound_loop (fst (shard_sessions (shards rt ! i) ! j)) = Suc i"
    if "i < length (shards rt)" "j < length (shard_sessions (shards rt ! i))" for i j
    using sh[OF that(1)] nth_mem[OF that(2)] by (fastforce simp: shard_invar_def)
  have comp: "\<exists>sh'. run_completion eng j c r (shards rt ! i) = Some sh'"
    if "i < length (shards rt)" "j < length (shard_sessions (shards rt ! i))"
      "c \<in> set (pending (snd (shard_sessions (shards rt ! i) ! j)))"
      "fits (snd (shard_sessions (shards rt ! i) ! j)) c r" for i j c r
    using run_completion_ok[OF sh(1)[OF that(1)] that(2-4)] by blast
  show ?thesis unfolding Let_def using acc post loop comp by blast
qed

lemma sample_accepted_shards:
  "length (shards sample_accepted) = 2" "map native_handle (posted (shards sample_accepted ! 0)) = [40]"
  by (simp_all add: sample_accepted_def on_accept_done_def sample_gateway_def GatewayRuntime_start_def
      sample_gateway_config_def Let_def pick_shard_def Error_ok_def Error_none_def accept_from_def
      GatewayShard_start_def GatewayShard_new_def upt_rec)

theorem gateway_safe_witness:
  "\<exists>sh'. run_posted sample_engine (shards sample_accepted ! 0) = Some sh'"
  using gateway_safe[OF sample_items sample_loaded sample_accepted_reachable] sample_accepted_shards
  by (fastforce simp: Let_def)

text \<open>C9. No accepted connection is lost, duplicated or reordered within its shard, and the load is
  even: of the connections accepted so far, in every interleaving, shard \<open>i\<close> of \<open>n\<close> serves or has in
  its queue exactly those at positions \<open>i\<close>, \<open>i + n\<close>, \<open>i + 2n\<close>, ... in the order of acceptance, and
  the next \<open>n\<close> selections of the listener reach every shard exactly once.\<close>

theorem connections_routed:
  fixes rt :: "('e, 'v) GatewayRuntime"
  assumes "\<And>u. json_is_array lib u \<Longrightarrow> json_items lib u = [] \<Longrightarrow> json_empty lib u"
    and "from_file lib read_file ncpu path = Inr cfg"
    and "runtime_reachable eng (GatewayRuntime_start hw ncpu resolve cfg) hs rt"
  shows "length (shards rt) = shard_count cfg \<and>
     (\<forall>i < shard_count cfg. shard_handles (shards rt ! i) = nths hs {k. k mod shard_count cfg = i}) \<and>
     (\<exists>is rt'. select_n pick_shard (shard_count cfg) rt = Some (is, rt') \<and>
        distinct is \<and> set is = {..<shard_count cfg})"
proof -
  have inv: "runtime_invar (shard_count cfg) hs rt" by (rule gateway_invar[OF assms])
  then have "next_shard rt < length (shards rt)" by (simp add: runtime_invar_def)
  from rr_listener.select_turn[OF this] inv show ?thesis
    by (auto simp: runtime_invar_def dealt_def)
qed

theorem connections_routed_witness:
  "shard_handles (shards sample_accepted ! 0) = [40] \<and> shard_handles (shards sample_accepted ! 1) = []"
  using connections_routed[OF sample_items sample_loaded sample_accepted_reachable]
  by (simp add: sample_gateway_config_def nths_singleton)

text \<open>C10. Every accepted connection is served. In every reachable state the task queue of a shard can
  be emptied by running its tasks, which starts a session for each connection in it, in order,
  rebound to the shard's loop and waiting for its first request. And in every run of the shard,
  whatever completions, name lookups and further connections come in between, the connection at position
  \<open>k\<close> of the queue has its session as soon as \<open>k + 1\<close> tasks have run.\<close>

theorem accepted_connections_served:
  fixes rt :: "('e, 'v) GatewayRuntime"
  assumes "\<And>u. json_is_array lib u \<Longrightarrow> json_items lib u = [] \<Longrightarrow> json_empty lib u"
    and "from_file lib read_file ncpu path = Inr cfg"
    and "runtime_reachable eng (GatewayRuntime_start hw ncpu resolve cfg) hs rt"
    and "i < length (shards rt)" "sh = shards rt ! i"
  shows "(\<exists>sh' ps. run_tasks eng (length (posted sh)) sh = Some sh' \<and> posted sh' = [] \<and>
        shard_sessions sh' = shard_sessions sh @ ps \<and>
        map fst ps = map (do_adopt_socket (Suc i)) (posted sh) \<and>
        (\<forall>p \<in> set ps. \<not> closing (snd p) \<and> pending (snd p) = [AwaitRequestRead])) \<and>
     (\<forall>n sh' k. shard_run eng n sh sh' \<longrightarrow> k < n \<longrightarrow> k < length (posted sh) \<longrightarrow>
        length (shard_sessions sh) + k < length (shard_sessions sh') \<and>
        fst (shard_sessions sh' ! (length (shard_sessions sh) + k)) = do_adopt_socket (Suc i) (posted sh ! k))"
proof -
  have inv: "shard_invar sh" "shard_loop sh = Suc i"
    using gateway_invar[OF assms(1-3)] assms(4,5) by (simp_all add: runtime_invar_def)
  have serve: "length (shard_sessions sh) + k < length (shard_sessions sh') \<and>
      fst (shard_sessions sh' ! (length (shard_sessions sh) + k)) = do_adopt_socket (Suc i) (posted sh ! k)"
    if "shard_run eng n sh sh'" "k < n" "k < length (posted sh)" for n sh' k
  proof -
    let ?j = "length (shard_sessions sh) + k"
    from shard_run_ok[OF that(1) inv(1)] obtain hs' where
      r: "shard_invar sh'" "shard_loop sh' = Suc i" "length (shard_sessions sh') = length (shard_sessions sh) + n"
      "shard_handles sh' = shard_handles sh @ hs'" using inv(2) by auto
    then have j: "?j < length (shard_sessions sh')" using that(2) by simp
    have "shard_handles sh' ! ?j = shard_handles sh ! ?j"
      using r(4) that(3) by (simp add: nth_append shard_handles_def)
    then have "native_handle (fst (shard_sessions sh' ! ?j)) = native_handle (posted sh ! k)"
      using j that(3) by (simp add: shard_handles_def nth_append)
    moreover have "bound_loop (fst (shard_sessions sh' ! ?j)) = Suc i"
      using r(1,2) nth_mem[OF j] by (fastforce simp: shard_invar_def)
    ultimately show ?thesis using j by (simp add: do_adopt_socket_def)
  qed
  from run_tasks_ok[OF inv(1), of eng] inv(2) serve show ?thesis
    by (fastforce simp: list_all_iff freshly_served_def)
qed

theorem accepted_connections_served_witness:
  "\<exists>sh'. run_tasks sample_engine 1 (shards sample_accepted ! 0) = Some sh' \<and> posted sh' = []"
proof -
  have "length (posted (shards sample_accepted ! 0)) = 1"
    using sample_accepted_shards(2) by (metis length_map length_Cons list.size(3) One_nat_def)
  with accepted_connections_served[OF sample_items sample_loaded sample_accepted_reachable _ refl, of 0]
    sample_accepted_shards(1) show ?thesis by auto
qed

section \<open>The program\<close>








section \<open>Threads\<close>

text \<open>C8. The threads share nothing. In every state that the process can reach, whatever the order
  in which its threads start and run: the thread that runs a shard's loop can run its tasks and every
  completion of its sessions, and no ownership assertion on the way fails; a completion of a session
  only ever runs on the thread of its shard, although the connection was accepted on another; and
  a step of any other thread leaves the shard as it is, but for connections put at the end
  of its queue.\<close>

theorem threads_share_nothing:
  fixes ps :: "('e, 'v) process"
  assumes "\<And>u. json_is_array lib u \<Longrightarrow> json_items lib u = [] \<Longrightarrow> json_empty lib u"
    and "from_file lib read_file ncpu path = Inr cfg"
    and "process_reachable eng (process_start (GatewayRuntime_start hw ncpu resolve cfg)) ps"
    and "i < shard_count cfg" "sh = shards (proc_runtime ps) ! i"
  shows "(\<forall>t. is_current_thread t (proc_loops ps (Suc i)) \<and> posted sh \<noteq> [] \<longrightarrow>
        (\<exists>sh'. checked_task eng t ps i = Some sh')) \<and>
     (\<forall>t j sock s c x. j < length (shard_sessions sh) \<and> shard_sessions sh ! j = (sock, s) \<and>
        c \<in> set (pending s) \<and> fits s c x \<and>
        is_current_thread t (proc_loops ps (completion_loop c sock (Suc i))) \<longrightarrow>
        t = thread_of_loop (Suc i) \<and> (\<exists>sh'. checked_completion eng t ps i j c x = Some sh')) \<and>
     (\<forall>t ps'. process_step eng ps t ps' \<and> t \<noteq> thread_of_loop (Suc i) \<longrightarrow>
        (\<exists>q. shards (proc_runtime ps') ! i = sh\<lparr>posted := posted sh @ q\<rparr>))"
proof -
  obtain hs where "runtime_reachable eng (GatewayRuntime_start hw ncpu resolve cfg) hs (proc_runtime ps)"
    using process_reachable_runtime[OF assms(3)] by blast
  from gateway_invar[OF assms(1,2) this] have inv: "runtime_invar (shard_count cfg) hs (proc_runtime ps)" .
  then have sh: "shard_invar sh" "shard_loop sh = Suc i" using assms(4,5) by (simp_all add: runtime_invar_def)
  have "t = thread_of_loop (Suc i) \<and> (\<exists>sh'. checked_completion eng t ps i j c x = Some sh')"
    if h: "j < length (shard_sessions sh)" "shard_sessions sh ! j = (sock, s)" "c \<in> set (pending s)" "fits s c x"
      "is_current_thread t (proc_loops ps (completion_loop c sock (Suc i)))" for t j sock s c x
  proof -
    have ok: "bound_loop sock = Suc i" "\<exists>sh'. checked_completion eng t ps i j c x = Some sh'"
      using checked_completion_ok[of ps i j sock s c x t eng] h sh assms(5) by auto
    then have "completion_loop c sock (Suc i) = Suc i" by (cases c) simp_all
    with ok(2) loop_owners[OF assms(3)] h(5) show ?thesis by auto
  qed
  moreover have "\<exists>q. shards (proc_runtime ps') ! i = sh\<lparr>posted := posted sh @ q\<rparr>"
    if "process_step eng ps t ps'" "t \<noteq> thread_of_loop (Suc i)" for t ps'
    using step_by_other_thread[OF assms(3) inv that(1) assms(4) that(2)] assms(5) by (simp add: only_queued_def)
  moreover have "\<exists>sh'. checked_task eng t ps i = Some sh'"
    if "is_current_thread t (proc_loops ps (Suc i))" "posted sh \<noteq> []" for t
    using checked_task_ok[of ps i t eng] that sh assms(5) by simp
  ultimately show ?thesis by blast
qed

text \<open>The listener's thread runs and accepts a connection; then the thread of the first shard runs.\<close>

definition sample_process :: "(unit, nat) process" where
  "sample_process = \<lparr>proc_runtime = sample_accepted, proc_loops =
     (create_event_loop(0 := BoostEventLoop_run 1 (create_event_loop 0)))
       (1 := BoostEventLoop_run 2 (create_event_loop 1))\<rparr>"

lemma sample_process_reachable:
  "process_reachable sample_engine (process_start (GatewayRuntime_start sample_hwloc 8 sample_resolver
     sample_gateway_config)) sample_process"
proof -
  let ?p0 = "process_start sample_gateway"
  let ?p1 = "?p0\<lparr>proc_loops := (proc_loops ?p0)(0 := BoostEventLoop_run (thread_of_loop 0) (proc_loops ?p0 0))\<rparr>"
  let ?p2 = "?p1\<lparr>proc_runtime := sample_accepted\<rparr>"
  have nr: "\<not> has_run (create_event_loop l :: unit BoostEventLoop)" for l
    by (simp add: create_event_loop_def BoostEventLoop_new_def)
  have acc: "on_accept_done Error_none 40 sample_gateway = Some sample_accepted"
    by (simp add: sample_accepted_def on_accept_done_def sample_gateway_def GatewayRuntime_start_def
        sample_gateway_config_def Let_def pick_shard_def Error_ok_def Error_none_def)
  have "process_step sample_engine ?p0 (thread_of_loop 0) ?p1"
    by (rule process_step.runs_loop) (simp add: process_start_def nr)
  moreover have "process_step sample_engine ?p1 (thread_of_loop 0) ?p2"
    by (rule process_step.accepts[where err = Error_none and h = 40])
      (simp_all add: process_start_def acc, simp_all add: sample_gateway_def GatewayRuntime_start_def Let_def)
  moreover have "process_step sample_engine ?p2 (thread_of_loop 1)
      (?p2\<lparr>proc_loops := (proc_loops ?p2)(1 := BoostEventLoop_run (thread_of_loop 1) (proc_loops ?p2 1))\<rparr>)"
    by (rule process_step.runs_loop) (simp add: process_start_def nr)
  ultimately have "process_reachable sample_engine ?p0
      (?p2\<lparr>proc_loops := (proc_loops ?p2)(1 := BoostEventLoop_run (thread_of_loop 1) (proc_loops ?p2 1))\<rparr>)"
    by (intro process_reachable.step[OF process_reachable.step[OF process_reachable.step[OF process_reachable.begins]]])
  then show ?thesis by (simp add: sample_process_def process_start_def sample_gateway_def thread_of_loop_def numeral_2_eq_2)
qed

theorem threads_share_nothing_witness: "\<exists>sh'. checked_task sample_engine 2 sample_process 0 = Some sh'"
proof -
  have "posted (shards (proc_runtime sample_process) ! 0) \<noteq> []"
    using sample_accepted_shards(2) by (auto simp: sample_process_def)
  moreover have "is_current_thread 2 (proc_loops sample_process (Suc 0))" by (simp add: sample_process_def)
  ultimately show ?thesis
    using threads_share_nothing[OF sample_items sample_loaded sample_process_reachable _ refl, of 0]
    by (simp add: sample_gateway_config_def)
qed

section \<open>Stopping\<close>






end
